(* ===== verification/Prelude.thy ===== *)
theory Prelude
  imports Main "HOL-Library.Multiset"
begin

text \<open>
  Shared vocabulary of the development: Python's integer range, rounding-up division and
  first-maximum selection, the exceptions the modelled code can raise, and the list lemmas the
  components use.  \<open>py_eval\<close> collects the equations that evaluate the Python helpers on
  concrete arguments.
\<close>

named_theorems py_eval

section \<open>Python integers, ranges and exceptions\<close>

text \<open>The exceptions the modelled functions can raise; a fallible operation returns
  \<open>py_error + 'a\<close> with \<open>Inl\<close> the exception.\<close>

datatype py_error =
    ValueError | KeyError | IndexError | AssertionError | ZeroDivisionError | StructError
  | TypeError | AttributeError | SystemExit | OSError | UnicodeDecodeError

text \<open>\<open>range(n)\<close> over the unbounded integers: empty for a negative bound.\<close>

definition py_range :: "int \<Rightarrow> int list" where
  "py_range n = map int [0..<nat n]"

text \<open>\<open>range(a, b)\<close>.\<close>

definition py_range2 :: "int \<Rightarrow> int \<Rightarrow> int list" where
  "py_range2 a b = map (\<lambda>i. a + int i) [0..<nat (b - a)]"

text \<open>\<open>max(xs, key=f)\<close>: the first element with the largest key; an empty argument raises.\<close>

definition py_max_by :: "('a \<Rightarrow> 'k::linorder) \<Rightarrow> 'a list \<Rightarrow> 'a option" where
  "py_max_by f xs = (case xs of [] \<Rightarrow> None
     | y # ys \<Rightarrow> Some (foldl (\<lambda>b x. if f b < f x then x else b) y ys))"

text \<open>A sequence of \<open>assert\<close> statements: the first that fails or raises ends it.\<close>

fun assert_all :: "(py_error + bool) list \<Rightarrow> py_error + unit" where
  "assert_all [] = Inr ()"
| "assert_all (Inl e # cs) = Inl e"
| "assert_all (Inr b # cs) = (if b then assert_all cs else Inl AssertionError)"

text \<open>Sequencing of fallible steps, and a comprehension whose element may raise.\<close>

definition bindE :: "py_error + 'a \<Rightarrow> ('a \<Rightarrow> py_error + 'b) \<Rightarrow> py_error + 'b" where
  "bindE x f = (case x of Inl e \<Rightarrow> Inl e | Inr a \<Rightarrow> f a)"

fun mapE :: "('a \<Rightarrow> py_error + 'b) \<Rightarrow> 'a list \<Rightarrow> py_error + 'b list" where
  "mapE f [] = Inr []"
| "mapE f (x # xs) = bindE (f x) (\<lambda>y. bindE (mapE f xs) (\<lambda>ys. Inr (y # ys)))"

text \<open>A loop over a list whose body may raise.\<close>

fun foldE :: "('a \<Rightarrow> 's \<Rightarrow> py_error + 's) \<Rightarrow> 'a list \<Rightarrow> 's \<Rightarrow> py_error + 's" where
  "foldE f [] s = Inr s"
| "foldE f (x # xs) s = bindE (f x s) (foldE f xs)"

lemma bindE_simps [simp]: "bindE (Inl e) f = Inl e" "bindE (Inr a) f = f a"
  by (simp_all add: bindE_def)

lemma bindE_Inr: "bindE x f = Inr b \<longleftrightarrow> (\<exists>a. x = Inr a \<and> f a = Inr b)"
  by (cases x) auto

lemma mapE_Inr: "mapE f xs = Inr ys \<longleftrightarrow> list_all2 (\<lambda>x y. f x = Inr y) xs ys"
  by (induction xs arbitrary: ys) (auto simp: bindE_Inr list_all2_Cons1)

lemma mapE_total: "(\<And>x. x \<in> set xs \<Longrightarrow> f x = Inr (g x)) \<Longrightarrow> mapE f xs = Inr (map g xs)"
  by (induction xs) auto

text \<open>A loop that counts, and a loop that keeps a property exactly when every element is good.\<close>

lemma foldE_count:
  fixes m :: "'s \<Rightarrow> nat"
  assumes "\<And>x s s'. f x s = Inr s' \<Longrightarrow> m s' = m s + c x"
  shows "foldE f xs s = Inr s' \<Longrightarrow> m s' = m s + sum_list (map c xs)"
  by (induction xs arbitrary: s) (auto simp: bindE_Inr dest: assms)

lemma foldE_keeps:
  assumes "\<And>x s s'. x \<in> set xs \<Longrightarrow> f x s = Inr s' \<Longrightarrow> P s' \<longleftrightarrow> P s \<and> Q x"
  shows "foldE f xs s = Inr s' \<Longrightarrow> P s' \<longleftrightarrow> P s \<and> (\<forall>x \<in> set xs. Q x)"
  using assms by (induction xs arbitrary: s) (fastforce simp: bindE_Inr)+

lemma fold_count:
  fixes m :: "'s \<Rightarrow> nat"
  assumes "\<And>x s. m (f x s) = m s + c x"
  shows "m (fold f xs s) = m s + sum_list (map c xs)"
  by (induction xs arbitrary: s) (simp_all add: assms)

lemma fold_keeps:
  assumes "\<And>x s. P (f x s) \<longleftrightarrow> P s \<and> Q x"
  shows "P (fold f xs s) \<longleftrightarrow> P s \<and> (\<forall>x \<in> set xs. Q x)"
  by (induction xs arbitrary: s) (auto simp: assms)

lemma foldE_append: "foldE f (xs @ ys) s = bindE (foldE f xs s) (foldE f ys)"
  by (induction xs arbitrary: s) (auto simp: bindE_def split: sum.splits)

lemma list_all2_mem1: "list_all2 P xs ys \<Longrightarrow> x \<in> set xs \<Longrightarrow> \<exists>y \<in> set ys. P x y"
  by (induction rule: list_all2_induct) auto

lemma assert_all_ok: "assert_all cs = Inr () \<longleftrightarrow> (\<forall>c \<in> set cs. c = Inr True)"
  by (induction cs rule: assert_all.induct) auto

lemma set_py_range [simp]: "set (py_range n) = {0..<n}"
proof -
  have "x \<in> int ` {0..<nat n}" if "0 \<le> x" "x < n" for x
    using that by (intro image_eqI[of _ _ "nat x"]) auto
  then show ?thesis unfolding py_range_def by auto
qed

lemma length_py_range [simp]: "length (py_range n) = nat n"
  by (simp add: py_range_def)

lemma distinct_py_range [simp]: "distinct (py_range n)"
  by (simp add: py_range_def distinct_map)

lemma py_range_nonpos [simp]: "n \<le> 0 \<Longrightarrow> py_range n = []"
  by (simp add: py_range_def)

lemma py_range_int: "py_range (int n) = map int [0..<n]"
  by (simp add: py_range_def)

lemma py_range_Suc: "0 \<le> n \<Longrightarrow> py_range (n + 1) = py_range n @ [n]"
  by (simp add: py_range_def nat_add_distrib)

lemma set_py_range2 [simp]: "set (py_range2 a b) = {a..<b}"
proof -
  have "x \<in> (\<lambda>i. a + int i) ` {0..<nat (b - a)}" if "a \<le> x" "x < b" for x
    using that by (intro image_eqI[of _ _ "nat (x - a)"]) auto
  then show ?thesis unfolding py_range2_def by auto
qed

lemma py_max_by_fold_mem:
  "foldl (\<lambda>b x. if f b < f x then x else b) y ys \<in> insert y (set ys)"
  by (induction ys arbitrary: y) auto

lemma py_max_by_fold_ge:
  fixes f :: "'a \<Rightarrow> 'k::linorder"
  shows "z \<in> insert y (set ys) \<Longrightarrow> f z \<le> f (foldl (\<lambda>b x. if f b < f x then x else b) y ys)"
proof (induction ys arbitrary: y z)
  case (Cons a ys)
  let ?b = "if f y < f a then a else y"
  have top: "f ?b \<le> f (foldl (\<lambda>b x. if f b < f x then x else b) ?b ys)"
    by (rule Cons.IH) simp
  show ?case
  proof (cases "z \<in> set ys")
    case True
    then show ?thesis using Cons.IH[of z ?b] by simp
  next
    case False
    with Cons.prems have "f z \<le> f ?b" by auto
    then show ?thesis using order_trans[OF _ top] by simp
  qed
qed auto

lemma py_max_by_None [simp]: "py_max_by f xs = None \<longleftrightarrow> xs = []"
  by (simp add: py_max_by_def split: list.split)

lemma py_max_by_Some:
  assumes "py_max_by f xs = Some v"
  shows "v \<in> set xs" and "\<And>z. z \<in> set xs \<Longrightarrow> f z \<le> f v"
  using assms py_max_by_fold_mem py_max_by_fold_ge[of _ "hd xs" "tl xs" f]
  by (fastforce simp: py_max_by_def split: list.splits)+

section \<open>Rounding-up division\<close>

text \<open>\<open>-(-a // b)\<close>: Python's floor division, negated twice.  Every call divides by a positive
  tile dimension, which the lemmas assume.\<close>

definition ceil_div :: "int \<Rightarrow> int \<Rightarrow> int" where
  "ceil_div a b = - ((- a) div b)"

lemma ceil_div_bounds:
  assumes "0 < b"
  shows "a \<le> ceil_div a b * b" and "ceil_div a b * b < a + b"
proof -
  have eq: "(- a) div b * b + (- a) mod b = - a" by simp
  have mod: "0 \<le> (- a) mod b" "(- a) mod b < b" using assms by auto
  show "a \<le> ceil_div a b * b" "ceil_div a b * b < a + b"
    unfolding ceil_div_def using eq mod by linarith+
qed

lemma ceil_div_nonneg: "0 < b \<Longrightarrow> 0 \<le> a \<Longrightarrow> 0 \<le> ceil_div a b"
  unfolding ceil_div_def by (simp add: div_nonpos_pos_le0)

lemma ceil_div_pos: "0 < b \<Longrightarrow> 0 < a \<Longrightarrow> 0 < ceil_div a b"
  unfolding ceil_div_def by (simp add: div_neg_pos_less0)

text \<open>It is the least number of tiles of size \<open>b\<close> that hold \<open>a\<close>.\<close>

lemma ceil_div_least:
  assumes "0 < b" and "a \<le> n * b"
  shows "ceil_div a b \<le> n"
proof (rule ccontr)
  assume "\<not> ceil_div a b \<le> n"
  then have "(n + 1) * b \<le> ceil_div a b * b" using assms(1) by (intro mult_right_mono) auto
  then show False using ceil_div_bounds(2)[OF assms(1), of a] assms(2) by (simp add: algebra_simps)
qed

section \<open>Sets and lists\<close>

lemma card_swap [simp]:
  assumes "finite U" "v \<in> U" "r \<notin> U"
  shows "card (insert r (U - {v})) = card U"
  using assms card_Suc_Diff1[of U v] by (simp add: card_insert_if)

lemma Suc_card_minus [simp]: "finite U \<Longrightarrow> v \<in> U \<Longrightarrow> Suc (card U - Suc 0) = card U"
  using card_gt_0_iff[of U] by auto

lemma count_list_snoc: "count_list (xs @ [y]) x = count_list xs x + (if y = x then 1 else 0)"
  by (induction xs) auto

lemma set_tl_distinct: "distinct xs \<Longrightarrow> xs \<noteq> [] \<Longrightarrow> set (tl xs) = set xs - {hd xs}"
  by (cases xs) auto

lemma py_range_append:
  assumes "0 \<le> a" "0 \<le> b"
  shows "py_range a @ map (\<lambda>i. a + i) (py_range b) = py_range (a + b)"
  using assms by (intro nth_equalityI) (auto simp: py_range_def nth_append nat_add_distrib)

lemma nth_concat_replicate:
  "i < b * length p \<Longrightarrow> concat (replicate b p) ! i = p ! (i mod length p)"
proof (induction b arbitrary: i)
  case (Suc b)
  show ?case
  proof (cases "i < length p")
    case False
    then have "concat (replicate (Suc b) p) ! i = concat (replicate b p) ! (i - length p)"
      by (simp add: nth_append)
    also have "\<dots> = p ! ((i - length p) mod length p)" using Suc False by simp
    also have "(i - length p) mod length p = i mod length p" using False by (simp add: le_mod_geq)
    finally show ?thesis .
  qed (simp add: nth_append)
qed simp

lemma concat_map_const: "concat (map (\<lambda>_. xs) ys) = concat (replicate (length ys) xs)"
  by (induction ys) auto

lemma length_concat_replicate [simp]: "length (concat (replicate n xs)) = n * length xs"
  by (induction n) auto

lemma sum_list_const: "sum_list (map (\<lambda>_. c) xs) = of_nat (length xs) * (c::int)"
  by (induction xs) (auto simp: algebra_simps)

end
