(* ===== verification/Tw_Sweep.thy ===== *)
theory Tw_Sweep
  imports Prelude Complex_Main
begin

text \<open>
  The cycle-cost model of \<^verbatim>\<open>docs/designs/pta_tw_sweep.py\<close>: the two loop orders of section 2.1
  (\<open>shipped\<close>, \<open>interchanged\<close>), what the c930 core spends term by term, the break-even weight
  time, and the asserts of \<open>main\<close> against the measured cycle counts.  Python's arithmetic is
  overloaded, so the two loop-order costs are polymorphic; Python's floating point is exact
  rational arithmetic here.
\<close>

unbundle bit_operations_syntax

section \<open>The configuration and the measured anchors\<close>

definition M_dim :: int where [simp]: "M_dim = 64"
definition N_dim :: int where [simp]: "N_dim = 8"
definition K_dim :: int where [simp]: "K_dim = 256"
definition NUM_ROWS :: int where [simp]: "NUM_ROWS = 8"
definition NUM_COLS :: int where [simp]: "NUM_COLS = 8"

definition KT :: int where "KT = ceil_div K_dim NUM_ROWS"
definition NT :: int where "NT = ceil_div N_dim NUM_COLS"
definition SCAN :: int where "SCAN = NUM_ROWS * NUM_COLS"
definition TD :: int where "TD = NUM_COLS"
definition DIGITAL_RUN :: int where "DIGITAL_RUN = NUM_ROWS + NUM_COLS + 2"

definition MEASURED_SHIPPED :: int where "MEASURED_SHIPPED = 168448"
definition MEASURED_INTERCHANGED :: int where "MEASURED_INTERCHANGED = 71168"
definition MEASURED_FOLD_SAVES :: int where "MEASURED_FOLD_SAVES = 15872"

definition SHOT_FLOOR :: int where "SHOT_FLOOR = 2"
definition MB_TW :: int where "MB_TW = 1"

definition MEASURED_C2 :: "(string \<times> int) list" where
  "MEASURED_C2 = [(''TO-1ms'', 3248640), (''TO-10us'', 80640), (''EO-scan'', 40448)]"

definition MEASURED_MB :: "(string \<times> int) list" where
  "MEASURED_MB = [(''interchanged'', 38432), (''m-outer'', 8704)]"

definition SOC_M :: int where [simp]: "SOC_M = 8"
definition SOC_N :: int where [simp]: "SOC_N = 12"
definition SOC_K :: int where [simp]: "SOC_K = 16"

text \<open>Name, \<open>PTA_TW\<close>, \<open>PTA_TS\<close>, resident, cycles, weight movement, \<open>S_AROW\<close>.\<close>

definition MEASURED_C4C :: "(string \<times> int \<times> int \<times> bool \<times> int \<times> int \<times> int) list" where
  "MEASURED_C4C =
     [(''TO-1ms'', 100000, 5, False, 402528, 400288, 0),
      (''TO-10us'', 1000, 5, False, 6528, 4288, 0),
      (''EO-scan'', 0, 1, False, 2528, 288, 0),
      (''EO-res'', 0, 1, True, 2337, 100, 0)]"

definition PTM_C_DRAIN :: int where "PTM_C_DRAIN = 2 * 2 * (NUM_ROWS + NUM_COLS)"

definition MEASURED_SOCB :: "(string \<times> int \<times> int \<times> bool \<times> int) list" where
  "MEASURED_SOCB =
     [(''TO-1ms'', 100000, 5, False, 400704), (''TO-10us'', 1000, 5, False, 4704),
      (''EO-scan'', 0, 1, False, 576), (''EO-res'', 0, 1, True, 388)]"

definition MEASURED_SOCB_TS :: "(int \<times> int) list" where
  "MEASURED_SOCB_TS = [(1, 576), (2, 608), (4, 672), (8, 800), (16, 1056)]"

section \<open>The cost functions\<close>

text \<open>m outer: a weight program per shot, a row write per \<open>(m, nt)\<close>.\<close>

definition shipped :: "'a::comm_ring_1 \<Rightarrow> 'a \<Rightarrow> 'a \<Rightarrow> 'a \<Rightarrow> 'a \<Rightarrow> 'a \<Rightarrow> 'a" where
  "shipped tw ts td m nt kt = m * nt * (kt * (tw + ts) + td)"

text \<open>\<open>(kt, nt)\<close> outer, m inner; \<open>restore\<close> adds the unfolded restore.\<close>

definition interchanged :: "'a::comm_ring_1 \<Rightarrow> 'a \<Rightarrow> 'a \<Rightarrow> 'a \<Rightarrow> 'a \<Rightarrow> 'a \<Rightarrow> bool \<Rightarrow> 'a" where
  "interchanged tw ts td m nt kt restore =
     (let t = nt * kt * (tw + m * (ts + td)) in
      if restore then t + m * nt * (kt - 1) * td else t)"

text \<open>What the core spends, one term per state of the RTL.\<close>

definition core_cycles :: "int \<Rightarrow> int \<Rightarrow> int \<Rightarrow> int \<Rightarrow> int \<Rightarrow> int \<Rightarrow> int \<Rightarrow> bool \<Rightarrow> int" where
  "core_cycles pta_tw pta_ts m n k rows cols scanned =
     (let nt = ceil_div n cols;
          kt = ceil_div k rows;
          tw_eff = pta_tw + (pta_tw AND 1);
          scan = (if scanned then n * k else 0) + nt * kt * tw_eff;
          restore = m * (kt - 1) * n;
          write = m * kt * n;
          shot = m * nt * kt * (pta_ts + SHOT_FLOOR)
      in scan + restore + write + shot)"

definition core_resident :: "int \<Rightarrow> int \<Rightarrow> int \<Rightarrow> int \<Rightarrow> int \<Rightarrow> int \<Rightarrow> int" where
  "core_resident pta_ts m n k rows cols =
     (let nt = ceil_div n cols;
          kt = ceil_div k rows;
          select = nt * kt * MB_TW;
          restore = m * (kt - 1) * n;
          write = m * kt * n;
          shot = m * nt * kt * (pta_ts + SHOT_FLOOR)
      in select + restore + write + shot)"

definition core_shipped_resident :: "int \<Rightarrow> int \<Rightarrow> int \<Rightarrow> int \<Rightarrow> int \<Rightarrow> int \<Rightarrow> int" where
  "core_shipped_resident pta_ts m n k rows cols =
     (let nt = ceil_div n cols;
          kt = ceil_div k rows;
          shots = m * nt * kt
      in shots * MB_TW + shots * (pta_ts + SHOT_FLOOR) + m * n)"

definition core_band :: int where "core_band = 0"

text \<open>The weight time above which the interchange wins; \<open>/\<close> is a true division.\<close>

definition break_even :: "rat \<Rightarrow> rat \<Rightarrow> rat \<Rightarrow> bool \<Rightarrow> rat" where
  "break_even td m kt restore = (if restore then 2 else 1) * td * m * (kt - 1) / ((m - 1) * kt)"

text \<open>The verdict of \<open>winner\<close>: which order, and the ratio it prints.\<close>

definition winner :: "rat \<Rightarrow> rat \<Rightarrow> string \<times> rat" where
  "winner t_shipped t_inter =
     (if t_inter < t_shipped then (''interchange'', t_shipped / t_inter)
      else (''as shipped'', t_inter / t_shipped))"

section \<open>The asserts of \<open>main\<close>\<close>

definition model_asserts :: "bool list" where
  "model_asserts =
     (let s = shipped SCAN DIGITAL_RUN TD M_dim NT KT;
          i_unfolded = interchanged SCAN DIGITAL_RUN TD M_dim NT KT True;
          i_folded = interchanged SCAN DIGITAL_RUN TD M_dim NT KT False
      in [s = MEASURED_SHIPPED, i_unfolded = MEASURED_INTERCHANGED,
          i_unfolded - i_folded = MEASURED_FOLD_SAVES])"

definition break_even_asserts :: "bool list" where
  "break_even_asserts =
     concat (map (\<lambda>restore.
       (let td = of_int TD; m = of_int M_dim; nt = of_int NT; kt = of_int KT;
            tw_star = break_even td m kt restore
        in map (\<lambda>ts.
             \<bar>shipped tw_star ts td m nt kt - interchanged tw_star ts td m nt kt restore\<bar>
             < (1 / 1000000) * shipped tw_star ts td m nt kt) [1, 18, 1000]))
       [False, True])"

definition sweep_points :: "(string \<times> int \<times> int \<times> bool) list" where
  "sweep_points = [(''TO-1ms'', 100000, 5, True), (''TO-10us'', 1000, 5, True),
                   (''EO-scan'', 0, 1, True), (''EO-res'', 0, 1, False)]"

definition c2_asserts :: "bool list" where
  "c2_asserts =
     concat (map (\<lambda>(name, pta_tw, pta_ts, scanned).
       (let hi = core_cycles pta_tw pta_ts M_dim N_dim K_dim NUM_ROWS NUM_COLS scanned;
            tw = (if scanned then SCAN else 0) + pta_tw;
            folded = interchanged tw pta_ts TD M_dim NT KT False
        in case map_of MEASURED_C2 name of
             None \<Rightarrow> []
           | Some got \<Rightarrow>
               (let restore = M_dim * (KT - 1) * N_dim;
                    scan = (if scanned then N_dim * K_dim else 0)
                           + NT * KT * (pta_tw + (pta_tw AND 1));
                    shot_over = (got - scan - restore - M_dim * KT * N_dim)
                                - M_dim * NT * KT * pta_ts
                in [hi - core_band \<le> got \<and> got \<le> hi, got - folded = restore + shot_over])))
       sweep_points)"

text \<open>\<open>MEASURED_MB[...]\<close>: a missing key raises.\<close>

definition mb_asserts :: "(py_error + bool) list" where
  "mb_asserts =
     (let hi_i = core_resident 1 M_dim N_dim K_dim NUM_ROWS NUM_COLS;
          hi_o = core_shipped_resident 1 M_dim N_dim K_dim NUM_ROWS NUM_COLS;
          in_band = (\<lambda>key hi. case map_of MEASURED_MB key of None \<Rightarrow> Inl KeyError
             | Some got \<Rightarrow> Inr (hi - core_band \<le> got \<and> got \<le> hi))
      in [in_band ''interchanged'' hi_i, in_band ''m-outer'' hi_o])"

definition c4c_asserts :: "bool list" where
  "c4c_asserts =
     (let snt = ceil_div SOC_N NUM_COLS; skt = ceil_div SOC_K NUM_ROWS in
      concat (map (\<lambda>(name, tw, ts, resident, got, wmove, arow).
        (let shots = SOC_M * snt * skt;
             want_w = (if resident then snt * skt * MB_TW + SOC_M * (skt - 1) * SOC_N
                       else SOC_N * SOC_K + snt * skt * (tw + (tw AND 1))
                            + SOC_M * (skt - 1) * SOC_N);
             scan = (if resident then snt * skt * MB_TW
                     else SOC_N * SOC_K + snt * skt * (tw + (tw AND 1)));
             want_c = scan + SOC_M * (skt - 1) * SOC_N + SOC_M * skt * SOC_N
                      + shots * PTM_C_DRAIN;
             outside = got - want_c
         in [wmove = want_w, \<bar>outside\<bar> \<le> snt * skt, arow = 0]))
        MEASURED_C4C))"

definition socb_asserts :: "(py_error + bool) list" where
  "socb_asserts =
     (let snt = ceil_div SOC_N NUM_COLS; skt = ceil_div SOC_K NUM_ROWS;
          shots = SOC_M * snt * skt in
      concat (map (\<lambda>(name, tw, ts, resident, got_b).
        case map_of MEASURED_C4C name of
          None \<Rightarrow> [Inl KeyError]
        | Some (tw', ts', res', got_c, wm', ar') \<Rightarrow>
            (let scan = (if resident then snt * skt * MB_TW
                         else SOC_N * SOC_K + snt * skt * (tw + (tw AND 1)));
                 other = scan + SOC_M * (skt - 1) * SOC_N + SOC_M * skt * SOC_N;
                 shot_b = (of_int (got_b - other) :: rat) / of_int shots;
                 shot_c = (of_int (got_c - other) :: rat) / of_int shots
             in [Inr (\<bar>shot_c - of_int PTM_C_DRAIN\<bar> \<le> 1),
                 Inr (\<bar>shot_b - of_int (ts + SHOT_FLOOR)\<bar> \<le> 1)]))
        MEASURED_SOCB))"

definition slope_asserts :: "bool list" where
  "slope_asserts =
     (let snt = ceil_div SOC_N NUM_COLS; skt = ceil_div SOC_K NUM_ROWS;
          runs = SOC_M * snt * skt;
          lo = hd MEASURED_SOCB_TS; hi = last MEASURED_SOCB_TS;
          span = snd hi - snd lo; want_span = runs * (fst hi - fst lo)
      in [\<bar>span - want_span\<bar> \<le> runs])"

definition tw_sweep_main :: "py_error + unit" where
  "tw_sweep_main = assert_all
     (map Inr model_asserts @ map Inr break_even_asserts @ map Inr c2_asserts @ mb_asserts
      @ map Inr c4c_asserts @ socb_asserts @ map Inr slope_asserts)"

section \<open>Properties\<close>

lemma interchanged_gap:
  "shipped tw ts td m nt kt - interchanged tw ts td m nt kt restore
   = nt * ((m - 1) * kt * tw - (if restore then 2 else 1) * td * m * (kt - 1))"
  by (simp add: shipped_def interchanged_def Let_def algebra_simps)

text \<open>[C28] Break-even: with at least two rows and one tile in each direction, the interchanged
  order is strictly cheaper than the shipped one exactly when the weight time exceeds
  \<open>break_even\<close>, whatever the shot time, and the two tie exactly at it (restore folded or not).\<close>

theorem interchange_wins_iff:
  fixes tw ts td m nt kt :: rat
  assumes "1 < m" and "0 < nt" and "0 < kt"
  shows "(interchanged tw ts td m nt kt restore < shipped tw ts td m nt kt
           \<longleftrightarrow> break_even td m kt restore < tw)
       \<and> (interchanged tw ts td m nt kt restore = shipped tw ts td m nt kt
           \<longleftrightarrow> tw = break_even td m kt restore)"
proof -
  let ?c = "(if restore then 2 else 1 :: rat) * td * m * (kt - 1)"
  let ?gap = "shipped tw ts td m nt kt - interchanged tw ts td m nt kt restore"
  have pos: "0 < (m - 1) * kt" using assms by simp
  have be: "break_even td m kt restore = ?c / ((m - 1) * kt)" by (simp add: break_even_def)
  have gap: "?gap = nt * ((m - 1) * kt * tw - ?c)" by (rule interchanged_gap)
  have "0 < ?gap \<longleftrightarrow> ?c < (m - 1) * kt * tw"
    unfolding gap using assms(2) by (simp add: zero_less_mult_iff)
  also have "\<dots> \<longleftrightarrow> break_even td m kt restore < tw"
    unfolding be using pos by (simp add: pos_divide_less_eq mult.commute)
  finally have less: "0 < ?gap \<longleftrightarrow> break_even td m kt restore < tw" .
  have "?gap = 0 \<longleftrightarrow> (m - 1) * kt * tw = ?c" unfolding gap using assms(2) by simp
  also have "\<dots> \<longleftrightarrow> tw = break_even td m kt restore"
    unfolding be using pos nonzero_eq_divide_eq[of "(m - 1) * kt" tw ?c]
    by (simp only: mult.commute[of tw])
  finally show ?thesis using less by auto
qed

theorem interchange_wins_iff_witness:
  "interchanged 64 18 8 64 1 32 False < shipped 64 18 8 64 1 (32::rat)
   \<and> break_even 8 64 32 False < 64"
  using interchange_wins_iff[of 64 1 32 64 18 8 False]
  by (simp add: break_even_def)

lemma ceil_div_exact: "0 < b \<Longrightarrow> ceil_div (q * b) b = q"
  unfolding ceil_div_def by (simp flip: mult_minus_left)

text \<open>[C27] On a shape that fills its tiles, the core's state-by-state count is section 2.1's
  interchanged cost with the restore unfolded, at \<open>Tw = rows * cols\<close> plus the settle rounded up to
  even, \<open>Ts = PTA_TS + SHOT_FLOOR\<close> and \<open>Td = cols\<close>.\<close>

theorem core_cycles_refines_interchanged:
  assumes "0 < rows" and "0 < cols" and "n = nt * cols" and "k = kt * rows"
  shows "core_cycles pta_tw pta_ts m n k rows cols True
       = interchanged (rows * cols + (pta_tw + (pta_tw AND 1))) (pta_ts + SHOT_FLOOR) cols
           m nt kt True"
  using assms ceil_div_exact[of cols nt] ceil_div_exact[of rows kt]
  by (simp add: core_cycles_def interchanged_def Let_def algebra_simps)

theorem core_cycles_refines_interchanged_witness:
  "core_cycles 1000 5 64 8 256 8 8 True = interchanged (64 + 1000) 7 8 64 1 32 True
   \<and> core_cycles 1000 5 64 8 256 8 8 True = 80640"
  using core_cycles_refines_interchanged[of 8 8 8 1 256 32 1000 5 64]
  by (simp add: SHOT_FLOOR_def interchanged_def)

text \<open>With resident banks the m-outer order is strictly cheaper for the core exactly when the
  K dimension spans at least two tiles; with one K tile the interchanged order never loses.\<close>

lemma resident_order:
  assumes "1 < m" and "0 < n" and "0 < k" and "0 < rows" and "0 < cols"
  shows "core_shipped_resident pta_ts m n k rows cols < core_resident pta_ts m n k rows cols
           \<longleftrightarrow> rows < k"
proof -
  define nt kt where "nt = ceil_div n cols" and "kt = ceil_div k rows"
  have nt: "1 \<le> nt" and kt: "1 \<le> kt"
    using ceil_div_pos[of cols n] ceil_div_pos[of rows k] assms by (auto simp: nt_def kt_def)
  have ntn: "nt \<le> n"
    using ceil_div_least[of cols n n] assms by (simp add: nt_def mult_le_cancel_left1)
  have diff: "core_resident pta_ts m n k rows cols - core_shipped_resident pta_ts m n k rows cols
      = 2 * m * n * (kt - 1) - nt * kt * (m - 1)"
    by (simp add: core_resident_def core_shipped_resident_def Let_def MB_TW_def algebra_simps
        flip: nt_def kt_def)
  have kt1: "kt = 1 \<longleftrightarrow> k \<le> rows"
    using ceil_div_least[of rows k 1] ceil_div_bounds(1)[of rows k] kt assms by (auto simp: kt_def)
  show ?thesis
  proof (cases "kt = 1")
    case True
    have "0 \<le> nt * (m - 1)" using nt assms by simp
    then show ?thesis using diff True kt1 by simp
  next
    case False
    then have kt2: "2 \<le> kt" using kt by simp
    have "nt * kt * (m - 1) < nt * kt * m" using nt kt by simp
    also have "\<dots> \<le> n * kt * m" using ntn kt assms by (intro mult_right_mono) auto
    also have "\<dots> \<le> n * (2 * (kt - 1)) * m" using kt2 assms
      by (intro mult_right_mono mult_left_mono) auto
    finally have "nt * kt * (m - 1) < 2 * m * n * (kt - 1)" by (simp add: algebra_simps)
    then show ?thesis using diff False kt1 by linarith
  qed
qed

text \<open>Every assert of \<open>main\<close> against the measured cycle counts holds, so the script
  reaches its last line.\<close>

lemma tw_sweep_main_passes: "tw_sweep_main = Inr ()"
  by code_simp

end
