(* ===== verification/Demand_Paging.thy ===== *)
theory Demand_Paging
  imports Prelude "HOL-Library.Extended_Nat"
begin

text \<open>
  The theory of replacement the bank models rest on: the least number of misses a schedule of
  \<open>W\<close> banks can have on a reference stream (\<open>opt_misses\<close>), Belady's exchange argument that
  evicting the set used farthest ahead attains it, the interface \<open>demand_policy\<close> of an online
  policy with the facts every such policy has, and reference streams whose repeats lie more than
  \<open>W\<close> apart.
\<close>

section \<open>Demand schedules and their optimum\<close>

text \<open>\<open>opt_misses W S rs\<close>: the least number of misses on \<open>rs\<close> with \<open>S\<close> resident.  A schedule lists
  the resident set after each reference: it holds the reference, loads nothing else, and stays
  within \<open>W\<close> banks.\<close>

fun opt_misses :: "nat \<Rightarrow> int set \<Rightarrow> int list \<Rightarrow> nat" where
  "opt_misses W S [] = 0"
| "opt_misses W S (r # rs) =
     (if r \<in> S then opt_misses W S rs
      else if card S < W then 1 + opt_misses W (insert r S) rs
      else 1 + Min ((\<lambda>v. opt_misses W (insert r (S - {v})) rs) ` S))"

fun valid_schedule :: "nat \<Rightarrow> int set \<Rightarrow> int list \<Rightarrow> int set list \<Rightarrow> bool" where
  "valid_schedule W S [] Ss = (Ss = [])"
| "valid_schedule W S (r # rs) [] = False"
| "valid_schedule W S (r # rs) (T # Ss) =
     (r \<in> T \<and> T \<subseteq> insert r S \<and> card T \<le> W \<and> valid_schedule W T rs Ss)"

fun schedule_misses :: "int set \<Rightarrow> int list \<Rightarrow> int set list \<Rightarrow> nat" where
  "schedule_misses S [] Ss = 0"
| "schedule_misses S (r # rs) [] = 0"
| "schedule_misses S (r # rs) (T # Ss) =
     (if r \<in> S then 0 else 1) + schedule_misses T rs Ss"

lemma opt_evict_le:
  assumes "finite S" "r \<notin> S" "W \<le> card S" "v \<in> S"
  shows "opt_misses W S (r # rs) \<le> 1 + opt_misses W (insert r (S - {v})) rs"
  using assms by auto

lemma opt_evict_ex:
  assumes "finite S" "r \<notin> S" "W \<le> card S" "S \<noteq> {}"
  obtains v where "v \<in> S" "opt_misses W S (r # rs) = 1 + opt_misses W (insert r (S - {v})) rs"
proof -
  have "Min ((\<lambda>v. opt_misses W (insert r (S - {v})) rs) ` S)
      \<in> (\<lambda>v. opt_misses W (insert r (S - {v})) rs) ` S"
    using assms by (intro Min_in) auto
  then obtain v where "v \<in> S"
    "Min ((\<lambda>v. opt_misses W (insert r (S - {v})) rs) ` S) = opt_misses W (insert r (S - {v})) rs"
    by (rule imageE)
  then show ?thesis using assms by (intro that[of v]) auto
qed

text \<open>A larger resident set never costs more.\<close>

lemma opt_misses_mono:
  assumes "finite S'" "S \<subseteq> S'" "card S' \<le> W" "0 < W"
  shows "opt_misses W S' rs \<le> opt_misses W S rs"
  using assms
proof (induction rs arbitrary: S S')
  case (Cons r rs)
  have fin: "finite S" using Cons.prems finite_subset by blast
  show ?case
  proof (cases "S = S' \<or> r \<in> S")
    case True
    then show ?thesis using Cons by auto
  next
    case False
    then have ss: "S \<subset> S'" and r: "r \<notin> S" using Cons.prems by auto
    then have room: "card S < W" using Cons.prems psubset_card_mono[of S' S] by simp
    have R: "opt_misses W S (r # rs) = 1 + opt_misses W (insert r S) rs" using r room by simp
    consider (hit) "r \<in> S'" | (fill) "r \<notin> S'" "card S' < W" | (full) "r \<notin> S'" "card S' = W"
      using Cons.prems by linarith
    then show ?thesis
    proof cases
      case hit
      then show ?thesis using Cons.IH[of S' "insert r S"] Cons.prems R by auto
    next
      case fill
      then have "opt_misses W (insert r S') rs \<le> opt_misses W (insert r S) rs"
        using Cons.prems by (intro Cons.IH) auto
      then show ?thesis using R fill by simp
    next
      case full
      obtain v where v: "v \<in> S'" "v \<notin> S" using ss by auto
      have "opt_misses W (insert r (S' - {v})) rs \<le> opt_misses W (insert r S) rs"
        using Cons.prems v full r by (intro Cons.IH) (auto simp: card_insert_if)
      then show ?thesis
        using R opt_evict_le[OF Cons.prems(1) full(1) _ v(1), of W rs] full(2) by simp
    qed
  qed
qed simp

text \<open>No valid schedule beats \<open>opt_misses\<close>.\<close>

lemma opt_misses_le_schedule:
  assumes "valid_schedule W S rs Ss" "finite S" "card S \<le> W" "0 < W"
  shows "opt_misses W S rs \<le> schedule_misses S rs Ss"
  using assms
proof (induction W S rs Ss rule: valid_schedule.induct)
  case (3 W S r rs T Ss)
  have T: "r \<in> T" "T \<subseteq> insert r S" "card T \<le> W" "valid_schedule W T rs Ss" "finite T"
    using "3.prems" finite_subset by auto
  have IH: "opt_misses W T rs \<le> schedule_misses T rs Ss" using "3" T by auto
  have mono: "opt_misses W S' rs \<le> opt_misses W T rs" if "T \<subseteq> S'" "finite S'" "card S' \<le> W" for S'
    using that "3.prems" by (intro opt_misses_mono) auto
  consider (hit) "r \<in> S" | (fill) "r \<notin> S" "card S < W" | (full) "r \<notin> S" "card S = W"
    using "3.prems" by linarith
  then show ?case
  proof cases
    case hit
    then show ?thesis using IH mono[of S] "3.prems" T by (auto simp: insert_absorb)
  next
    case fill
    then show ?thesis using IH mono[of "insert r S"] "3.prems" T by auto
  next
    case full
    have "\<not> S \<subseteq> T"
    proof
      assume "S \<subseteq> T"
      then have "insert r S \<subseteq> T" using T by simp
      then have "card (insert r S) \<le> card T" using T card_mono by blast
      then show False using full T "3.prems" by simp
    qed
    then obtain v where v: "v \<in> S" "v \<notin> T" by auto
    have "opt_misses W (insert r (S - {v})) rs \<le> opt_misses W T rs"
      using full v T "3.prems" by (intro mono) (auto simp: card_insert_if)
    then show ?thesis
      using IH full opt_evict_le[OF "3.prems"(2) full(1) _ v(1), of W rs] by simp
  qed
qed auto

text \<open>Two full sets that differ in one element cost at most one miss apart.\<close>

lemma opt_swap_lipschitz:
  assumes "finite U" "a \<notin> U" "b \<notin> U" "card U + 1 = W"
  shows "opt_misses W (insert a U) rs \<le> 1 + opt_misses W (insert b U) rs"
  using assms
proof (induction rs arbitrary: U a b)
  case (Cons r rs)
  let ?A = "insert a U" and ?B = "insert b U"
  have full: "W \<le> card ?A" "W \<le> card ?B" and fin: "finite ?A" "finite ?B" using Cons.prems by auto
  consider "a = b" | "r \<in> U" | (ra) "a \<noteq> b" "r = a" | (rb) "a \<noteq> b" "r = b"
    | (other) "a \<noteq> b" "r \<notin> U" "r \<noteq> a" "r \<noteq> b" by blast
  then show ?case
  proof cases
    case ra
    have notB: "r \<notin> ?B" using ra Cons.prems by auto
    obtain v where v: "v \<in> ?B" "opt_misses W ?B (r # rs) = 1 + opt_misses W (insert r (?B - {v})) rs"
      using opt_evict_ex[OF fin(2) notB full(2)] by auto
    show ?thesis
    proof (cases "v = b")
      case True
      then show ?thesis using v ra Cons.prems by simp
    next
      case False
      then have vU: "v \<in> U" using v by simp
      have eqA: "?A = insert v (insert a (U - {v}))" using vU by auto
      have eqB: "insert r (?B - {v}) = insert b (insert a (U - {v}))" using False ra by auto
      have "opt_misses W ?A rs \<le> 1 + opt_misses W (insert r (?B - {v})) rs"
        unfolding eqA eqB using Cons.prems vU ra False by (intro Cons.IH) auto
      then show ?thesis using v ra by simp
    qed
  next
    case rb
    have "opt_misses W ?A (r # rs) \<le> 1 + opt_misses W (insert r (?A - {a})) rs"
      using rb Cons.prems full fin by (intro opt_evict_le) auto
    moreover have "insert r (?A - {a}) = ?B" using rb Cons.prems by auto
    ultimately show ?thesis using rb by simp
  next
    case other
    have notA: "r \<notin> ?A" and notB: "r \<notin> ?B" using other by auto
    obtain v where v: "v \<in> ?B" "opt_misses W ?B (r # rs) = 1 + opt_misses W (insert r (?B - {v})) rs"
      using opt_evict_ex[OF fin(2) notB full(2)] by auto
    show ?thesis
    proof (cases "v = b")
      case True
      have "insert r (?A - {a}) = insert r (?B - {v})" using True Cons.prems by auto
      then show ?thesis using v opt_evict_le[OF fin(1) notA full(1), of a rs] by simp
    next
      case False
      then have vU: "v \<in> U" using v by simp
      let ?U = "insert r (U - {v})"
      have eqA: "insert r (?A - {v}) = insert a ?U" using vU Cons.prems by auto
      have eqB: "insert r (?B - {v}) = insert b ?U" using False by auto
      have "opt_misses W (insert a ?U) rs \<le> 1 + opt_misses W (insert b ?U) rs"
        using Cons.prems vU other by (intro Cons.IH) auto
      then show ?thesis using v opt_evict_le[OF fin(1) notA full(1), of v rs] vU eqA eqB by simp
    qed
  qed (use Cons in auto)
qed simp

text \<open>Keeping the set used sooner is never worse: the exchange step of Belady's argument.\<close>

fun first_use :: "int \<Rightarrow> int list \<Rightarrow> enat" where
  "first_use x [] = \<infinity>"
| "first_use x (r # rs) = (if r = x then 0 else eSuc (first_use x rs))"

lemma opt_exchange:
  assumes "finite U" "x \<notin> U" "y \<notin> U" "card U + 1 = W" "first_use x rs \<le> first_use y rs"
  shows "opt_misses W (insert x U) rs \<le> opt_misses W (insert y U) rs"
  using assms
proof (induction rs arbitrary: U)
  case (Cons r rs)
  let ?X = "insert x U" and ?Y = "insert y U"
  have full: "W \<le> card ?X" "W \<le> card ?Y" and fin: "finite ?X" "finite ?Y" using Cons.prems by auto
  consider "x = y" | (inU) "x \<noteq> y" "r \<in> U" | (rx) "x \<noteq> y" "r = x"
    | (other) "x \<noteq> y" "r \<notin> U" "r \<noteq> x" "r \<noteq> y"
    using Cons.prems(5) by (cases "r = y") (auto split: if_splits)
  then show ?case
  proof cases
    case inU
    then have "r \<noteq> x" "r \<noteq> y" using Cons.prems by auto
    then show ?thesis using Cons inU by auto
  next
    case rx
    have notY: "r \<notin> ?Y" using rx Cons.prems by auto
    obtain v where v: "v \<in> ?Y" "opt_misses W ?Y (r # rs) = 1 + opt_misses W (insert r (?Y - {v})) rs"
      using opt_evict_ex[OF fin(2) notY full(2)] by auto
    show ?thesis
    proof (cases "v = y")
      case True
      then show ?thesis using v rx Cons.prems by simp
    next
      case False
      then have vU: "v \<in> U" using v by simp
      have eqX: "?X = insert v (insert x (U - {v}))" using vU by auto
      have eqY: "insert r (?Y - {v}) = insert y (insert x (U - {v}))" using False rx by auto
      have "opt_misses W ?X rs \<le> 1 + opt_misses W (insert r (?Y - {v})) rs"
        unfolding eqX eqY using Cons.prems vU rx False by (intro opt_swap_lipschitz) auto
      then show ?thesis using v rx by simp
    qed
  next
    case other
    have notX: "r \<notin> ?X" and notY: "r \<notin> ?Y" using other by auto
    obtain v where v: "v \<in> ?Y" "opt_misses W ?Y (r # rs) = 1 + opt_misses W (insert r (?Y - {v})) rs"
      using opt_evict_ex[OF fin(2) notY full(2)] by auto
    show ?thesis
    proof (cases "v = y")
      case True
      have "insert r (?X - {x}) = insert r (?Y - {v})" using True Cons.prems by auto
      then show ?thesis using v opt_evict_le[OF fin(1) notX full(1), of x rs] by simp
    next
      case False
      then have vU: "v \<in> U" using v by simp
      let ?U = "insert r (U - {v})"
      have eqX: "insert r (?X - {v}) = insert x ?U" using vU Cons.prems by auto
      have eqY: "insert r (?Y - {v}) = insert y ?U" using False by auto
      have "opt_misses W (insert x ?U) rs \<le> opt_misses W (insert y ?U) rs"
        using Cons.prems vU other by (intro Cons.IH) auto
      then show ?thesis using v opt_evict_le[OF fin(1) notX full(1), of v rs] vU eqX eqY by simp
    qed
  qed (use Cons in auto)
qed simp

lemma opt_evict_farthest:
  assumes "finite S" "r \<notin> S" "card S = W" "v \<in> S"
    and far: "\<And>z. z \<in> S \<Longrightarrow> first_use z rs \<le> first_use v rs"
  shows "opt_misses W S (r # rs) = 1 + opt_misses W (insert r (S - {v})) rs"
proof (rule antisym)
  show "opt_misses W S (r # rs) \<le> 1 + opt_misses W (insert r (S - {v})) rs"
    using assms by (intro opt_evict_le) auto
  obtain u where u: "u \<in> S" "opt_misses W S (r # rs) = 1 + opt_misses W (insert r (S - {u})) rs"
    using opt_evict_ex[of S r W rs] assms by auto
  let ?U = "insert r (S - {u, v})"
  have "opt_misses W (insert r (S - {v})) rs \<le> opt_misses W (insert r (S - {u})) rs"
  proof (cases "u = v")
    case False
    have c: "card ?U + 1 = W"
    proof -
      have "S = insert u (insert v (S - {u, v}))" using assms u by auto
      then have "card S = card (insert u (insert v (S - {u, v})))" by (rule arg_cong)
      also have "\<dots> = card (S - {u, v}) + 2" using assms False by simp
      finally show ?thesis using assms by simp
    qed
    have eq: "insert r (S - {v}) = insert u ?U" "insert r (S - {u}) = insert v ?U"
      using assms u False by auto
    show ?thesis unfolding eq
      using assms u False c by (intro opt_exchange) auto
  qed simp
  then show "1 + opt_misses W (insert r (S - {v})) rs \<le> opt_misses W S (r # rs)" using u by simp
qed

fun count_misses :: "('s \<Rightarrow> int \<Rightarrow> 's) \<Rightarrow> ('s \<Rightarrow> int set) \<Rightarrow> 's \<Rightarrow> int list \<Rightarrow> nat" where
  "count_misses step resident s [] = 0"
| "count_misses step resident s (r # rs) =
     (if r \<in> resident s then 0 else 1) + count_misses step resident (step s r) rs"

lemma count_misses_le_length: "count_misses step resident s rs \<le> length rs"
  by (induction rs arbitrary: s) (auto intro: le_SucI)

locale demand_policy =
  fixes W :: nat and init :: 's and step :: "'s \<Rightarrow> int \<Rightarrow> 's"
    and resident :: "'s \<Rightarrow> int set" and inv :: "'s \<Rightarrow> bool"
  assumes W_pos: "0 < W"
    and inv_init: "inv init"
    and inv_step: "inv s \<Longrightarrow> inv (step s r)"
    and resident_init: "resident init = {}"
    and resident_fin: "inv s \<Longrightarrow> finite (resident s)"
    and resident_card: "inv s \<Longrightarrow> card (resident s) \<le> W"
    and step_holds: "inv s \<Longrightarrow> r \<in> resident (step s r)"
    and step_loads: "inv s \<Longrightarrow> resident (step s r) \<subseteq> insert r (resident s)"
    and step_keeps: "inv s \<Longrightarrow> card (insert r (resident s)) \<le> W \<Longrightarrow>
      resident (step s r) = insert r (resident s)"
begin

fun trace :: "'s \<Rightarrow> int list \<Rightarrow> int set list" where
  "trace s [] = []"
| "trace s (r # rs) = resident (step s r) # trace (step s r) rs"

lemma trace_valid: "inv s \<Longrightarrow> valid_schedule W (resident s) rs (trace s rs)"
  by (induction rs arbitrary: s) (auto simp: inv_step resident_card step_holds dest: step_loads[THEN subsetD])

lemma trace_misses: "schedule_misses (resident s) rs (trace s rs) = count_misses step resident s rs"
  by (induction rs arbitrary: s) auto

lemma opt_le_misses: "opt_misses W {} rs \<le> count_misses step resident init rs"
  using opt_misses_le_schedule[OF trace_valid[OF inv_init, of rs]] trace_misses[of init rs]
    resident_init W_pos by simp

lemma misses_enough_banks:
  assumes "inv s" "card (resident s \<union> set rs) \<le> W"
  shows "count_misses step resident s rs = card (set rs - resident s)"
  using assms
proof (induction rs arbitrary: s)
  case (Cons r rs)
  have fin: "finite (resident s \<union> set (r # rs))" using resident_fin[OF Cons.prems(1)] by simp
  have "card (insert r (resident s)) \<le> W"
    by (rule order_trans[OF card_mono[OF fin] Cons.prems(2)]) auto
  then have eq: "resident (step s r) = insert r (resident s)"
    using step_keeps Cons.prems by blast
  have "count_misses step resident (step s r) rs = card (set rs - insert r (resident s))"
    using Cons.IH[of "step s r"] Cons.prems inv_step eq by simp
  moreover have "set (r # rs) - resident s
      = (if r \<in> resident s then {} else {r}) \<union> (set rs - insert r (resident s))" by auto
  ultimately show ?case by (auto simp: card_insert_if)
qed simp

end

lemma opt_misses_distinct: "finite S \<Longrightarrow> 0 < W \<Longrightarrow> card (set rs - S) \<le> opt_misses W S rs"
proof (induction rs arbitrary: S)
  case (Cons r rs)
  have step: "card (set (r # rs) - S) \<le> 1 + opt_misses W T rs"
    if "finite T" "T \<subseteq> insert r S" for T
  proof -
    have "set (r # rs) - S \<subseteq> insert r (set rs - T)" using that by auto
    then have "card (set (r # rs) - S) \<le> card (insert r (set rs - T))" by (intro card_mono) auto
    also have "\<dots> \<le> 1 + card (set rs - T)" by (simp add: card_insert_if)
    finally show ?thesis using Cons.IH[OF that(1) Cons.prems(2)] by linarith
  qed
  show ?case
  proof (cases "r \<in> S \<or> card S < W \<or> S = {}")
    case True
    then show ?thesis using Cons.IH[OF Cons.prems] Cons.prems(2) step[of "insert r S"] Cons.prems
      by (auto simp: insert_Diff_if insert_absorb)
  next
    case False
    then obtain v where "opt_misses W S (r # rs) = 1 + opt_misses W (insert r (S - {v})) rs"
      using opt_evict_ex[of S r W rs] Cons.prems by auto
    then show ?thesis using step[of "insert r (S - {v})"] Cons.prems by auto
  qed
qed simp

definition spaced :: "nat \<Rightarrow> int list \<Rightarrow> bool" where
  "spaced W refs \<longleftrightarrow> (\<forall>j < length refs. \<forall>i < j. j - i \<le> W \<longrightarrow> refs ! i \<noteq> refs ! j)"

definition last_refs :: "nat \<Rightarrow> int list \<Rightarrow> int list" where
  "last_refs W pre = drop (length pre - W) pre"

lemma last_refs_snoc:
  "last_refs W (pre @ [r])
   = (let b = last_refs W pre @ [r] in if W < length b then tl b else b)"
proof (cases "W \<le> length pre")
  case True
  then have "last_refs W (pre @ [r]) = drop 1 (drop (length pre - W) (pre @ [r]))"
    by (simp add: last_refs_def Suc_diff_le)
  also have "drop (length pre - W) (pre @ [r]) = last_refs W pre @ [r]"
    by (simp add: last_refs_def)
  finally have "last_refs W (pre @ [r]) = tl (last_refs W pre @ [r])"
    by (metis drop0 drop_Suc One_nat_def)
  moreover have "length (last_refs W pre) = W" using True by (simp add: last_refs_def)
  ultimately show ?thesis by (simp add: Let_def)
next
  case False
  then show ?thesis by (simp add: last_refs_def)
qed

lemma spaced_fresh:
  assumes "spaced W (pre @ r # rs)"
  shows "r \<notin> set (last_refs W pre)"
proof
  assume "r \<in> set (last_refs W pre)"
  then obtain k where k: "k < length (last_refs W pre)" "last_refs W pre ! k = r"
    by (metis in_set_conv_nth)
  let ?i = "length pre - W + k"
  have i: "?i < length pre" "pre ! ?i = r" using k by (auto simp: last_refs_def)
  have "(pre @ r # rs) ! ?i \<noteq> (pre @ r # rs) ! length pre"
    using assms i unfolding spaced_def by (auto simp del: nth_append_length)
  then show False using i by (simp add: nth_append)
qed

lemma spaced_cyclic:
  assumes "distinct p" "W < length p"
  shows "spaced W (concat (replicate b p))"
  unfolding spaced_def
proof (intro allI impI)
  fix i j assume j: "j < length (concat (replicate b p))" and ij: "i < j" "j - i \<le> W"
  let ?n = "length p"
  have "i mod ?n \<noteq> j mod ?n"
  proof
    assume "i mod ?n = j mod ?n"
    then have "?n dvd j - i" using ij by (metis less_imp_le mod_eq_dvd_iff_nat)
    then show False using ij assms by (auto dest: dvd_imp_le)
  qed
  moreover have "k mod ?n < ?n" for k using assms(2) by (intro mod_less_divisor) auto
  ultimately show "concat (replicate b p) ! i \<noteq> concat (replicate b p) ! j"
    using j ij assms by (simp add: nth_concat_replicate nth_eq_iff_index_eq)
qed

fun changes :: "int option \<Rightarrow> int list \<Rightarrow> nat" where
  "changes v [] = 0"
| "changes v (r # rs) = (if Some r = v then 0 else 1) + changes (Some r) rs"

lemma changes_spaced: "spaced 1 (y # xs) \<Longrightarrow> changes (Some y) xs = length xs"
proof (induction xs arbitrary: y)
  case (Cons x xs)
  have "x \<noteq> y" using Cons.prems[unfolded spaced_def, rule_format, of 1 0] by simp
  moreover have "spaced 1 (x # xs)"
    unfolding spaced_def
  proof (intro allI impI)
    fix j i assume "j < length (x # xs)" "i < j" "j - i \<le> 1"
    then show "(x # xs) ! i \<noteq> (x # xs) ! j"
      using Cons.prems[unfolded spaced_def, rule_format, of "Suc j" "Suc i"] by simp
  qed
  ultimately show ?case using Cons.IH by simp
qed simp

lemma changes_cyclic:
  assumes "distinct q" "length q \<noteq> 1"
  shows "changes None (concat (replicate b q)) = b * length q"
proof (cases "concat (replicate b q)")
  case (Cons y xs)
  then have "1 < length q" using assms by (cases q) auto
  then have "changes (Some y) xs = length xs"
    using changes_spaced spaced_cyclic[OF assms(1), of 1 b] Cons by simp
  moreover have "Suc (length xs) = b * length q"
    using arg_cong[OF Cons, of length] by simp
  ultimately show ?thesis using Cons by simp
qed (use arg_cong[of _ _ length] in fastforce)

lemma keep_valid:
  assumes "2 \<le> W" "x \<in> S"
  shows "valid_schedule W S rs (map (\<lambda>r. {x, r}) rs)"
  using assms(2)
proof (induction rs arbitrary: S)
  case (Cons r rs)
  have "card {x, r} \<le> 2" by (simp add: card_insert_if)
  then show ?case using Cons assms(1) by auto
qed simp

lemma keep_misses:
  "x \<in> S \<Longrightarrow> schedule_misses S rs (map (\<lambda>r. {x, r}) rs) + count_list rs x \<le> length rs"
proof (induction rs arbitrary: S)
  case (Cons r rs)
  have "schedule_misses {x, r} rs (map (\<lambda>r. {x, r}) rs) + count_list rs x \<le> length rs"
    by (rule Cons.IH) simp
  then show ?case using Cons.prems by auto
qed simp

lemma opt_keep_one:
  assumes "2 \<le> W"
  shows "opt_misses W {} (x # rs) + count_list rs x \<le> 1 + length rs"
proof -
  have "opt_misses W {x} rs \<le> schedule_misses {x} rs (map (\<lambda>r. {x, r}) rs)"
    using assms by (intro opt_misses_le_schedule keep_valid) auto
  then show ?thesis using keep_misses[of x "{x}" rs] assms by simp
qed

end
