(* ===== verification/Bank_Policy.thy ===== *)
theory Bank_Policy
  imports Tw_Sweep Demand_Paging "HOL-Library.Product_Lexorder"
begin

text \<open>
  The weight-bank replacement model of \<^verbatim>\<open>docs/designs/pta_bank_policy.py\<close>: the reference stream
  of the 784-100-10 network on an \<open>R\<close> by \<open>C\<close> tile, and the miss counts of the four
  replacement policies (LRU, FIFO, Belady's MIN, and pinning the smallest layer).  The lemmas
  give the stream's closed form, exact miss counts on it, and the optimality of MIN among all
  schedules that keep the referenced set resident, through the locale \<open>demand_policy\<close>.
\<close>

section \<open>The reference stream\<close>

definition LAYERS :: "(string \<times> int \<times> int) list" where
  "LAYERS = [(''fc1'', 784, 100), (''fc2'', 100, 10)]"

text \<open>The \<open>(kr, nc)\<close> weight sets one layer needs.\<close>

definition layer_sets :: "int \<Rightarrow> int \<Rightarrow> int \<Rightarrow> int \<Rightarrow> int" where
  "layer_sets kin nout R C = ceil_div kin R * ceil_div nout C"

text \<open>The loop that fills \<open>bases\<close>: a layer's first set id, global across layers.\<close>

fun bases_from :: "int \<Rightarrow> int \<Rightarrow> int \<Rightarrow> (string \<times> int \<times> int) list \<Rightarrow> int list" where
  "bases_from R C base [] = []"
| "bases_from R C base ((nm, kin, nout) # ls) =
     base # bases_from R C (base + layer_sets kin nout R C) ls"

definition BATCH :: int where
  "BATCH = 8"

definition stream :: "int \<Rightarrow> int \<Rightarrow> int \<Rightarrow> int list" where
  "stream R C batch =
     (let bases = bases_from R C 0 LAYERS in
      concat (map (\<lambda>_.
        concat (map (\<lambda>(li, nm, kin, nout).
          concat (map (\<lambda>nc.
            map (\<lambda>kr. bases ! li + nc * ceil_div kin R + kr) (py_range (ceil_div kin R)))
            (py_range (ceil_div nout C))))
          (List.enumerate 0 LAYERS)))
        (py_range batch)))"

fun stream_batched_from ::
  "int \<Rightarrow> int \<Rightarrow> int \<Rightarrow> (string \<times> int \<times> int) list \<Rightarrow> int list" where
  "stream_batched_from R C base [] = []"
| "stream_batched_from R C base ((nm, kin, nout) # ls) =
     concat (map (\<lambda>nc.
       map (\<lambda>kr. base + nc * ceil_div kin R + kr) (py_range (ceil_div kin R)))
       (py_range (ceil_div nout C)))
     @ stream_batched_from R C (base + layer_sets kin nout R C) ls"

definition stream_batched :: "int \<Rightarrow> int \<Rightarrow> int list" where
  "stream_batched R C = stream_batched_from R C 0 LAYERS"

text \<open>\<open>total_sets\<close> of \<open>main\<close> and \<open>total\<close> of \<open>checks\<close>.\<close>

definition total_sets :: "int \<Rightarrow> int \<Rightarrow> int" where
  "total_sets R C = sum_list (map (\<lambda>(nm, kin, nout). layer_sets kin nout R C) LAYERS)"

section \<open>The policies\<close>

text \<open>Least recently used first; a miss appends and drops the head past \<open>W\<close> banks.\<close>

definition lru_step :: "nat \<Rightarrow> int list \<Rightarrow> int \<Rightarrow> int list" where
  "lru_step W banks r =
     (if r \<in> set banks then remove1 r banks @ [r]
      else (let banks' = banks @ [r] in if W < length banks' then tl banks' else banks'))"

fun misses_lru_loop :: "nat \<Rightarrow> int list \<Rightarrow> nat \<Rightarrow> int list \<Rightarrow> nat" where
  "misses_lru_loop W banks m [] = m"
| "misses_lru_loop W banks m (r # rs) =
     misses_lru_loop W (lru_step W banks r) (if r \<in> set banks then m else m + 1) rs"

definition misses_lru :: "int list \<Rightarrow> nat \<Rightarrow> nat" where
  "misses_lru refs W = misses_lru_loop W [] 0 refs"

text \<open>First in, first out: the queue \<open>banks\<close> and the set \<open>held\<close> the code tests.\<close>

definition fifo_step :: "nat \<Rightarrow> int list \<times> int set \<Rightarrow> int \<Rightarrow> int list \<times> int set" where
  "fifo_step W s r =
     (case s of (banks, held) \<Rightarrow>
        if r \<in> held then (banks, held)
        else (let banks' = banks @ [r]; held' = insert r held in
              if W < length banks' then (tl banks', held' - {hd banks'}) else (banks', held')))"

fun misses_fifo_loop :: "nat \<Rightarrow> int list \<times> int set \<Rightarrow> nat \<Rightarrow> int list \<Rightarrow> nat" where
  "misses_fifo_loop W s m [] = m"
| "misses_fifo_loop W s m (r # rs) =
     misses_fifo_loop W (fifo_step W s r) (if r \<in> snd s then m else m + 1) rs"

definition misses_fifo :: "int list \<Rightarrow> nat \<Rightarrow> nat" where
  "misses_fifo refs W = misses_fifo_loop W ([], {}) 0 refs"

text \<open>Belady's MIN.  \<open>nxt\<close> holds each id's positions in order and \<open>pos\<close> how many of them are
  behind; \<open>next_use\<close> is infinity past the last.  \<open>max(held, key=next_use)\<close> takes the first
  maximal element in the set's iteration order, which the language leaves open: \<open>ord\<close> is that
  order.  An empty \<open>held\<close> makes \<open>max\<close> raise, the outcome \<open>Inl ValueError\<close>.\<close>

definition positions :: "int list \<Rightarrow> int \<Rightarrow> nat list" where
  "positions refs x = filter (\<lambda>i. refs ! i = x) [0..<length refs]"

definition next_use :: "(int \<Rightarrow> nat list) \<Rightarrow> (int \<Rightarrow> nat) \<Rightarrow> int \<Rightarrow> enat" where
  "next_use nxt pos x =
     (if pos x < length (nxt x) then enat (nxt x ! pos x) else \<infinity>)"

fun misses_min_loop ::
  "(int set \<Rightarrow> int list) \<Rightarrow> (int \<Rightarrow> nat list) \<Rightarrow> nat \<Rightarrow> nat \<Rightarrow> (int \<Rightarrow> nat) \<Rightarrow> int set \<Rightarrow> nat
    \<Rightarrow> int list \<Rightarrow> py_error + nat" where
  "misses_min_loop ord nxt W i pos held m [] = Inr m"
| "misses_min_loop ord nxt W i pos held m (r # rs) =
     (let pos' = pos(r := pos r + 1) in
      if r \<in> held then misses_min_loop ord nxt W (i + 1) pos' held m rs
      else if card held < W then misses_min_loop ord nxt W (i + 1) pos' (insert r held) (m + 1) rs
      else case py_max_by (next_use nxt pos') (ord held) of
             None \<Rightarrow> Inl ValueError
           | Some victim \<Rightarrow>
               (if enat i < next_use nxt pos' victim
                then misses_min_loop ord nxt W (i + 1) pos' (insert r (held - {victim})) (m + 1) rs
                else misses_min_loop ord nxt W (i + 1) pos' held (m + 1) rs))"

definition misses_min :: "(int set \<Rightarrow> int list) \<Rightarrow> int list \<Rightarrow> nat \<Rightarrow> py_error + nat" where
  "misses_min ord refs W = misses_min_loop ord (positions refs) W 0 (\<lambda>_. 0) {} 0 refs"

text \<open>Pinning: whole layers, smallest first while the budget lasts, and one victim slot.  The
  list \<open>sizes\<close> is sorted as Python sorts pairs, by size and then by layer.\<close>

fun pin_layers ::
  "int list \<Rightarrow> int \<Rightarrow> int set \<Rightarrow> (int \<times> nat) list \<Rightarrow> int set" where
  "pin_layers bases budget pinned [] = pinned"
| "pin_layers bases budget pinned ((n, li) # ss) =
     (if n \<le> budget
      then pin_layers bases (budget - n) (pinned \<union> {bases ! li..<bases ! li + n}) ss
      else pin_layers bases budget pinned ss)"

definition layer_sizes :: "int \<Rightarrow> int \<Rightarrow> (int \<times> nat) list" where
  "layer_sizes R C =
     sort (map (\<lambda>(i, nm, kin, nout). (layer_sets kin nout R C, i)) (List.enumerate 0 LAYERS))"

definition pinned_sets :: "nat \<Rightarrow> int \<Rightarrow> int \<Rightarrow> int set" where
  "pinned_sets W R C = pin_layers (bases_from R C 0 LAYERS) (int W) {} (layer_sizes R C)"

fun misses_pin_loop ::
  "int set \<Rightarrow> int set \<Rightarrow> int option \<Rightarrow> nat \<Rightarrow> int list \<Rightarrow> nat" where
  "misses_pin_loop pinned seen_pinned victim m [] = m"
| "misses_pin_loop pinned seen_pinned victim m (r # rs) =
     (if r \<in> pinned
      then if r \<in> seen_pinned then misses_pin_loop pinned seen_pinned victim m rs
           else misses_pin_loop pinned (insert r seen_pinned) victim (m + 1) rs
      else if Some r = victim then misses_pin_loop pinned seen_pinned victim m rs
      else misses_pin_loop pinned seen_pinned (Some r) (m + 1) rs)"

definition misses_pin_smallest :: "int list \<Rightarrow> nat \<Rightarrow> int \<Rightarrow> int \<Rightarrow> nat" where
  "misses_pin_smallest refs W R C = misses_pin_loop (pinned_sets W R C) {} None 0 refs"

section \<open>What it is worth in cycles\<close>

text \<open>\<open>wc\<close>, \<open>serial_w\<close> and \<open>batch_w\<close>: a miss pays the scan and the settle, a hit the select.\<close>

definition weight_cycles :: "int list \<Rightarrow> nat \<Rightarrow> int \<Rightarrow> int \<Rightarrow> int \<Rightarrow> int" where
  "weight_cycles refs miss settle R C =
     int miss * (R * C + settle) + (int (length refs) - int miss) * MB_TW"

definition shot_cycles_of :: "int list \<Rightarrow> int \<Rightarrow> int" where
  "shot_cycles_of refs pta_ts = int (length refs) * (pta_ts + SHOT_FLOOR)"

section \<open>The asserts of \<open>checks\<close>\<close>

definition small_layer :: "int \<Rightarrow> int \<Rightarrow> int" where
  "small_layer R C = Min (set (map (\<lambda>(nm, kin, nout). layer_sets kin nout R C) LAYERS))"

definition bank_checks :: "(int set \<Rightarrow> int list) \<Rightarrow> py_error + unit" where
  "bank_checks ord =
     (let R = 8; C = 8;
          refs = stream R C BATCH;
          total = total_sets R C;
          one = stream R C 1;
          small = small_layer R C;
          batched = stream_batched R C
      in assert_all
        (concat (map (\<lambda>W.
            [Inr (misses_lru one W = length one), Inr (misses_fifo one W = length one),
             map_sum id (\<lambda>m. m = length one) (misses_min ord one W)]) [2, 8, 32])
         @ map (\<lambda>W. Inr (misses_lru refs W = length refs)) [2, 8, 32, 128]
         @ map (\<lambda>W. map_sum id (\<lambda>m. m < misses_lru refs W) (misses_min ord refs W)) [2, 8, 32, 128]
         @ [Inr (small = 26)]
         @ map (\<lambda>W. Inr (misses_pin_smallest refs W R C = misses_lru refs W)) [2, 8, nat (small - 1)]
         @ map (\<lambda>W. Inr (misses_pin_smallest refs W R C < misses_lru refs W)) [nat small, 32, 128]
         @ [map_sum id (\<lambda>m. int m = total) (misses_min ord refs (nat total))]
         @ [Inr (int (length refs) = BATCH * int (length batched))]
         @ map (\<lambda>W. Inr (int (misses_lru batched W) * BATCH = int (misses_lru refs W))) [2, 8, 32]
         @ [Inr (MB_TW = 1 \<and> SHOT_FLOOR = 2)]))"

text \<open>The bookkeeping of \<open>misses_min\<close> computes the distance to the next use.\<close>

lemma positions_append:
  "positions (xs @ ys) x = positions xs x @ map (\<lambda>i. length xs + i) (positions ys x)"
proof -
  have "[0..<length (xs @ ys)] = [0..<length xs] @ map (\<lambda>i. length xs + i) [0..<length ys]"
    by (rule nth_equalityI) (auto simp: nth_append)
  then have "positions (xs @ ys) x
      = filter (\<lambda>i. (xs @ ys) ! i = x) [0..<length xs]
        @ filter (\<lambda>i. (xs @ ys) ! i = x) (map (\<lambda>i. length xs + i) [0..<length ys])"
    unfolding positions_def by (simp only: filter_append)
  also have "filter (\<lambda>i. (xs @ ys) ! i = x) [0..<length xs] = positions xs x"
    unfolding positions_def by (rule filter_cong) (auto simp: nth_append)
  also have "filter (\<lambda>i. (xs @ ys) ! i = x) (map (\<lambda>i. length xs + i) [0..<length ys])
      = map (\<lambda>i. length xs + i) (positions ys x)"
    unfolding positions_def by (simp add: filter_map o_def)
  finally show ?thesis .
qed

lemma positions_Cons:
  "positions (r # rs) x = (if r = x then [0] else []) @ map Suc (positions rs x)"
  using positions_append[of "[r]" rs x] by (simp add: positions_def)

lemma length_positions: "length (positions xs x) = count_list xs x"
  by (induction xs) (auto simp: positions_Cons, simp add: positions_def)

lemma first_use_positions:
  "first_use x rs = (case positions rs x of [] \<Rightarrow> \<infinity> | p # ps \<Rightarrow> enat p)"
  by (induction rs)
    (auto simp: positions_Cons eSuc_enat zero_enat_def split: list.splits, simp add: positions_def)

lemma next_use_first_use:
  assumes "\<And>x. pos x = count_list pre x"
  shows "next_use (positions (pre @ rs)) pos x = enat (length pre) + first_use x rs"
proof (cases "positions rs x")
  case Nil
  then show ?thesis
    by (simp add: next_use_def assms positions_append length_positions first_use_positions)
next
  case (Cons p ps)
  then show ?thesis
    by (simp add: next_use_def assms positions_append length_positions first_use_positions nth_append)
qed

text \<open>What the code relies on of Python's \<open>set\<close> iteration: it visits the set's elements.\<close>

locale set_iteration =
  fixes ord :: "int set \<Rightarrow> int list"
  assumes set_ord: "finite S \<Longrightarrow> set (ord S) = S"
begin

lemma misses_min_loop_opt:
  assumes "\<And>x. pos x = count_list pre x" "finite held" "card held \<le> W" "0 < W"
  shows "misses_min_loop ord (positions (pre @ rs)) W (length pre) pos held m rs
       = Inr (m + opt_misses W held rs)"
  using assms
proof (induction rs arbitrary: pre pos held m)
  case (Cons r rs)
  define pos' where "pos' = pos(r := Suc (pos r))"
  have pos: "pos' x = count_list (pre @ [r]) x" for x
    using Cons.prems(1) by (simp add: count_list_snoc pos'_def)
  have IH: "misses_min_loop ord (positions (pre @ r # rs)) W (length pre + 1) pos' h n rs
      = Inr (n + opt_misses W h rs)" if "finite h" "card h \<le> W" for h n
    using Cons.IH[of pos' "pre @ [r]" h n, OF pos that Cons.prems(4)] by simp
  have nu: "next_use (positions (pre @ r # rs)) pos' x = enat (length pre + 1) + first_use x rs" for x
    using next_use_first_use[of pos' "pre @ [r]" rs x, OF pos] by simp
  consider "r \<in> held" | "r \<notin> held" "card held < W" | (full) "r \<notin> held" "card held = W"
    using Cons.prems by linarith
  then show ?case
  proof cases
    case full
    then have "held \<noteq> {}" using Cons.prems by auto
    then obtain v where v: "py_max_by (next_use (positions (pre @ r # rs)) pos') (ord held) = Some v"
      using set_ord[OF Cons.prems(2)] by (metis option.exhaust py_max_by_None empty_set)
    have vin: "v \<in> held" and far: "\<And>z. z \<in> held \<Longrightarrow> first_use z rs \<le> first_use v rs"
      using py_max_by_Some[OF v] set_ord[OF Cons.prems(2)] nu by auto
    have "enat (length pre) < next_use (positions (pre @ r # rs)) pos' v"
      unfolding nu by (cases "first_use v rs") auto
    then show ?thesis
      using full v vin Cons.prems(2-) IH[of "insert r (held - {v})" "m + 1"]
        opt_evict_farthest[OF Cons.prems(2) full(1,2) vin far]
      by (simp add: Let_def pos'_def[symmetric] del: opt_misses.simps)
  qed (use IH[of held m] IH[of "insert r held" "m + 1"] Cons.prems(2-) in
      \<open>auto simp: Let_def pos'_def[symmetric]\<close>)
qed simp

lemma misses_min_opt: "0 < W \<Longrightarrow> misses_min ord refs W = Inr (opt_misses W {} refs)"
  using misses_min_loop_opt[of "\<lambda>_. 0" "[]" "{}" W refs 0] by (simp add: misses_min_def)

end

interpretation py_sorted: set_iteration sorted_list_of_set
  by unfold_locales simp

section \<open>LRU and FIFO as demand policies\<close>

lemma misses_lru_loop_count:
  "misses_lru_loop W banks m refs = m + count_misses (lru_step W) set banks refs"
  by (induction refs arbitrary: banks m) auto

lemma misses_lru_count: "misses_lru refs W = count_misses (lru_step W) set [] refs"
  by (simp add: misses_lru_def misses_lru_loop_count)

lemma misses_fifo_loop_count:
  "misses_fifo_loop W s m refs = m + count_misses (fifo_step W) snd s refs"
  by (induction refs arbitrary: s m) auto

lemma misses_fifo_count: "misses_fifo refs W = count_misses (fifo_step W) snd ([], {}) refs"
  by (simp add: misses_fifo_def misses_fifo_loop_count)

definition lru_inv :: "nat \<Rightarrow> int list \<Rightarrow> bool" where
  "lru_inv W banks \<longleftrightarrow> distinct banks \<and> length banks \<le> W"

definition fifo_inv :: "nat \<Rightarrow> int list \<times> int set \<Rightarrow> bool" where
  "fifo_inv W s \<longleftrightarrow> distinct (fst s) \<and> length (fst s) \<le> W \<and> snd s = set (fst s)"

lemma lru_policy:
  assumes "0 < W"
  shows "demand_policy W [] (lru_step W) set (lru_inv W)"
proof
  fix banks r assume inv: "lru_inv W banks"
  then have d: "distinct banks" and l: "length banks \<le> W" by (auto simp: lru_inv_def)
  show "lru_inv W (lru_step W banks r)"
  proof (cases "r \<in> set banks")
    case True
    then have "0 < length banks" by (auto simp: length_pos_if_in_set)
    then show ?thesis using True d l by (simp add: lru_inv_def lru_step_def length_remove1)
  next
    case False
    then show ?thesis using d l distinct_tl[of "banks @ [r]"]
      by (auto simp: lru_inv_def lru_step_def Let_def)
  qed
  show "r \<in> set (lru_step W banks r)"
    using assms by (cases banks) (auto simp: lru_step_def Let_def)
  show "set (lru_step W banks r) \<subseteq> insert r (set banks)"
    by (cases banks) (auto simp: lru_step_def Let_def dest: in_set_remove1[THEN iffD1, rotated] notin_set_remove1 split: if_splits)
  show "finite (set banks)" "card (set banks) \<le> W" using d l by (auto simp: distinct_card)
  show "set (lru_step W banks r) = insert r (set banks)" if "card (insert r (set banks)) \<le> W"
    using that d by (auto simp: lru_step_def Let_def distinct_card card_insert_if)
qed (use assms in \<open>auto simp: lru_inv_def\<close>)

lemma fifo_policy:
  assumes "0 < W"
  shows "demand_policy W ([], {}) (fifo_step W) snd (fifo_inv W)"
proof
  fix s :: "int list \<times> int set" and r
  assume inv: "fifo_inv W s"
  obtain banks where s: "s = (banks, set banks)" and d: "distinct banks" and l: "length banks \<le> W"
    using inv by (cases s) (auto simp: fifo_inv_def)
  show "fifo_inv W (fifo_step W s r)"
    using d l by (cases banks) (auto simp: s fifo_inv_def fifo_step_def Let_def)
  show "r \<in> snd (fifo_step W s r)"
    using assms by (cases banks) (auto simp: s fifo_step_def Let_def)
  show "snd (fifo_step W s r) \<subseteq> insert r (snd s)"
    by (auto simp: s fifo_step_def Let_def split: if_splits)
  show "finite (snd s)" "card (snd s) \<le> W" using d l by (auto simp: s distinct_card)
  show "snd (fifo_step W s r) = insert r (snd s)" if "card (insert r (snd s)) \<le> W"
    using that d by (auto simp: s fifo_step_def Let_def distinct_card card_insert_if)
qed (use assms in \<open>auto simp: fifo_inv_def\<close>)

interpretation lru: demand_policy "Suc w" "[]" "lru_step (Suc w)" set "lru_inv (Suc w)" for w
  by (rule lru_policy) simp

interpretation fifo: demand_policy "Suc w" "([], {})" "fifo_step (Suc w)" snd "fifo_inv (Suc w)" for w
  by (rule fifo_policy) simp

lemma opt_le_lru: "0 < W \<Longrightarrow> opt_misses W {} refs \<le> misses_lru refs W"
  using lru.opt_le_misses[of "W - 1" refs] by (simp add: misses_lru_count)

lemma opt_le_fifo: "0 < W \<Longrightarrow> opt_misses W {} refs \<le> misses_fifo refs W"
  using fifo.opt_le_misses[of "W - 1" refs] by (simp add: misses_fifo_count)

lemma lru_enough_banks: "0 < W \<Longrightarrow> card (set refs) \<le> W \<Longrightarrow> misses_lru refs W = card (set refs)"
  using lru.misses_enough_banks[of "W - 1" "[]" refs] by (simp add: misses_lru_count lru_inv_def)

lemma fifo_enough_banks: "0 < W \<Longrightarrow> card (set refs) \<le> W \<Longrightarrow> misses_fifo refs W = card (set refs)"
  using fifo.misses_enough_banks[of "W - 1" "([], {})" refs]
  by (simp add: misses_fifo_count fifo_inv_def)

lemma opt_enough_banks:
  "0 < W \<Longrightarrow> card (set refs) \<le> W \<Longrightarrow> opt_misses W {} refs = card (set refs)"
  using opt_misses_distinct[of "{}" W refs] opt_le_lru[of W refs] lru_enough_banks[of W refs] by simp

section \<open>References spaced more than \<open>W\<close> apart\<close>

lemma lru_spaced:
  assumes "spaced W (pre @ rs)"
  shows "count_misses (lru_step W) set (last_refs W pre) rs = length rs"
  using assms
proof (induction rs arbitrary: pre)
  case (Cons r rs)
  have f: "r \<notin> set (last_refs W pre)" using spaced_fresh Cons.prems by blast
  then have "lru_step W (last_refs W pre) r = last_refs W (pre @ [r])"
    by (simp add: lru_step_def last_refs_snoc)
  then show ?case using f Cons.IH[of "pre @ [r]"] Cons.prems by simp
qed simp

lemma fifo_spaced:
  assumes "spaced W (pre @ rs)" "distinct (last_refs W pre)"
  shows "count_misses (fifo_step W) snd (last_refs W pre, set (last_refs W pre)) rs = length rs"
  using assms
proof (induction rs arbitrary: pre)
  case (Cons r rs)
  have f: "r \<notin> set (last_refs W pre)" using spaced_fresh Cons.prems by blast
  then have d: "distinct (last_refs W pre @ [r])" using Cons.prems by simp
  then have d': "distinct (last_refs W (pre @ [r]))"
    using distinct_tl[OF d] by (simp add: last_refs_snoc Let_def)
  have "fifo_step W (last_refs W pre, set (last_refs W pre)) r
      = (last_refs W (pre @ [r]), set (last_refs W (pre @ [r])))"
    using f set_tl_distinct[OF d] by (simp add: fifo_step_def last_refs_snoc Let_def)
  then show ?case using f d' Cons.IH[of "pre @ [r]"] Cons.prems by simp
qed simp

lemma lru_no_hits: "spaced W refs \<Longrightarrow> misses_lru refs W = length refs"
  using lru_spaced[of W "[]" refs] by (simp add: misses_lru_count last_refs_def)

lemma fifo_no_hits: "spaced W refs \<Longrightarrow> misses_fifo refs W = length refs"
  using fifo_spaced[of W "[]" refs] by (simp add: misses_fifo_count last_refs_def)

section \<open>The stream's closed form\<close>

lemma concat_rows:
  assumes "0 \<le> K"
  shows "concat (map (\<lambda>nc. map (\<lambda>kr. base + nc * K + kr) (py_range K)) (py_range (int n)))
       = map (\<lambda>i. base + i) (py_range (K * int n))"
proof (induction n)
  case (Suc n)
  have "py_range (int (Suc n)) = py_range (int n) @ [int n]"
    using py_range_Suc[of "int n"] by (simp add: add.commute)
  then have "concat (map (\<lambda>nc. map (\<lambda>kr. base + nc * K + kr) (py_range K)) (py_range (int (Suc n))))
      = map (\<lambda>i. base + i) (py_range (K * int n)) @ map (\<lambda>kr. base + int n * K + kr) (py_range K)"
    using Suc.IH by simp
  also have "\<dots> = map (\<lambda>i. base + i) (py_range (K * int (Suc n)))"
  proof -
    have "nat (K * int (Suc n)) = nat (K * int n) + nat K"
      using assms by (simp add: nat_add_distrib algebra_simps)
    then have "py_range (K * int (Suc n)) = py_range (K * int n) @ map (\<lambda>i. K * int n + i) (py_range K)"
      using assms by (intro nth_equalityI)
        (auto simp: py_range_def nth_append simp del: of_nat_Suc)
    then show ?thesis by (simp add: algebra_simps del: of_nat_Suc)
  qed
  finally show ?case .
qed simp

lemma concat_rows_int:
  assumes "0 \<le> K" "0 \<le> N"
  shows "concat (map (\<lambda>nc. map (\<lambda>kr. base + nc * K + kr) (py_range K)) (py_range N))
       = map (\<lambda>i. base + i) (py_range (K * N))"
  using concat_rows[OF assms(1), of base "nat N"] assms by simp

lemma layer_sets_pos: "0 < R \<Longrightarrow> 0 < C \<Longrightarrow> 0 < kin \<Longrightarrow> 0 < nout \<Longrightarrow> 0 < layer_sets kin nout R C"
  by (simp add: layer_sets_def ceil_div_pos)

lemma total_sets_eq: "total_sets R C = layer_sets 784 100 R C + layer_sets 100 10 R C"
  by (simp add: total_sets_def LAYERS_def)

lemma total_sets_ge2: "0 < R \<Longrightarrow> 0 < C \<Longrightarrow> 2 \<le> total_sets R C"
  using layer_sets_pos[of R C 784 100] layer_sets_pos[of R C 100 10] by (simp add: total_sets_eq)

lemma stream_batched_range:
  assumes "0 < R" "0 < C"
  shows "stream_batched R C = py_range (total_sets R C)"
proof -
  have nn: "0 \<le> ceil_div 784 R" "0 \<le> ceil_div 100 C" "0 \<le> ceil_div 100 R" "0 \<le> ceil_div 10 C"
    using assms by (auto intro: ceil_div_nonneg)
  have "stream_batched R C
      = py_range (layer_sets 784 100 R C)
        @ map (\<lambda>i. layer_sets 784 100 R C + i) (py_range (layer_sets 100 10 R C))"
    using concat_rows_int[OF nn(1,2), of 0] concat_rows_int[OF nn(3,4), of "layer_sets 784 100 R C"]
    by (simp add: stream_batched_def LAYERS_def layer_sets_def)
  also have "\<dots> = py_range (total_sets R C)"
    using py_range_append layer_sets_pos[OF assms] by (simp add: total_sets_eq less_imp_le)
  finally show ?thesis .
qed

lemma stream_replicate: "stream R C b = concat (replicate (nat b) (stream_batched R C))"
proof -
  have "stream R C b = concat (map (\<lambda>_. stream_batched R C) (py_range b))"
    unfolding stream_def stream_batched_def by (simp add: LAYERS_def Let_def)
  then show ?thesis by (simp add: concat_map_const)
qed

lemma length_stream_batched:
  "0 < R \<Longrightarrow> 0 < C \<Longrightarrow> length (stream_batched R C) = nat (total_sets R C)"
  by (simp add: stream_batched_range)

lemma set_stream:
  "0 < R \<Longrightarrow> 0 < C \<Longrightarrow> 0 < b \<Longrightarrow> set (stream R C b) = {0..<total_sets R C}"
  by (auto simp: stream_replicate stream_batched_range)

lemma stream_spaced:
  assumes "0 < R" "0 < C" "int W < total_sets R C"
  shows "spaced W (stream R C b)"
  using assms spaced_cyclic[of "stream_batched R C" W "nat b"]
  by (auto simp: stream_replicate stream_batched_range)

section \<open>Pinning\<close>

lemma misses_pin_loop_split:
  "misses_pin_loop P seen v m rs
   = m + card (set rs \<inter> P - seen) + changes v (filter (\<lambda>r. r \<notin> P) rs)"
proof (induction rs arbitrary: seen v m)
  case (Cons r rs)
  have "set (r # rs) \<inter> P - seen
      = (if r \<in> P - seen then {r} else {}) \<union> (set rs \<inter> P - insert r seen)" if "r \<in> P"
    using that by auto
  then have "card (set (r # rs) \<inter> P - seen)
      = (if r \<in> P - seen then 1 else 0) + card (set rs \<inter> P - insert r seen)" if "r \<in> P"
    using that by (auto simp: card_insert_if)
  then show ?case using Cons.IH by (auto simp: insert_absorb)
qed simp

lemma pinned_sets_cases:
  assumes "0 < R" "0 < C"
  shows "pinned_sets W R C \<in>
    {{}, {0..<layer_sets 784 100 R C}, {layer_sets 784 100 R C..<total_sets R C}, {0..<total_sets R C}}"
  using layer_sets_pos[OF assms, of 784 100] layer_sets_pos[OF assms, of 100 10]
  by (auto simp: pinned_sets_def layer_sizes_def LAYERS_def total_sets_eq)

lemma pinned_sets_subset: "0 < R \<Longrightarrow> 0 < C \<Longrightarrow> pinned_sets W R C \<subseteq> {0..<total_sets R C}"
  using pinned_sets_cases[of R C W] layer_sets_pos[of R C 784 100] layer_sets_pos[of R C 100 10]
  by (auto simp: total_sets_eq)

lemma pin_misses_stream:
  assumes "0 < R" "0 < C" "0 < b" "card ({0..<total_sets R C} - pinned_sets W R C) \<noteq> 1"
  shows "misses_pin_smallest (stream R C b) W R C
       = card (pinned_sets W R C) + nat b * card ({0..<total_sets R C} - pinned_sets W R C)"
proof -
  let ?P = "pinned_sets W R C" and ?q = "filter (\<lambda>r. r \<notin> pinned_sets W R C) (stream_batched R C)"
  have q: "distinct ?q" "set ?q = {0..<total_sets R C} - ?P"
    using assms by (auto simp: stream_batched_range)
  then have len: "length ?q = card ({0..<total_sets R C} - ?P)" by (metis distinct_card)
  have "filter (\<lambda>r. r \<notin> ?P) (stream R C b) = concat (replicate (nat b) ?q)"
    by (simp add: stream_replicate filter_concat map_replicate)
  moreover have "set (stream R C b) \<inter> ?P = ?P"
    using pinned_sets_subset[OF assms(1,2), of W] set_stream[OF assms(1-3)] by auto
  ultimately show ?thesis
    using changes_cyclic[OF q(1), of "nat b"] len assms(4)
    by (simp add: misses_pin_smallest_def misses_pin_loop_split)
qed

section \<open>The 8 by 8 tile\<close>

lemma opt_misses_le_length: "0 < W \<Longrightarrow> opt_misses W {} refs \<le> length refs"
  using opt_le_lru[of W refs] count_misses_le_length[of "lru_step W" set "[]" refs]
  by (simp add: misses_lru_count)

lemma min_stream_reuses:
  assumes "2 \<le> W" "0 < R" "0 < C" "1 < b"
  shows "opt_misses W {} (stream R C b) < length (stream R C b)"
proof -
  have "py_range (total_sets R C) = 0 # map int [1..<nat (total_sets R C)]"
    using total_sets_ge2[OF assms(2,3)] by (simp add: py_range_def upt_rec)
  then obtain q where q: "stream_batched R C = 0 # q"
    using stream_batched_range[OF assms(2,3)] by auto
  define n where "n = nat b - 2"
  have n: "nat b = Suc (Suc n)"
    using assms(4) by (simp add: n_def)
  let ?rest = "q @ (0 # q) @ concat (replicate n (0 # q))"
  have st: "stream R C b = 0 # ?rest" using stream_replicate[of R C b] n q by simp
  have "0 < count_list ?rest 0" by simp
  then show ?thesis using opt_keep_one[OF assms(1), of 0 ?rest] st by simp
qed

lemma tile8: "total_sets 8 8 = 1300" "small_layer 8 8 = 26"
  by code_simp+

lemma tile8_pinned:
  "W < 26 \<Longrightarrow> pinned_sets W 8 8 = {}"
  "26 \<le> W \<Longrightarrow> W < 1300 \<Longrightarrow> pinned_sets W 8 8 = {1274..<1300}"
  by (auto simp: pinned_sets_def layer_sizes_def LAYERS_def layer_sets_def ceil_div_def)

lemma tile8_length: "length (stream 8 8 b) = nat b * 1300"
  by (simp add: stream_replicate stream_batched_range tile8)

lemma tile8_lru: "W < 1300 \<Longrightarrow> misses_lru (stream 8 8 b) W = nat b * 1300"
  using lru_no_hits[OF stream_spaced[of 8 8 W b]] by (simp add: tile8 tile8_length)

lemma tile8_fifo: "W < 1300 \<Longrightarrow> misses_fifo (stream 8 8 b) W = nat b * 1300"
  using fifo_no_hits[OF stream_spaced[of 8 8 W b]] by (simp add: tile8 tile8_length)

lemma tile8_pin:
  assumes "0 < b" "W < 1300"
  shows "misses_pin_smallest (stream 8 8 b) W 8 8
       = (if W < 26 then nat b * 1300 else 26 + nat b * 1274)"
proof -
  have "{0..<1300} - {1274..<1300} = {0..<1274::int}" by auto
  then show ?thesis using assms pin_misses_stream[of 8 8 b W] tile8_pinned[of W]
    by (auto simp: tile8)
qed

lemma tile8_one: "0 < W \<Longrightarrow> opt_misses W {} (stream 8 8 1) = 1300"
  using opt_misses_le_length[of W "stream 8 8 1"] opt_misses_distinct[of "{}" W "stream 8 8 1"]
  by (simp add: tile8_length set_stream tile8)

section \<open>Properties\<close>

text \<open>[C4] Belady's MIN is optimal: with at least one bank, and whatever order Python iterates the
  held set in, \<open>misses_min\<close> returns a count, and no schedule that keeps each referenced set
  resident, loads nothing else and stays within \<open>W\<close> banks misses less often.\<close>

theorem misses_min_optimal:
  assumes "\<And>S. finite S \<Longrightarrow> set (ord S) = S" and "0 < W" and "valid_schedule W {} refs Ss"
  shows "\<exists>m. misses_min ord refs W = Inr m \<and> m \<le> schedule_misses {} refs Ss"
  using set_iteration.misses_min_opt[of ord W refs] opt_misses_le_schedule[OF assms(3)] assms
  by (auto simp: set_iteration_def)

theorem misses_min_optimal_witness:
  "\<exists>m. misses_min sorted_list_of_set [1, 2, 1] 1 = Inr m
     \<and> m \<le> schedule_misses {} [1, 2, 1] [{1}, {2}, {1}]"
  by (rule misses_min_optimal) auto

text \<open>MIN never misses more often than LRU or FIFO, on any reference stream and for any
  positive number of banks.\<close>

lemma min_bounds_lru_fifo:
  assumes "\<And>S. finite S \<Longrightarrow> set (ord S) = S" and "0 < W"
  shows "\<exists>m. misses_min ord refs W = Inr m \<and> m \<le> misses_lru refs W \<and> m \<le> misses_fifo refs W"
  using set_iteration.misses_min_opt[of ord W refs] assms opt_le_lru[of W refs] opt_le_fifo[of W refs]
  by (auto simp: set_iteration_def)

text \<open>On the batch-serial stream, below the period LRU and FIFO take no hit at all: every
  reference is a miss, for every tile geometry and batch.\<close>

lemma lru_fifo_thrash:
  assumes "0 < R" and "0 < C" and "int W < total_sets R C"
  shows "misses_lru (stream R C b) W = length (stream R C b)
       \<and> misses_fifo (stream R C b) W = length (stream R C b)"
  using lru_no_hits fifo_no_hits stream_spaced[OF assms] by blast

text \<open>With as many banks as the period, LRU, FIFO and MIN all reach the bound: one scan per
  weight set, whatever the batch.\<close>

lemma full_period_one_scan:
  assumes "\<And>S. finite S \<Longrightarrow> set (ord S) = S" and "0 < R" and "0 < C" and "0 < b"
    and "total_sets R C \<le> int W"
  shows "int (misses_lru (stream R C b) W) = total_sets R C
       \<and> int (misses_fifo (stream R C b) W) = total_sets R C
       \<and> misses_min ord (stream R C b) W = Inr (nat (total_sets R C))"
proof -
  have W: "0 < W" using total_sets_ge2[OF assms(2,3)] assms(5) by simp
  have card: "card (set (stream R C b)) = nat (total_sets R C)" using set_stream assms by simp
  then have "card (set (stream R C b)) \<le> W" using assms(5) by simp
  then show ?thesis
    using lru_enough_banks[OF W] fifo_enough_banks[OF W] opt_enough_banks[OF W] card
      set_iteration.misses_min_opt[of ord W "stream R C b"] assms(1) W
      total_sets_ge2[OF assms(2,3)] by (simp add: set_iteration_def)
qed

text \<open>The batch-serial stream is exactly \<open>batch\<close> copies of the batched one, and the batched one
  visits every weight set once, in ascending order of its id.\<close>

lemma stream_structure:
  assumes "0 < R" and "0 < C"
  shows "stream R C b = concat (replicate (nat b) (stream_batched R C))
       \<and> stream_batched R C = py_range (total_sets R C)"
  using stream_replicate stream_batched_range[OF assms] by blast

text \<open>Below the period, moving the batch inside the weight set divides LRU's misses, and its
  references, by exactly the batch.\<close>

lemma batching_divides_misses:
  assumes "0 < R" and "0 < C" and "0 \<le> b" and "int W < total_sets R C"
  shows "int (misses_lru (stream R C b) W) = b * int (misses_lru (stream_batched R C) W)
       \<and> int (length (stream R C b)) = b * int (length (stream_batched R C))"
proof -
  have "misses_lru (stream_batched R C) W = length (stream_batched R C)"
    using lru_no_hits[OF stream_spaced[OF assms(1,2,4), of 1]] by (simp add: stream_replicate)
  then show ?thesis
    using assms lru_no_hits[OF stream_spaced[OF assms(1,2,4), of b]] by (simp add: stream_replicate)
qed

text \<open>Pinning on the stream has a closed form: each pinned set is scanned once, and every
  other set once per forward pass (unless exactly one set is left, which the victim slot then
  keeps).\<close>

lemma pin_closed_form:
  assumes "0 < R" and "0 < C" and "0 < b"
    and "card ({0..<total_sets R C} - pinned_sets W R C) \<noteq> 1"
  shows "misses_pin_smallest (stream R C b) W R C
       = card (pinned_sets W R C) + nat b * card ({0..<total_sets R C} - pinned_sets W R C)"
  using assms by (rule pin_misses_stream)

text \<open>The script's own \<open>checks\<close>: every assert holds, whatever order Python iterates the held
  set in.\<close>

lemma bank_checks_pass:
  assumes "\<And>S. finite S \<Longrightarrow> set (ord S) = S"
  shows "bank_checks ord = Inr ()"
proof -
  have min: "misses_min ord refs W = Inr (opt_misses W {} refs)" if "0 < W" for refs W
    using set_iteration.misses_min_opt[of ord W refs] assms that by (simp add: set_iteration_def)
  have reuse: "opt_misses W {} (stream 8 8 8) < 10400" if "2 \<le> W" for W
    using min_stream_reuses[OF that, of 8 8 8] by (simp add: tile8_length)
  have full: "opt_misses 1300 {} (stream 8 8 8) = 1300"
    using opt_enough_banks[of 1300 "stream 8 8 8"] by (simp add: set_stream tile8)
  have batched: "misses_lru (stream_batched 8 8) W = 1300" if "W < 1300" for W
    using tile8_lru[OF that, of 1] by (simp add: stream_replicate)
  show ?thesis
    unfolding bank_checks_def Let_def assert_all_ok
    by (simp add: min reuse full batched tile8 tile8_lru tile8_fifo tile8_length tile8_pin tile8_one
        BATCH_def MB_TW_def SHOT_FLOOR_def length_stream_batched)
qed

text \<open>The pinned banks and the victim slot together can exceed the capacity: at the 128 by 64
  tile with one bank, pinning keeps the second layer's set resident beside the victim slot, and
  so misses less often than MIN, which the capacity does bound.\<close>

lemma pin_exceeds_capacity:
  "card (pinned_sets 1 128 64) + 1 = 2
   \<and> misses_pin_smallest (stream 128 64 8) 1 128 64 = 113
   \<and> misses_min sorted_list_of_set (stream 128 64 8) 1 = Inr 120"
proof (intro conjI)
  have t: "total_sets 128 64 = 15" by code_simp
  have p: "pinned_sets (Suc 0) 128 64 = {14}"
    by (auto simp: pinned_sets_def layer_sizes_def LAYERS_def layer_sets_def ceil_div_def)
  show "card (pinned_sets 1 128 64) + 1 = 2" by (simp add: p)
  have "{0..<15} - {14} = {0..<14::int}" by auto
  then show "misses_pin_smallest (stream 128 64 8) 1 128 64 = 113"
    using pin_misses_stream[of 128 64 8 1] by (simp add: p t)
  have "opt_misses 1 {} (stream 128 64 8) = 120" by code_simp
  then show "misses_min sorted_list_of_set (stream 128 64 8) 1 = Inr 120"
    using py_sorted.misses_min_opt[of 1 "stream 128 64 8"] by simp
qed

end
