(* ===== verification/Py_Text.thy ===== *)
theory Py_Text
  imports Prelude "HOL-Library.Char_ord" "HOL-Library.List_Lexorder" "HOL-Library.Product_Lexorder"
    "HOL-Library.Sublist"
begin

text \<open>
  Python's text operations as the CI scripts use them.  A \<open>str\<close> is a list of \<open>char\<close>s holding its
  code points up to U+00FF, so the section sign of the documents is one character, as in Python.
  \<open>rx\<close> is the fragment of the \<open>re\<close> module the scripts' patterns need, with a matcher that
  enumerates the matches in the order Python's backtracking tries them: the first is the match
  \<open>re\<close> returns.
\<close>

section \<open>Character classes\<close>

definition is_space :: "char \<Rightarrow> bool" where
  "is_space c \<longleftrightarrow> of_char c \<in> {9, 10, 11, 12, 13, 28, 29, 30, 31, 32, 133, 160 :: nat}"

definition is_digit :: "char \<Rightarrow> bool" where
  "is_digit c \<longleftrightarrow> 48 \<le> (of_char c :: nat) \<and> (of_char c :: nat) \<le> 57"

definition is_lower :: "char \<Rightarrow> bool" where
  "is_lower c \<longleftrightarrow> 97 \<le> (of_char c :: nat) \<and> (of_char c :: nat) \<le> 122"

definition is_upper :: "char \<Rightarrow> bool" where
  "is_upper c \<longleftrightarrow> 65 \<le> (of_char c :: nat) \<and> (of_char c :: nat) \<le> 90"

text \<open>\<open>\w\<close>: the underscore and what \<open>str.isalnum\<close> accepts.\<close>

definition is_word :: "char \<Rightarrow> bool" where
  "is_word c \<longleftrightarrow> is_digit c \<or> is_lower c \<or> is_upper c \<or> c = CHR ''_''
     \<or> of_char c \<in> {170, 178, 179, 181, 185, 186, 188, 189, 190 :: nat}
     \<or> 192 \<le> (of_char c :: nat) \<and> (of_char c :: nat) \<noteq> 215 \<and> (of_char c :: nat) \<noteq> 247"

definition is_hex :: "char \<Rightarrow> bool" where
  "is_hex c \<longleftrightarrow> is_digit c \<or> 97 \<le> (of_char c :: nat) \<and> (of_char c :: nat) \<le> 102"

abbreviation NL :: char where "NL \<equiv> CHR 0x0A"
abbreviation TAB :: char where "TAB \<equiv> CHR 0x09"
abbreviation SECT :: char where "SECT \<equiv> CHR 0xA7"

section \<open>Splitting and stripping\<close>

definition lstrip :: "string \<Rightarrow> string" where
  "lstrip s = dropWhile is_space s"

definition rstrip :: "string \<Rightarrow> string" where
  "rstrip s = rev (dropWhile is_space (rev s))"

definition strip :: "string \<Rightarrow> string" where
  "strip s = rstrip (lstrip s)"

text \<open>\<open>s.rstrip(c)\<close> and \<open>s.lstrip(c)\<close> for one character.\<close>

definition rstrip_chr :: "char \<Rightarrow> string \<Rightarrow> string" where
  "rstrip_chr c s = rev (dropWhile (\<lambda>x. x = c) (rev s))"

definition lstrip_chr :: "char \<Rightarrow> string \<Rightarrow> string" where
  "lstrip_chr c s = dropWhile (\<lambda>x. x = c) s"

lemma split_ws_smaller:
  assumes "lstrip s = c # cs"
  shows "length (dropWhile (\<lambda>x. \<not> is_space x) (c # cs)) < length s"
proof -
  have "\<not> is_space c" using assms hd_dropWhile[of is_space s] by (auto simp: lstrip_def)
  then have "length (dropWhile (\<lambda>x. \<not> is_space x) (c # cs)) \<le> length cs"
    by (simp add: length_dropWhile_le)
  also have "length cs < length (lstrip s)" by (simp add: assms)
  also have "\<dots> \<le> length s" by (simp add: lstrip_def length_dropWhile_le)
  finally show ?thesis .
qed

text \<open>\<open>s.split()\<close>: the maximal runs of non-space characters.\<close>

function split_ws :: "string \<Rightarrow> string list" where
  "split_ws s = (case lstrip s of [] \<Rightarrow> []
     | c # cs \<Rightarrow> takeWhile (\<lambda>x. \<not> is_space x) (c # cs)
                 # split_ws (dropWhile (\<lambda>x. \<not> is_space x) (c # cs)))"
  by pat_completeness auto

termination
  by (relation "measure length") (auto dest: split_ws_smaller)

declare split_ws.simps [simp del]

text \<open>\<open>s.split(c)\<close> for one separator character.\<close>

fun split_chr :: "char \<Rightarrow> string \<Rightarrow> string list" where
  "split_chr c [] = [[]]"
| "split_chr c (x # xs) =
     (if x = c then [] # split_chr c xs
      else case split_chr c xs of [] \<Rightarrow> [[x]] | w # ws \<Rightarrow> (x # w) # ws)"

text \<open>\<open>s.split(c, 1)[0]\<close>.\<close>

definition split_head :: "char \<Rightarrow> string \<Rightarrow> string" where
  "split_head c s = takeWhile (\<lambda>x. x \<noteq> c) s"

text \<open>\<open>s.splitlines()\<close>: a carriage return and line feed end one line; a final line end adds no
  empty line.\<close>

definition is_eol :: "char \<Rightarrow> bool" where
  "is_eol c \<longleftrightarrow> of_char c \<in> {10, 11, 12, 13, 28, 29, 30, 133 :: nat}"

fun splitlines_acc :: "string \<Rightarrow> string \<Rightarrow> string list" where
  "splitlines_acc acc [] = (if acc = [] then [] else [rev acc])"
| "splitlines_acc acc (c # cs) =
     (if is_eol c
      then rev acc # (case cs of [] \<Rightarrow> []
             | d # ds \<Rightarrow> if c = CHR 0x0D \<and> d = NL then splitlines_acc [] ds
                         else splitlines_acc [] cs)
      else splitlines_acc (c # acc) cs)"

definition splitlines :: "string \<Rightarrow> string list" where
  "splitlines s = splitlines_acc [] s"

text \<open>\<open>sep.join(ws)\<close>, and \<open>p in s\<close> for strings.\<close>

fun join :: "string \<Rightarrow> string list \<Rightarrow> string" where
  "join sep [] = []"
| "join sep [w] = w"
| "join sep (w # v # ws) = w @ sep @ join sep (v # ws)"

abbreviation contains :: "string \<Rightarrow> string \<Rightarrow> bool" where
  "contains s p \<equiv> sublist p s"

text \<open>\<open>str(n)\<close> of an integer.\<close>

fun digits_of :: "nat \<Rightarrow> string" where
  "digits_of n = (if n < 10 then [char_of (48 + n)] else digits_of (n div 10) @ [char_of (48 + n mod 10)])"

declare digits_of.simps [simp del]

definition str_int :: "int \<Rightarrow> string" where
  "str_int i = (if i < 0 then CHR ''-'' # digits_of (nat (- i)) else digits_of (nat i))"

text \<open>\<open>int(s, 16)\<close> of a string of lower-case hexadecimal digits.\<close>

definition hex_val :: "char \<Rightarrow> int" where
  "hex_val c = (if is_digit c then of_char c - 48 else of_char c - 87)"

definition int16 :: "string \<Rightarrow> int" where
  "int16 s = foldl (\<lambda>n c. 16 * n + hex_val c) 0 s"

section \<open>Regular expressions\<close>

datatype rx =
    Eps | Cls "char \<Rightarrow> bool" | Seq rx rx | Alt rx rx | Rep bool rx | Grp nat rx
  | Bound | Bol | Eos

text \<open>A matcher's state: the characters behind it, nearest first, those ahead, and the groups
  set so far, latest first.\<close>

type_synonym rst = "string \<times> string \<times> (nat \<times> string) list"

text \<open>Repetition: an iteration must consume something; greedy tries one more first.  The fuel is the
  length of what is ahead, which every iteration shortens.\<close>

fun rep_loop :: "nat \<Rightarrow> (rst \<Rightarrow> rst list) \<Rightarrow> bool \<Rightarrow> rst \<Rightarrow> rst list" where
  "rep_loop 0 f greedy s = [s]"
| "rep_loop (Suc n) f greedy s =
     (let more = concat (map (rep_loop n f greedy)
                   (filter (\<lambda>s'. length (fst (snd s')) < length (fst (snd s))) (f s)))
      in if greedy then more @ [s] else s # more)"

definition at_word :: "string \<Rightarrow> bool" where
  "at_word s = (case s of [] \<Rightarrow> False | c # _ \<Rightarrow> is_word c)"

primrec rmatch :: "rx \<Rightarrow> rst \<Rightarrow> rst list" where
  "rmatch Eps s = [s]"
| "rmatch (Cls p) s =
     (case s of (pre, suf, g) \<Rightarrow>
        case suf of [] \<Rightarrow> [] | c # cs \<Rightarrow> if p c then [(c # pre, cs, g)] else [])"
| "rmatch (Seq a b) s = concat (map (rmatch b) (rmatch a s))"
| "rmatch (Alt a b) s = rmatch a s @ rmatch b s"
| "rmatch (Rep greedy r) s = rep_loop (length (fst (snd s))) (rmatch r) greedy s"
| "rmatch (Grp i r) s =
     map (\<lambda>(pre', suf', g'). (pre', suf', (i, rev (take (length pre' - length (fst s)) pre')) # g'))
       (rmatch r s)"
| "rmatch Bound s =
     (case s of (pre, suf, g) \<Rightarrow> if at_word pre \<noteq> at_word suf then [s] else [])"
| "rmatch Bol s = (if fst s = [] then [s] else [])"
| "rmatch Eos s = (if fst (snd s) = [] \<or> fst (snd s) = [NL] then [s] else [])"

abbreviation lit :: "char \<Rightarrow> rx" where "lit c \<equiv> Cls (\<lambda>x. x = c)"
abbreviation star :: "rx \<Rightarrow> rx" where "star r \<equiv> Rep True r"
abbreviation lazy :: "rx \<Rightarrow> rx" where "lazy r \<equiv> Rep False r"
abbreviation plus :: "rx \<Rightarrow> rx" where "plus r \<equiv> Seq r (Rep True r)"
abbreviation opt :: "rx \<Rightarrow> rx" where "opt r \<equiv> Alt r Eps"

fun str :: "string \<Rightarrow> rx" where
  "str [] = Eps"
| "str (c # cs) = Seq (lit c) (str cs)"

fun seqs :: "rx list \<Rightarrow> rx" where
  "seqs [] = Eps"
| "seqs [r] = r"
| "seqs (r # rs) = Seq r (seqs rs)"

fun alts :: "rx list \<Rightarrow> rx" where
  "alts [] = Cls (\<lambda>_. False)"
| "alts [r] = r"
| "alts (r # rs) = Alt r (alts rs)"

abbreviation sp :: rx where "sp \<equiv> Cls is_space"
abbreviation wd :: rx where "wd \<equiv> Cls is_word"
abbreviation dg :: rx where "dg \<equiv> Cls is_digit"
abbreviation hx :: rx where "hx \<equiv> Cls is_hex"
abbreviation dot :: rx where "dot \<equiv> Cls (\<lambda>c. c \<noteq> NL)"
abbreviation dotall :: rx where "dotall \<equiv> Cls (\<lambda>_. True)"

text \<open>A match object: the text matched, its groups, and what is left ahead of it.\<close>

record rx_match =
  m_text :: string
  m_groups :: "(nat \<times> string) list"
  m_pre :: string
  m_rest :: string

text \<open>\<open>group(i)\<close>: \<open>None\<close> for a group that took no part; \<open>findall\<close> gives the empty string there.\<close>

definition group_opt :: "rx_match \<Rightarrow> nat \<Rightarrow> string option" where
  "group_opt m i = map_of (m_groups m) i"

definition group :: "rx_match \<Rightarrow> nat \<Rightarrow> string" where
  "group m i = (case group_opt m i of None \<Rightarrow> [] | Some s \<Rightarrow> s)"

definition match_at :: "rx \<Rightarrow> string \<Rightarrow> string \<Rightarrow> rx_match option" where
  "match_at r pre suf =
     (case rmatch r (pre, suf, []) of [] \<Rightarrow> None
      | (pre', suf', g) # _ \<Rightarrow>
          Some \<lparr>m_text = rev (take (length pre' - length pre) pre'), m_groups = g,
                m_pre = pre', m_rest = suf'\<rparr>)"

definition re_match :: "rx \<Rightarrow> string \<Rightarrow> rx_match option" where
  "re_match r s = match_at r [] s"

fun search_from :: "rx \<Rightarrow> string \<Rightarrow> string \<Rightarrow> rx_match option" where
  "search_from r pre [] = match_at r pre []"
| "search_from r pre (c # cs) =
     (case match_at r pre (c # cs) of Some m \<Rightarrow> Some m | None \<Rightarrow> search_from r (c # pre) cs)"

definition re_search :: "rx \<Rightarrow> string \<Rightarrow> rx_match option" where
  "re_search r s = search_from r [] s"

text \<open>\<open>finditer\<close>: leftmost matches, each starting where the last one ended; an empty match moves on
  by one character.  The fuel is one more than the length of the text.\<close>

fun find_loop :: "nat \<Rightarrow> rx \<Rightarrow> string \<Rightarrow> string \<Rightarrow> rx_match list" where
  "find_loop 0 r pre suf = []"
| "find_loop (Suc n) r pre suf =
     (case match_at r pre suf of
        Some m \<Rightarrow>
          m # (if m_text m = []
               then (case m_rest m of [] \<Rightarrow> [] | c # cs \<Rightarrow> find_loop n r (c # m_pre m) cs)
               else find_loop n r (m_pre m) (m_rest m))
      | None \<Rightarrow> (case suf of [] \<Rightarrow> [] | c # cs \<Rightarrow> find_loop n r (c # pre) cs))"

definition re_finditer :: "rx \<Rightarrow> string \<Rightarrow> rx_match list" where
  "re_finditer r s = find_loop (length s + 1) r [] s"

text \<open>\<open>re.sub\<close> with a constant replacement, for patterns that match no empty string.\<close>

fun sub_loop :: "nat \<Rightarrow> rx \<Rightarrow> string \<Rightarrow> string \<Rightarrow> string \<Rightarrow> string" where
  "sub_loop 0 r new pre suf = suf"
| "sub_loop (Suc n) r new pre suf =
     (case match_at r pre suf of
        Some m \<Rightarrow>
          new @ (if m_text m = []
                then (case m_rest m of [] \<Rightarrow> [] | c # cs \<Rightarrow> c # sub_loop n r new (c # m_pre m) cs)
                else sub_loop n r new (m_pre m) (m_rest m))
      | None \<Rightarrow> (case suf of [] \<Rightarrow> [] | c # cs \<Rightarrow> c # sub_loop n r new (c # pre) cs))"

definition re_sub :: "rx \<Rightarrow> string \<Rightarrow> string \<Rightarrow> string" where
  "re_sub r new s = sub_loop (length s + 1) r new [] s"

section \<open>Lemmas\<close>

text \<open>Every match splits the text: what is behind and ahead is the same string before and after, and
  a match only moves forward.\<close>

definition split_ok :: "rst \<Rightarrow> rst \<Rightarrow> bool" where
  "split_ok s s' \<longleftrightarrow> rev (fst s') @ fst (snd s') = rev (fst s) @ fst (snd s)
     \<and> suffix (fst s) (fst s')"

lemma split_ok_refl [simp]: "split_ok s s"
  by (simp add: split_ok_def)

lemma split_ok_trans: "split_ok a b \<Longrightarrow> split_ok b c \<Longrightarrow> split_ok a c"
  by (auto simp: split_ok_def intro: suffix_order.trans)

lemma rep_loop_split:
  "(\<And>s s'. s' \<in> set (f s) \<Longrightarrow> split_ok s s') \<Longrightarrow> s' \<in> set (rep_loop n f g s) \<Longrightarrow> split_ok s s'"
proof (induction n arbitrary: s)
  case (Suc n)
  from Suc.prems(2) consider "s' = s" | t where "t \<in> set (f s)" "s' \<in> set (rep_loop n f g t)"
    by (auto simp: Let_def split: if_splits)
  then show ?case
    by cases (auto intro: split_ok_trans Suc.IH[OF Suc.prems(1)] Suc.prems(1))
qed simp

lemma rmatch_split: "s' \<in> set (rmatch r s) \<Longrightarrow> split_ok s s'"
proof (induction r arbitrary: s s')
  case (Seq a b)
  then obtain t where "t \<in> set (rmatch a s)" "s' \<in> set (rmatch b t)"
    by (simp only: rmatch.simps set_concat set_map) blast
  then show ?case using Seq.IH split_ok_trans by blast
next
  case (Rep g r)
  then show ?case using rep_loop_split[of "rmatch r"] by auto
next
  case (Grp i r)
  then obtain t where t: "t \<in> set (rmatch r s)" "fst s' = fst t" "fst (snd s') = fst (snd t)"
    by auto
  then show ?case using Grp.IH[OF t(1)] by (simp add: split_ok_def)
qed (auto simp: split_ok_def suffix_def split: prod.splits list.splits if_splits)

lemma match_at_split:
  assumes "match_at r pre suf = Some m"
  shows "suf = m_text m @ m_rest m" and "m_pre m = rev (m_text m) @ pre"
proof -
  obtain pre' suf' g ms where ms: "rmatch r (pre, suf, []) = (pre', suf', g) # ms"
    and m: "m = \<lparr>m_text = rev (take (length pre' - length pre) pre'), m_groups = g,
                m_pre = pre', m_rest = suf'\<rparr>"
    using assms by (auto simp: match_at_def split: list.splits)
  then have "split_ok (pre, suf, []) (pre', suf', g)" by (intro rmatch_split[of _ r]) simp
  then obtain d where d: "pre' = d @ pre" "rev pre' @ suf' = rev pre @ suf"
    by (auto simp: split_ok_def suffix_def)
  then show "suf = m_text m @ m_rest m" "m_pre m = rev (m_text m) @ pre" using m by auto
qed

lemma split_chr_not_nil [simp]: "split_chr c s \<noteq> []"
  by (induction s) (auto split: list.splits)

lemma split_ws_Nil [simp]: "split_ws [] = []"
  by (simp add: split_ws.simps lstrip_def)

lemma split_ws_eq_Nil: "split_ws s = [] \<longleftrightarrow> lstrip s = []"
  by (subst split_ws.simps) (simp split: list.splits)

lemma split_ws_words: "w \<in> set (split_ws s) \<Longrightarrow> w \<noteq> [] \<and> (\<forall>c \<in> set w. \<not> is_space c)"
proof (induction s rule: split_ws.induct)
  case (1 s)
  show ?case
  proof (cases "lstrip s")
    case Nil
    then show ?thesis using "1.prems" by (simp add: split_ws.simps[of s])
  next
    case (Cons c cs)
    have c: "\<not> is_space c" using Cons hd_dropWhile[of is_space s] by (auto simp: lstrip_def)
    have "split_ws s = takeWhile (\<lambda>x. \<not> is_space x) (c # cs)
        # split_ws (dropWhile (\<lambda>x. \<not> is_space x) (c # cs))"
      by (subst split_ws.simps) (simp add: Cons)
    then consider "w = takeWhile (\<lambda>x. \<not> is_space x) (c # cs)"
      | "w \<in> set (split_ws (dropWhile (\<lambda>x. \<not> is_space x) (c # cs)))"
      using "1.prems" by auto
    then show ?thesis
    proof cases
      case 1
      then show ?thesis using c by (auto dest: set_takeWhileD)
    next
      case 2
      then show ?thesis using "1.IH"[OF Cons] by blast
    qed
  qed
qed

section \<open>A matcher that stops at the first match\<close>

fun first_some :: "('a \<Rightarrow> 'b option) \<Rightarrow> 'a list \<Rightarrow> 'b option" where
  "first_some k [] = None"
| "first_some k (x # xs) = (case k x of None \<Rightarrow> first_some k xs | Some y \<Rightarrow> Some y)"

lemma first_some_append:
  "first_some k (xs @ ys) = (case first_some k xs of None \<Rightarrow> first_some k ys | Some y \<Rightarrow> Some y)"
  by (induction xs) (auto split: option.splits)

lemma first_some_concat_map:
  "first_some k (concat (map f xs)) = first_some (\<lambda>x. first_some k (f x)) xs"
  by (induction xs) (auto simp: first_some_append split: option.splits)

lemma first_some_map: "first_some k (map f xs) = first_some (\<lambda>x. k (f x)) xs"
  by (induction xs) (auto split: option.splits)

lemma first_some_filter:
  "first_some k (filter P xs) = first_some (\<lambda>x. if P x then k x else None) xs"
  by (induction xs) (auto split: option.splits)

type_synonym rcont = "rst \<Rightarrow> rst option"

text \<open>The fuel is what is ahead, and an iteration counts when what is ahead has changed.\<close>

fun rep_find :: "string \<Rightarrow> (rst \<Rightarrow> rcont \<Rightarrow> rst option) \<Rightarrow> bool \<Rightarrow> rst \<Rightarrow> rcont \<Rightarrow> rst option" where
  "rep_find [] f greedy (pre, suf, g) k = k (pre, suf, g)"
| "rep_find (_ # n) f greedy (pre, suf, g) k =
     (if greedy
      then case f (pre, suf, g) (\<lambda>s'. if fst (snd s') \<noteq> suf then rep_find n f greedy s' k else None)
           of None \<Rightarrow> k (pre, suf, g) | Some y \<Rightarrow> Some y
      else case k (pre, suf, g) of Some y \<Rightarrow> Some y
           | None \<Rightarrow> f (pre, suf, g) (\<lambda>s'. if fst (snd s') \<noteq> suf then rep_find n f greedy s' k else None))"

fun close_group :: "nat \<Rightarrow> string \<Rightarrow> rst \<Rightarrow> rst" where
  "close_group i pre (pre', suf', g') = (pre', suf', (i, rev (take (length pre' - length pre) pre')) # g')"

text \<open>The equations take the state apart, so that evaluation does not unfold a continuation before
  it is called.\<close>

fun rfind :: "rx \<Rightarrow> rst \<Rightarrow> rcont \<Rightarrow> rst option" where
  "rfind Eps (pre, suf, g) k = k (pre, suf, g)"
| "rfind (Cls p) (pre, suf, g) k =
     (case suf of [] \<Rightarrow> None | c # cs \<Rightarrow> if p c then k (c # pre, cs, g) else None)"
| "rfind (Seq a b) (pre, suf, g) k = rfind a (pre, suf, g) (\<lambda>s'. rfind b s' k)"
| "rfind (Alt a b) (pre, suf, g) k =
     (case rfind a (pre, suf, g) k of Some y \<Rightarrow> Some y | None \<Rightarrow> rfind b (pre, suf, g) k)"
| "rfind (Rep greedy r) (pre, suf, g) k = rep_find suf (rfind r) greedy (pre, suf, g) k"
| "rfind (Grp i r) (pre, suf, g) k = rfind r (pre, suf, g) (\<lambda>s'. k (close_group i pre s'))"
| "rfind Bound (pre, suf, g) k = (if at_word pre \<noteq> at_word suf then k (pre, suf, g) else None)"
| "rfind Bol (pre, suf, g) k = (if pre = [] then k (pre, suf, g) else None)"
| "rfind Eos (pre, suf, g) k = (if suf = [] \<or> suf = [NL] then k (pre, suf, g) else None)"

lemma first_some_cong: "(\<And>x. x \<in> set xs \<Longrightarrow> k x = k' x) \<Longrightarrow> first_some k xs = first_some k' xs"
  by (induction xs) (auto split: option.splits)

lemma split_ok_shorter:
  assumes "split_ok s s'"
  shows "length (fst (snd s')) < length (fst (snd s)) \<longleftrightarrow> fst (snd s') \<noteq> fst (snd s)"
proof -
  obtain d where d: "fst s' = d @ fst s" using assms by (auto simp: split_ok_def suffix_def)
  have "rev (d @ fst s) @ fst (snd s') = rev (fst s) @ fst (snd s)"
    using assms d by (simp add: split_ok_def)
  then have "fst (snd s) = rev d @ fst (snd s')" by simp
  then show ?thesis by simp
qed

lemma rep_find_correct:
  assumes f: "\<And>s k. f' s k = first_some k (f s)" and ok: "\<And>s s'. s' \<in> set (f s) \<Longrightarrow> split_ok s s'"
  shows "rep_find n f' greedy s k = first_some k (rep_loop (length n) f greedy s)"
proof -
  have eq: "f' = (\<lambda>s k. first_some k (f s))" by (intro ext) (rule f)
  show ?thesis
  proof (induction n arbitrary: s)
    case (Cons c n)
    obtain pre suf g where s: "s = (pre, suf, g)" by (cases s)
    have "first_some (\<lambda>s'. if fst (snd s') \<noteq> suf then rep_find n f' greedy s' k else None) (f s)
      = first_some (\<lambda>s'. if length (fst (snd s')) < length suf
          then first_some k (rep_loop (length n) f greedy s') else None) (f s)"
      by (rule first_some_cong) (use s split_ok_shorter[OF ok] Cons.IH in auto)
    then show ?case unfolding eq s
      by (cases greedy) (simp_all add: Let_def first_some_append first_some_concat_map
          first_some_filter option.case_eq_if cong: if_cong)
  next
    case Nil
    then show ?case by (cases s) (simp split: option.splits)
  qed
qed

lemma rfind_correct: "rfind r s k = first_some k (rmatch r s)"
proof (induction r arbitrary: s k)
  case (Rep greedy r)
  then show ?case using rep_find_correct[of "rfind r" "rmatch r"] rmatch_split by (cases s) simp
next
  case (Grp i r)
  obtain pre suf g where s: "s = (pre, suf, g)" by (cases s)
  have "k (close_group i pre s') = k (case s' of (pre', suf', g') \<Rightarrow>
      (pre', suf', (i, rev (take (length pre' - length (fst s)) pre')) # g'))" for s'
    by (cases s') (simp add: s)
  then show ?case by (simp add: s Grp.IH first_some_map)
next
  case (Seq a b)
  then show ?case by (cases s) (simp add: first_some_concat_map)
next
  case (Alt a b)
  then show ?case by (cases s) (simp add: first_some_append split: option.splits)
qed (case_tac s; auto split: list.splits option.splits)+

lemma match_at_find [code]:
  "match_at r pre suf =
     (case rfind r (pre, suf, []) Some of None \<Rightarrow> None
      | Some (pre', suf', g) \<Rightarrow>
          Some \<lparr>m_text = rev (take (length pre' - length pre) pre'), m_groups = g,
                m_pre = pre', m_rest = suf'\<rparr>)"
  by (cases "rmatch r (pre, suf, [])") (auto simp: match_at_def rfind_correct)

text \<open>The character classes on the bits of a character, for evaluation.\<close>

lemma is_digit_bits [code]:
  "is_digit (Char b0 b1 b2 b3 b4 b5 b6 b7) \<longleftrightarrow> \<not> b7 \<and> \<not> b6 \<and> b5 \<and> b4 \<and> (\<not> b3 \<or> \<not> b2 \<and> \<not> b1)"
  by (cases b0; cases b1; cases b2; cases b3; cases b4; cases b5; cases b6; cases b7;
      simp add: is_digit_def)

lemma is_space_bits [code]:
  "is_space (Char b0 b1 b2 b3 b4 b5 b6 b7) \<longleftrightarrow>
     (if b7 then \<not> b6 \<and> \<not> b4 \<and> \<not> b3 \<and> \<not> b1 \<and> (if b5 then \<not> b0 \<and> \<not> b2 else b0 \<and> b2)
      else \<not> b6 \<and> (if b5 then \<not> b0 \<and> \<not> b1 \<and> \<not> b2 \<and> \<not> b3 \<and> \<not> b4
                     else if b4 then b3 \<and> b2 else b3 \<and> (if b2 then \<not> b1 else b0 \<or> b1)))"
  by (cases b0; cases b1; cases b2; cases b3; cases b4; cases b5; cases b6; cases b7;
      simp add: is_space_def)

lemma is_lower_bits [code]:
  "is_lower (Char b0 b1 b2 b3 b4 b5 b6 b7) \<longleftrightarrow> \<not> b7 \<and> b6 \<and> b5
     \<and> (if b4 then \<not> b3 \<or> \<not> b2 \<and> (\<not> b1 \<or> \<not> b0) else b0 \<or> b1 \<or> b2 \<or> b3)"
  by (cases b0; cases b1; cases b2; cases b3; cases b4; cases b5; cases b6; cases b7;
      simp add: is_lower_def)

lemma is_upper_bits [code]:
  "is_upper (Char b0 b1 b2 b3 b4 b5 b6 b7) \<longleftrightarrow> \<not> b7 \<and> b6 \<and> \<not> b5
     \<and> (if b4 then \<not> b3 \<or> \<not> b2 \<and> (\<not> b1 \<or> \<not> b0) else b0 \<or> b1 \<or> b2 \<or> b3)"
  by (cases b0; cases b1; cases b2; cases b3; cases b4; cases b5; cases b6; cases b7;
      simp add: is_upper_def)

lemma is_hex_bits [code]:
  "is_hex (Char b0 b1 b2 b3 b4 b5 b6 b7) \<longleftrightarrow> \<not> b7 \<and> b5
     \<and> (if b6 then \<not> b4 \<and> \<not> b3 \<and> (if b2 then \<not> b0 \<or> \<not> b1 else b0 \<or> b1)
        else b4 \<and> (\<not> b3 \<or> \<not> b2 \<and> \<not> b1))"
  by (cases b0; cases b1; cases b2; cases b3; cases b4; cases b5; cases b6; cases b7;
      simp add: is_hex_def is_digit_def)

lemma is_eol_bits [code]:
  "is_eol (Char b0 b1 b2 b3 b4 b5 b6 b7) \<longleftrightarrow>
     (if b7 then b0 \<and> \<not> b1 \<and> b2 \<and> \<not> b3 \<and> \<not> b4 \<and> \<not> b5 \<and> \<not> b6
      else \<not> b6 \<and> \<not> b5 \<and> (if b4 then b3 \<and> b2 \<and> (\<not> b0 \<or> \<not> b1)
                     else b3 \<and> (if b2 then \<not> b1 else b1)))"
  by (cases b0; cases b1; cases b2; cases b3; cases b4; cases b5; cases b6; cases b7;
      simp add: is_eol_def)

section \<open>What a match looks like\<close>

lemma rmatch_str:
  "s' \<in> set (rmatch (str w) (pre, suf, g)) \<longleftrightarrow> (\<exists>r. suf = w @ r \<and> s' = (rev w @ pre, r, g))"
  by (induction w arbitrary: pre suf) (auto split: list.splits if_splits)

lemma rep_loop_cls:
  assumes f: "\<And>pre suf g. f (pre, suf, g) = (case suf of [] \<Rightarrow> [] | c # cs \<Rightarrow> if p c then [(c # pre, cs, g)] else [])"
  shows "(pre', suf', g') \<in> set (rep_loop n f b (pre, suf, g)) \<Longrightarrow>
     \<exists>w. suf = w @ suf' \<and> pre' = rev w @ pre \<and> g' = g \<and> (\<forall>c \<in> set w. p c)"
proof (induction n arbitrary: pre suf)
  case (Suc n)
  then consider "(pre', suf', g') = (pre, suf, g)"
    | c cs where "suf = c # cs" "p c" "(pre', suf', g') \<in> set (rep_loop n f b (c # pre, cs, g))"
    by (cases suf) (auto simp: Let_def f split: if_splits)
  then show ?case
  proof cases
    case 2
    from Suc.IH[OF 2(3)] obtain w where "cs = w @ suf'" "pre' = rev w @ c # pre" "g' = g" "\<forall>x \<in> set w. p x"
      by blast
    then show ?thesis using 2(1,2) by (intro exI[of _ "c # w"]) auto
  qed auto
qed simp

lemma rmatch_star:
  "(pre', suf', g') \<in> set (rmatch (Rep b (Cls p)) (pre, suf, g)) \<Longrightarrow>
     \<exists>w. suf = w @ suf' \<and> pre' = rev w @ pre \<and> g' = g \<and> (\<forall>c \<in> set w. p c)"
  unfolding rmatch.simps(5) by (erule rep_loop_cls[rotated]) simp

lemma find_loop_match:
  "m \<in> set (find_loop n r pre suf) \<Longrightarrow>
     \<exists>a. suf = a @ m_text m @ m_rest m \<and> match_at r (rev a @ pre) (m_text m @ m_rest m) = Some m"
proof (induction n arbitrary: pre suf)
  case (Suc n)
  show ?case
  proof (cases "match_at r pre suf")
    case None
    then obtain c cs where suf: "suf = c # cs" "m \<in> set (find_loop n r (c # pre) cs)"
      using Suc.prems by (auto split: list.splits)
    from Suc.IH[OF suf(2)] obtain a where
      "cs = a @ m_text m @ m_rest m" "match_at r (rev a @ c # pre) (m_text m @ m_rest m) = Some m" by blast
    then show ?thesis using suf(1) by (intro exI[of _ "c # a"]) simp
  next
    case (Some m0)
    note sp = match_at_split[OF Some]
    consider "m = m0"
      | c cs where "m_text m0 = []" "m_rest m0 = c # cs" "m \<in> set (find_loop n r (c # m_pre m0) cs)"
      | "m_text m0 \<noteq> []" "m \<in> set (find_loop n r (m_pre m0) (m_rest m0))"
      using Suc.prems Some by (auto split: list.splits if_splits)
    then show ?thesis
    proof cases
      case 1
      then show ?thesis using Some sp(1) by (intro exI[of _ "[]"]) simp
    next
      case 2
      from Suc.IH[OF 2(3)] obtain a where
        "cs = a @ m_text m @ m_rest m" "match_at r (rev a @ c # m_pre m0) (m_text m @ m_rest m) = Some m"
        by blast
      then show ?thesis using 2(1,2) sp by (intro exI[of _ "c # a"]) simp
    next
      case 3
      from Suc.IH[OF 3(2)] obtain a where
        "m_rest m0 = a @ m_text m @ m_rest m" "match_at r (rev a @ m_pre m0) (m_text m @ m_rest m) = Some m"
        by blast
      then show ?thesis using sp by (intro exI[of _ "m_text m0 @ a"]) simp
    qed
  qed
qed simp

lemma match_at_rmatch:
  assumes "match_at r pre suf = Some m"
  shows "(m_pre m, m_rest m, m_groups m) \<in> set (rmatch r (pre, suf, []))"
  using assms by (auto simp: match_at_def split: list.splits)

lemma rmatch_SeqE:
  assumes "t \<in> set (rmatch (Seq a b) s)"
  obtains u where "u \<in> set (rmatch a s)" "t \<in> set (rmatch b u)"
  using assms by (simp only: rmatch.simps set_concat set_map) blast

lemma rmatch_plus:
  assumes "(pre', suf', g') \<in> set (rmatch (plus (Cls p)) (pre, suf, g))"
  shows "\<exists>w. w \<noteq> [] \<and> suf = w @ suf' \<and> pre' = rev w @ pre \<and> g' = g \<and> (\<forall>c \<in> set w. p c)"
proof -
  obtain u where u: "u \<in> set (rmatch (Cls p) (pre, suf, g))"
    "(pre', suf', g') \<in> set (rmatch (Rep True (Cls p)) u)"
    by (rule rmatch_SeqE[OF assms])
  then obtain c cs where c: "suf = c # cs" "p c" "u = (c # pre, cs, g)"
    by (auto split: list.splits if_splits)
  with rmatch_star[OF u(2)[unfolded c(3)]]
  obtain w where "cs = w @ suf'" "pre' = rev w @ c # pre" "g' = g" "\<forall>x \<in> set w. p x" by blast
  then show ?thesis using c by (intro exI[of _ "c # w"]) auto
qed

lemma rmatch_GrpE:
  assumes "t \<in> set (rmatch (Grp i r) (pre, suf, g))"
  obtains w suf' g' where "(rev w @ pre, suf', g') \<in> set (rmatch r (pre, suf, g))" "suf = w @ suf'"
    "t = (rev w @ pre, suf', (i, w) # g')"
proof -
  obtain pre' suf' g' where t: "(pre', suf', g') \<in> set (rmatch r (pre, suf, g))"
    "t = (pre', suf', (i, rev (take (length pre' - length pre) pre')) # g')"
    using assms by auto
  have sp: "rev pre' @ suf' = rev pre @ suf" "suffix pre pre'"
    using rmatch_split[OF t(1)] by (simp_all add: split_ok_def)
  from sp(2) obtain w where w: "pre' = w @ pre" by (rule suffixE)
  have "suf = rev w @ suf'" using sp(1) unfolding w by simp
  moreover have "t = (w @ pre, suf', (i, rev w) # g')" using t(2) unfolding w by simp
  ultimately show ?thesis using t(1) w that[of "rev w" suf' g'] by simp
qed

text \<open>The first way a greedy repetition of a class matches takes all it can.\<close>

lemma hd_rep_loop_cls:
  assumes f: "\<And>pre suf g. f (pre, suf, g) = (case suf of [] \<Rightarrow> [] | c # cs \<Rightarrow> if p c then [(c # pre, cs, g)] else [])"
  shows "length suf \<le> n \<Longrightarrow> \<exists>rest. rep_loop n f True (pre, suf, g) = (rev (takeWhile p suf) @ pre, dropWhile p suf, g) # rest"
proof (induction n arbitrary: pre suf)
  case (Suc n)
  show ?case
  proof (cases suf)
    case (Cons c cs)
    then show ?thesis using Suc.IH[of cs "c # pre"] Suc.prems by (auto simp: Let_def f)
  qed (simp add: Let_def f)
qed simp

lemma rmatch_plus_first:
  "rmatch (plus (Cls p)) (pre, suf, g) = [] \<or>
     (\<exists>rest. rmatch (plus (Cls p)) (pre, suf, g) = (rev (takeWhile p suf) @ pre, dropWhile p suf, g) # rest)"
proof (cases suf)
  case (Cons c cs)
  then show ?thesis using hd_rep_loop_cls[of "rmatch (Cls p)" p cs "length cs" "c # pre" g] by (auto simp: numeral_eq_Suc)
qed simp

lemma rmatch_Seq_first:
  assumes "rmatch (Seq a b) s = x # xs"
  obtains u ys where "u \<in> set (rmatch a s)" "rmatch b u = x # ys"
proof -
  have "\<exists>u ys. u \<in> set us \<and> rmatch b u = x # ys" if "concat (map (rmatch b) us) = x # xs" for us
    using that by (induction us) (auto simp: append_eq_Cons_conv)
  from this[of "rmatch a s"] assms show thesis using that by (simp only: rmatch.simps) blast
qed

end
