(* ===== verification/Kernel_Loops.thy ===== *)
theory Kernel_Loops
  imports Py_Text "HOL-Library.AList" Complex_Main
begin

text \<open>
  The hot-loop census of \<^verbatim>\<open>ci/check_kernel_loops.py\<close>: the parser of an \<open>objdump\<close> listing, the
  back edges of a kernel, the choice of its hot loop, the census of an image and the comparison
  with the stored baseline.  The lemmas characterise the loop that is chosen, exactly when the
  gate is green, and the self-test's sample image.
\<close>

section \<open>Tables\<close>

definition NOT_KERNELS :: "string set" where
  "NOT_KERNELS = {''_start'', ''__init_tls'', ''__libc_init_array'', ''memcpy'', ''memset'', ''sqrtf''}"

definition NOT_REALLY_FP :: "string set" where
  "NOT_REALLY_FP = {''flw'', ''fsw'', ''fmv.s'', ''fmv.w.x'', ''fmv.x.w''}"

datatype krole = SHIPS | ORACLE | CONTROL | STAGED

definition ROLES :: "(string \<times> krole) list" where
  "ROLES = [(''sgemm'', ORACLE), (''sgemm_rb'', CONTROL), (''sgemm_4x2'', STAGED), (''sgemm_4x4'', STAGED)]"

definition role_of :: "string \<Rightarrow> (string \<times> krole) list \<Rightarrow> krole" where
  "role_of name roles = (case map_of roles name of None \<Rightarrow> SHIPS | Some r \<Rightarrow> r)"

section \<open>Parsing the listing\<close>

definition rx_row :: rx where
  "rx_row = seqs [star sp, Grp 1 (plus hx), lit CHR '':'', plus sp, plus (Cls (\<lambda>c. \<not> is_space c)),
                  plus sp, Grp 2 (star dot)]"

definition rx_sym :: rx where
  "rx_sym = seqs [Grp 1 (plus hx), plus sp, lit CHR ''<'', Grp 2 (plus wd), lit CHR ''>'', lit CHR '':'']"

fun parse_lines ::
  "string list \<Rightarrow> (int \<times> string) list \<times> (int \<times> string) list" where
  "parse_lines [] = ([], [])"
| "parse_lines (line # ls) =
     (case parse_lines ls of (rows, syms) \<Rightarrow>
        (case re_match rx_row line of
           Some m \<Rightarrow> ((int16 (group m 1), strip (group m 2)) # rows, syms)
         | None \<Rightarrow>
             (case re_match rx_sym line of
                Some m \<Rightarrow> (rows, (int16 (group m 1), group m 2) # syms)
              | None \<Rightarrow> (rows, syms))))"

definition parse :: "string \<Rightarrow> (int \<times> string) list \<times> (int \<times> string) list" where
  "parse text = (case parse_lines (splitlines text) of (rows, syms) \<Rightarrow> (sort rows, sort syms))"

section \<open>Loops\<close>

record loop_stat =
  ls_ins :: int
  ls_fp :: int
  ls_loads :: int
  ls_stores :: int
  ls_stack :: int
  ls_split :: int
  ls_join :: int

text \<open>\<open>t.split()[0]\<close>: a blank instruction text raises.\<close>

definition opcode :: "string \<Rightarrow> py_error + string" where
  "opcode t = (case split_ws t of [] \<Rightarrow> Inl IndexError | w # _ \<Rightarrow> Inr w)"

definition loop_stats :: "string list \<Rightarrow> py_error + loop_stat" where
  "loop_stats loop =
     bindE (mapE opcode loop) (\<lambda>ops. Inr
       \<lparr>ls_ins = int (length loop),
        ls_fp = int (length (filter (\<lambda>w. prefix ''f'' w \<and> w \<notin> NOT_REALLY_FP) ops)),
        ls_loads = int (count_list ops ''flw''),
        ls_stores = int (count_list ops ''fsw''),
        ls_stack = int (length (filter (\<lambda>t. contains t ''(sp)'') loop)),
        ls_split = int (count_list ops ''vx_split'') + int (count_list ops ''vx_split_n''),
        ls_join = int (count_list ops ''vx_join'')\<rparr>)"

definition rx_branch :: rx where
  "rx_branch = Seq (Grp 1 (Alt (Seq (lit CHR ''b'') (plus (Cls is_lower))) (lit CHR ''j''))) sp"

definition rx_target :: rx where
  "rx_target = seqs [Grp 1 (Seq (str ''0x'') (plus hx)), star sp, lit CHR ''<'']"

text \<open>The span of one instruction if it is a backward branch inside the kernel.\<close>

definition back_edge :: "int \<Rightarrow> int \<times> string \<Rightarrow> (int \<times> int) option" where
  "back_edge lo row =
     (case row of (addr, text) \<Rightarrow>
        if re_match rx_branch text = None then None
        else case re_search rx_target text of
               None \<Rightarrow> None
             | Some m \<Rightarrow>
                 (let target = int16 (drop 2 (group m 1)) in
                  if lo \<le> target \<and> target < addr then Some (target, addr) else None))"

definition back_edges :: "(int \<times> string) list \<Rightarrow> int \<Rightarrow> (int \<times> int) list" where
  "back_edges body lo = sort_key (\<lambda>e. snd e - fst e) (List.map_filter (back_edge lo) body)"

definition encloses_another :: "(int \<times> int) list \<Rightarrow> int \<times> int \<Rightarrow> bool" where
  "encloses_another edges p =
     list_ex (\<lambda>e. fst p \<le> fst e \<and> snd e \<le> snd p \<and> e \<noteq> p) edges"

definition span_text :: "(int \<times> string) list \<Rightarrow> int \<times> int \<Rightarrow> string list" where
  "span_text body p = map snd (filter (\<lambda>r. fst p \<le> fst r \<and> fst r \<le> snd p) body)"

definition loop_key :: "int \<times> int \<Rightarrow> loop_stat \<Rightarrow> int \<times> int" where
  "loop_key p st = (ls_fp st, - (snd p - fst p))"

fun hot_scan ::
  "(int \<times> string) list \<Rightarrow> (int \<times> int) list \<Rightarrow> ((int \<times> int) \<times> loop_stat) option
    \<Rightarrow> (int \<times> int) list \<Rightarrow> py_error + ((int \<times> int) \<times> loop_stat) option" where
  "hot_scan body edges best [] = Inr best"
| "hot_scan body edges best (p # ps) =
     (if encloses_another edges p then hot_scan body edges best ps
      else bindE (loop_stats (span_text body p)) (\<lambda>st.
        if ls_fp st = 0 then hot_scan body edges best ps
        else let key = loop_key p st in
             hot_scan body edges
               (case best of None \<Rightarrow> Some (key, st)
                | Some (k, s) \<Rightarrow> if k < key then Some (key, st) else best) ps))"

definition hot_loop :: "(int \<times> string) list \<Rightarrow> int \<Rightarrow> py_error + loop_stat option" where
  "hot_loop body lo =
     (let edges = back_edges body lo in
      case edges of [] \<Rightarrow> Inr None
      | p # _ \<Rightarrow>
          bindE (hot_scan body edges None edges) (\<lambda>best.
            case best of Some (k, st) \<Rightarrow> Inr (Some st)
            | None \<Rightarrow> bindE (loop_stats (span_text body p)) (\<lambda>st. Inr (Some st))))"

section \<open>The census\<close>

datatype kfield = Size | Frame | Ins | Fp | Loads | Stores | Stack | Split | Join

definition FIELDS :: "kfield list" where
  "FIELDS = [Size, Frame, Ins, Fp, Loads, Stores, Stack, Split, Join]"

type_synonym entry = "kfield \<Rightarrow> int"

definition mk_entry :: "int \<Rightarrow> int \<Rightarrow> loop_stat option \<Rightarrow> entry" where
  "mk_entry sz frame st = (\<lambda>f. case f of
      Size \<Rightarrow> sz | Frame \<Rightarrow> frame
    | Ins \<Rightarrow> (case st of None \<Rightarrow> 0 | Some s \<Rightarrow> ls_ins s)
    | Fp \<Rightarrow> (case st of None \<Rightarrow> 0 | Some s \<Rightarrow> ls_fp s)
    | Loads \<Rightarrow> (case st of None \<Rightarrow> 0 | Some s \<Rightarrow> ls_loads s)
    | Stores \<Rightarrow> (case st of None \<Rightarrow> 0 | Some s \<Rightarrow> ls_stores s)
    | Stack \<Rightarrow> (case st of None \<Rightarrow> 0 | Some s \<Rightarrow> ls_stack s)
    | Split \<Rightarrow> (case st of None \<Rightarrow> 0 | Some s \<Rightarrow> ls_split s)
    | Join \<Rightarrow> (case st of None \<Rightarrow> 0 | Some s \<Rightarrow> ls_join s))"

definition rx_frame :: rx where
  "rx_frame = seqs [str ''addi'', plus sp, str ''sp, sp, -0x'', Grp 1 (plus hx)]"

text \<open>The loop over \<open>body[:3]\<close>: the last prologue match wins.\<close>

definition frame_of :: "(int \<times> string) list \<Rightarrow> int" where
  "frame_of body = foldl (\<lambda>frame r. case re_search rx_frame (snd r) of
      None \<Rightarrow> frame | Some m \<Rightarrow> int16 (group m 1)) 0 (take 3 body)"

fun census_syms ::
  "(int \<times> string) list \<Rightarrow> (string \<times> entry) list \<Rightarrow> (int \<times> string) list
    \<Rightarrow> py_error + (string \<times> entry) list" where
  "census_syms rows out [] = Inr out"
| "census_syms rows out ((addr, name) # syms) =
     (if name \<in> NOT_KERNELS then census_syms rows out syms
      else let end_addr = (case syms of [] \<Rightarrow> addr + 0x10000 | s # _ \<Rightarrow> fst s);
               body = filter (\<lambda>r. addr \<le> fst r \<and> fst r < end_addr) rows
           in if body = [] then census_syms rows out syms
              else bindE (hot_loop body addr) (\<lambda>st.
                census_syms rows
                  (AList.update name (mk_entry (int (length body)) (frame_of body) st) out) syms))"

definition census :: "string \<Rightarrow> py_error + (string \<times> entry) list" where
  "census text = (case parse text of (rows, syms) \<Rightarrow> census_syms rows [] syms)"

section \<open>The report and the gate\<close>

text \<open>A baseline entry as loaded: a field may be missing, \<open>b.get(field)\<close> is then \<open>None\<close>.\<close>

type_synonym base_entry = "kfield \<Rightarrow> int option"

definition concerns_of :: "(string \<times> entry) list \<Rightarrow> (string \<times> int \<times> int) list" where
  "concerns_of measured =
     List.map_filter (\<lambda>name. case map_of measured name of None \<Rightarrow> None
       | Some m \<Rightarrow> if m Stack \<noteq> 0 \<or> m Split \<noteq> 0 then Some (name, m Stack, m Split) else None)
     (sort (map fst measured))"

text \<open>The ranking printed for the shipping kernels: cost per float operation, highest first.\<close>

definition ranked :: "(string \<times> entry) list \<Rightarrow> (string \<times> krole) list \<Rightarrow> (rat \<times> string) list" where
  "ranked measured roles =
     rev (sort (List.map_filter (\<lambda>(n, m).
       if m Fp \<noteq> 0 \<and> role_of n roles = SHIPS then Some (of_int (m Ins) / of_int (m Fp), n) else None)
       measured))"

definition words_per_fp :: "entry \<Rightarrow> rat" where
  "words_per_fp m = of_int (m Loads + m Stores) / of_int (m Fp)"

definition moved_fields ::
  "(string \<times> entry) list \<Rightarrow> (string \<times> base_entry) list
    \<Rightarrow> (string \<times> kfield \<times> int option \<times> int) list" where
  "moved_fields measured baseline =
     concat (map (\<lambda>(name, m). case map_of baseline name of None \<Rightarrow> []
       | Some b \<Rightarrow> List.map_filter (\<lambda>f. if Some (m f) \<noteq> b f then Some (name, f, b f, m f) else None) FIELDS)
     (sort_key fst measured))"

definition added_kernels :: "(string \<times> entry) list \<Rightarrow> (string \<times> base_entry) list \<Rightarrow> string list" where
  "added_kernels measured baseline =
     filter (\<lambda>n. map_of baseline n = None) (sort (map fst measured))"

definition gone_kernels :: "(string \<times> entry) list \<Rightarrow> (string \<times> base_entry) list \<Rightarrow> string list" where
  "gone_kernels measured baseline =
     filter (\<lambda>n. map_of measured n = None) (sort (map fst baseline))"

definition stale_roles :: "(string \<times> entry) list \<Rightarrow> (string \<times> krole) list \<Rightarrow> string list" where
  "stale_roles measured roles = sort (filter (\<lambda>n. map_of measured n = None) (map fst roles))"

definition report ::
  "(string \<times> entry) list \<Rightarrow> (string \<times> base_entry) list option \<Rightarrow> (string \<times> krole) list
    \<Rightarrow> bool \<times> (string \<times> int \<times> int) list" where
  "report measured baseline roles =
     (case baseline of None \<Rightarrow> (True, concerns_of measured)
      | Some b \<Rightarrow>
          (moved_fields measured b = [] \<and> added_kernels measured b = [] \<and> gone_kernels measured b = []
           \<and> stale_roles measured roles = [], concerns_of measured))"

text \<open>\<open>run\<close>: the files are the ELF's disassembly (\<open>None\<close> when the ELF is missing, \<open>Inl\<close> when objdump
  fails) and the stored baseline.  The result is the exit code and the baseline afterwards.\<close>

definition to_base :: "(string \<times> entry) list \<Rightarrow> (string \<times> base_entry) list" where
  "to_base measured = map (\<lambda>(n, m). (n, \<lambda>f. Some (m f))) measured"

definition elf_path :: "string \<Rightarrow> string" where
  "elf_path vxbin =
     (if suffix ''.vxbin'' vxbin then take (length vxbin - 6) vxbin @ ''.elf'' else vxbin)"

definition run ::
  "(string \<Rightarrow> (py_error + string) option) \<Rightarrow> string \<Rightarrow> bool \<Rightarrow> (string \<times> base_entry) list option
    \<Rightarrow> py_error + (int \<times> (string \<times> base_entry) list option)" where
  "run disassemble vxbin regenerate stored =
     (case disassemble (elf_path vxbin) of None \<Rightarrow> Inr (77, stored)
      | Some text \<Rightarrow>
          bindE text (\<lambda>t. bindE (census t) (\<lambda>measured.
            if measured = [] then Inr (1, stored)
            else let baseline = (if regenerate then None else stored);
                     ok = fst (report measured baseline ROLES)
                 in if regenerate then Inr (0, Some (to_base measured))
                    else case baseline of None \<Rightarrow> Inr (0, stored)
                         | Some _ \<Rightarrow> Inr (if ok then 0 else 1, stored))))"

section \<open>The self-test\<close>

definition SAMPLE :: string where
  "SAMPLE = concat (map (\<lambda>l. l @ [NL])
     ['''',
      ''0000000180000000 <kernel_a>:'',
      ''180000000: 00000013  addi'' @ [TAB] @ ''sp, sp, -0x40'',
      ''180000004: 00000013  flw'' @ [TAB] @ ''ft0, 0x0(a0)'',
      ''180000008: 00000013  fmadd.s'' @ [TAB] @ ''ft1, ft0, ft0, ft1'',
      ''18000000c: 00000013  addi'' @ [TAB] @ ''a0, a0, 0x4'',
      ''180000010: 00000013  bnez'' @ [TAB] @ ''a1, 0x180000004 <kernel_a+0x4>'',
      ''180000014: 00000013  ret'',
      ''0000000180000018 <kernel_b>:'',
      ''180000018: 00000013  addi'' @ [TAB] @ ''sp, sp, -0x80'',
      ''18000001c: 00000013  vx_split'' @ [TAB] @ ''a0'',
      ''180000020: 00000013  flw'' @ [TAB] @ ''ft0, 0x8(sp)'',
      ''180000024: 00000013  fadd.s'' @ [TAB] @ ''ft1, ft0, ft1'',
      ''180000028: 00000013  vx_join'' @ [TAB] @ ''a0'',
      ''18000002c: 00000013  bnez'' @ [TAB] @ ''a1, 0x18000001c <kernel_b+0x4>''])"

text \<open>The checks of \<open>self_test\<close> in order; a raise inside any of them ends it.\<close>

definition self_test :: "py_error + bool list" where
  "self_test = bindE (census SAMPLE) (\<lambda>c.
     case (map_of c ''kernel_a'', map_of c ''kernel_b'') of
       (Some a, Some b) \<Rightarrow>
         (let base = to_base c;
              bumped = AList.update ''kernel_a'' ((\<lambda>f. Some (a f))(Ins := Some (a Ins + 1))) base
          in Inr
          [sort (map fst c) = [''kernel_a'', ''kernel_b''],
           a Frame = 0x40, a Ins = 4, a Fp = 1, a Loads = 1, b Stack = 1,
           b Split = 1 \<and> b Join = 1,
           \<not> fst (report c (Some bumped) []),
           fst (report c (Some base) []),
           \<not> fst (report c (Some [(''kernel_a'', (\<lambda>f. Some (a f))(Ins := Some (a Ins + 1)))]) []),
           fst (report c (Some base) [(''kernel_a'', CONTROL)]),
           \<not> fst (report c (Some base) [(''gone_kernel'', CONTROL)]),
           role_of ''kernel_a'' ROLES = SHIPS, role_of ''sgemm_rb'' ROLES = CONTROL,
           map fst (snd (report c None [])) = [''kernel_b'']])
     | _ \<Rightarrow> Inl KeyError)"

section \<open>The loop that is chosen\<close>

lemma back_edges_sorted: "sorted (map (\<lambda>e. snd e - fst e) (back_edges body lo))"
  by (simp add: back_edges_def)

text \<open>An edge enclosed by another spans less.\<close>

lemma enclosed_shorter:
  assumes "fst p \<le> fst e" "snd e \<le> snd p" "e \<noteq> (p :: int \<times> int)"
  shows "snd e - fst e < snd p - fst p"
  using assms by (cases e; cases p) auto

lemma first_edge_innermost:
  assumes "back_edges body lo = p # ps"
  shows "\<not> encloses_another (back_edges body lo) p"
proof
  assume "encloses_another (back_edges body lo) p"
  then obtain e where e: "e \<in> set (back_edges body lo)" "fst p \<le> fst e" "snd e \<le> snd p" "e \<noteq> p"
    by (auto simp: encloses_another_def list_ex_iff)
  have "snd p - fst p \<le> snd e - fst e"
    using back_edges_sorted[of body lo] e(1) by (auto simp: assms)
  then show False using enclosed_shorter[OF e(2-4)] by simp
qed

text \<open>The candidates of the scan: innermost edges with float work, and their keys.\<close>

definition candidate :: "(int \<times> string) list \<Rightarrow> (int \<times> int) list \<Rightarrow> int \<times> int \<Rightarrow> loop_stat \<Rightarrow> bool" where
  "candidate body edges p st \<longleftrightarrow> p \<in> set edges \<and> \<not> encloses_another edges p
     \<and> loop_stats (span_text body p) = Inr st \<and> ls_fp st \<noteq> 0"

lemma candidate_edge: "candidate body edges p st \<Longrightarrow> p \<in> set edges"
  by (simp add: candidate_def)

lemma hot_scan_best:
  assumes "hot_scan body edges best ps = Inr res" "set ps \<subseteq> set edges"
    and "\<And>k s. best = Some (k, s) \<Longrightarrow> \<exists>p. candidate body edges p s \<and> k = loop_key p s"
  shows "(\<forall>k s. res = Some (k, s) \<longrightarrow> (\<exists>p. candidate body edges p s \<and> k = loop_key p s))
    \<and> (\<forall>p st. p \<in> set ps \<and> candidate body edges p st \<longrightarrow> (\<exists>k s. res = Some (k, s) \<and> loop_key p st \<le> k))
    \<and> (\<forall>k s. best = Some (k, s) \<longrightarrow> (\<exists>k' s'. res = Some (k', s') \<and> k \<le> k'))"
  using assms
proof (induction ps arbitrary: best)
  case (Cons p ps)
  show ?case
  proof (cases "encloses_another edges p")
    case True
    then show ?thesis using Cons.IH[of best] Cons.prems by (auto simp: candidate_def)
  next
    case False
    then obtain st where st: "loop_stats (span_text body p) = Inr st"
      using Cons.prems(1) by (auto simp: bindE_Inr)
    show ?thesis
    proof (cases "ls_fp st = 0")
      case True
      then show ?thesis using Cons.IH[of best] Cons.prems st False by (auto simp: candidate_def)
    next
      case fp: False
      define best' where "best' = (case best of None \<Rightarrow> Some (loop_key p st, st)
        | Some (k, s) \<Rightarrow> if k < loop_key p st then Some (loop_key p st, st) else best)"
      have cand: "candidate body edges p st"
        using fp st False Cons.prems(2) by (simp add: candidate_def)
      have run: "hot_scan body edges best' ps = Inr res"
        using Cons.prems(1) False st fp unfolding best'_def by (simp add: Let_def)
      have b': "\<exists>q. candidate body edges q s \<and> k = loop_key q s" if "best' = Some (k, s)" for k s
      proof (cases "best = Some (k, s)")
        case False
        then have "k = loop_key p st" "s = st"
          using that by (auto simp: best'_def split: option.splits if_splits)
        then show ?thesis using cand by blast
      qed (use Cons.prems(3) in blast)
      obtain k0 s0 where k0: "best' = Some (k0, s0)" "loop_key p st \<le> k0"
        "\<And>k s. best = Some (k, s) \<Longrightarrow> k \<le> k0"
      proof (cases best)
        case (Some b)
        obtain kb sb where "b = (kb, sb)" by (cases b)
        then show ?thesis
          using that[of "if kb < loop_key p st then loop_key p st else kb"
              "if kb < loop_key p st then st else sb"] Some
          by (cases "kb < loop_key p st") (simp_all add: best'_def linorder_not_less less_imp_le)
      qed (simp add: best'_def that)
      have IH: "(\<forall>k s. res = Some (k, s) \<longrightarrow> (\<exists>p. candidate body edges p s \<and> k = loop_key p s))
        \<and> (\<forall>p st. p \<in> set ps \<and> candidate body edges p st \<longrightarrow> (\<exists>k s. res = Some (k, s) \<and> loop_key p st \<le> k))
        \<and> (\<forall>k s. best' = Some (k, s) \<longrightarrow> (\<exists>k' s'. res = Some (k', s') \<and> k \<le> k'))"
        using Cons.IH[OF run _ b'] Cons.prems(2) by auto
      then obtain k1 s1 where k1: "res = Some (k1, s1)" "k0 \<le> k1" using k0(1) by blast
      have same: "st' = st" if "candidate body edges p st'" for st'
        using that st by (simp add: candidate_def)
      show ?thesis
        using IH k1 k0 same by (auto intro: order_trans)
    qed
  qed
qed auto


text \<open>[C9] The choice of the hot loop.  No loop is reported exactly when the kernel has no backward
  branch.  Otherwise the numbers are those of an innermost loop, and no innermost loop with float
  work has a greater key (float operations first, then the shorter span): if there is such a loop,
  the one reported has float work too.\<close>

theorem hot_loop_choice:
  assumes "hot_loop body lo = Inr res" and edges_def: "edges = back_edges body lo"
  shows "(res = None \<longleftrightarrow> edges = [])
    \<and> (\<forall>st. res = Some st \<longrightarrow>
         (\<exists>p \<in> set edges. \<not> encloses_another edges p \<and> loop_stats (span_text body p) = Inr st
           \<and> (\<forall>q sq. candidate body edges q sq \<longrightarrow> ls_fp st \<noteq> 0 \<and> loop_key q sq \<le> loop_key p st)))"
proof (cases edges)
  case Nil
  then show ?thesis using assms by (auto simp: hot_loop_def)
next
  case (Cons p ps)
  have H: "bindE (hot_scan body edges None edges) (\<lambda>best. case best of Some (k, st) \<Rightarrow> Inr (Some st)
      | None \<Rightarrow> bindE (loop_stats (span_text body p)) (\<lambda>st. Inr (Some st))) = Inr res"
    using assms(1) Cons[symmetric] by (auto simp: hot_loop_def edges_def[symmetric] Let_def)
  then obtain best where best: "hot_scan body edges None edges = Inr best"
    "(case best of Some (k, st) \<Rightarrow> Inr (Some st)
      | None \<Rightarrow> bindE (loop_stats (span_text body p)) (\<lambda>st. Inr (Some st))) = Inr res"
    by (auto simp: bindE_Inr)
  note scan = hot_scan_best[OF best(1)]
  show ?thesis
  proof (cases best)
    case None
    then obtain st where st: "loop_stats (span_text body p) = Inr st" "res = Some st"
      using best(2) by (auto simp: bindE_Inr)
    have none: "\<not> candidate body edges q sq" for q sq
      using scan None candidate_edge by blast
    have "\<not> encloses_another edges p" "p \<in> set edges"
      using Cons first_edge_innermost[of body lo p ps] by (simp_all add: edges_def)
    then show ?thesis using st Cons none by blast
  next
    case (Some b)
    obtain k s where b: "b = (k, s)" by (cases b)
    then have res: "res = Some s" using best(2) Some by simp
    obtain p' where p': "candidate body edges p' s" "k = loop_key p' s"
      using scan Some b by auto
    have "loop_key q sq \<le> k" if c: "candidate body edges q sq" for q sq
      using scan Some b c candidate_edge[OF c] by fastforce
    moreover have "p' \<in> set edges" "\<not> encloses_another edges p'"
      "loop_stats (span_text body p') = Inr s" "ls_fp s \<noteq> 0"
      using p'(1) by (simp_all add: candidate_def)
    ultimately show ?thesis using res p'(2) Cons by blast
  qed
qed

text \<open>A kernel whose float work is in an outer loop around an integer loop, and one with two float
  loops.\<close>

definition OUTER_FLOAT :: "(int \<times> string) list" where
  "OUTER_FLOAT =
     [(0, ''fmadd.s ft0, ft1, ft1, ft0''), (4, ''addi a0, a0, 1''), (8, ''bnez a0, 0x4 <k>''),
      (12, ''bnez a1, 0x0 <k>'')]"

definition TWO_FLOAT :: "(int \<times> string) list" where
  "TWO_FLOAT =
     [(0, ''fmadd.s ft0, ft1, ft1, ft0''), (4, ''bnez a0, 0x0 <k>''), (8, ''fadd.s ft0, ft1, ft0''),
      (12, ''fmul.s ft0, ft1, ft0''), (16, ''bnez a1, 0x8 <k>'')]"

lemma TWO_FLOAT_run:
  "hot_loop TWO_FLOAT 0 = Inr (Some \<lparr>ls_ins = 3, ls_fp = 2, ls_loads = 0, ls_stores = 0, ls_stack = 0,
     ls_split = 0, ls_join = 0\<rparr>)"
  "back_edges TWO_FLOAT 0 = [(0, 4), (8, 16)]"
  by code_simp+

theorem hot_loop_choice_witness:
  "\<exists>st. hot_loop TWO_FLOAT 0 = Inr (Some st)
    \<and> (\<exists>p \<in> {(0, 4), (8, 16)}. \<not> encloses_another [(0, 4), (8, 16)] p
         \<and> loop_stats (span_text TWO_FLOAT p) = Inr st)"
proof -
  note hot_loop_choice[OF TWO_FLOAT_run(1) refl, unfolded TWO_FLOAT_run(2)]
  then show ?thesis using TWO_FLOAT_run(1) by auto
qed

section \<open>When the gate is green\<close>

lemma set_FIELDS: "f \<in> set FIELDS"
  by (cases f) (simp_all add: FIELDS_def)

lemma moved_fields_empty:
  "moved_fields measured b = [] \<longleftrightarrow>
     (\<forall>n m. (n, m) \<in> set measured \<longrightarrow> (\<forall>e. map_of b n = Some e \<longrightarrow> (\<forall>f. e f = Some (m f))))"
proof -
  have "(List.map_filter (\<lambda>f. if Some (m f) \<noteq> e f then Some (n, f, e f, m f) else None) FIELDS = [])
      = (\<forall>f. e f = Some (m f))" for n :: string and m and e :: base_entry
    using set_FIELDS by (auto simp: map_filter_def filter_empty_conv)
  then have "(case map_of b n of None \<Rightarrow> []
       | Some e \<Rightarrow> List.map_filter (\<lambda>f. if Some (m f) \<noteq> e f then Some (n, f, e f, m f) else None) FIELDS) = []
      \<longleftrightarrow> (\<forall>e. map_of b n = Some e \<longrightarrow> (\<forall>f. e f = Some (m f)))" for n m
    by (simp split: option.splits)
  then have "moved_fields measured b = [] \<longleftrightarrow>
      (\<forall>x \<in> set measured. \<forall>e. map_of b (fst x) = Some e \<longrightarrow> (\<forall>f. e f = Some (snd x f)))"
    by (simp add: moved_fields_def split_beta)
  then show ?thesis by auto
qed

lemma added_kernels_empty: "added_kernels measured b = [] \<longleftrightarrow> fst ` set measured \<subseteq> fst ` set b"
  by (auto simp: added_kernels_def filter_empty_conv map_of_eq_None_iff)

lemma gone_kernels_empty: "gone_kernels measured b = [] \<longleftrightarrow> fst ` set b \<subseteq> fst ` set measured"
  by (auto simp: gone_kernels_def filter_empty_conv map_of_eq_None_iff)

lemma stale_roles_empty: "stale_roles measured roles = [] \<longleftrightarrow> fst ` set roles \<subseteq> fst ` set measured"
  by (auto simp: stale_roles_def filter_empty_conv map_of_eq_None_iff
      simp flip: set_empty2 dest!: equalityD1)

text \<open>[C11] The gate is green exactly when the image and the baseline name the same kernels, every
  kernel agrees with its baseline entry in all nine fields, and every kernel of the role table is
  in the image; with no baseline there is nothing to fail.\<close>

theorem report_green:
  "fst (report measured None roles)
   \<and> (fst (report measured (Some b) roles) \<longleftrightarrow>
        fst ` set measured = fst ` set b
        \<and> (\<forall>n m. (n, m) \<in> set measured \<longrightarrow> (\<forall>e. map_of b n = Some e \<longrightarrow> (\<forall>f. e f = Some (m f))))
        \<and> fst ` set roles \<subseteq> fst ` set measured)"
  by (auto simp: report_def moved_fields_empty added_kernels_empty gone_kernels_empty stale_roles_empty)

theorem report_green_witness:
  "fst (report [(''k'', \<lambda>_. 1)] (Some [(''k'', \<lambda>_. Some 1)]) []) \<and>
   \<not> fst (report [(''k'', \<lambda>_. 1)] (Some [(''k'', \<lambda>_. None)]) [])"
  using report_green[of "[(''k'', \<lambda>_. 1)]" "[]" "[(''k'', \<lambda>_. Some 1)]"]
    report_green[of "[(''k'', \<lambda>_. 1)]" "[]" "[(''k'', \<lambda>_. None)]"]
  by simp

section \<open>The census is a dictionary, and storing it makes the gate green\<close>

lemma census_syms_distinct:
  "census_syms rows out syms = Inr c \<Longrightarrow> distinct (map fst out) \<Longrightarrow> distinct (map fst c)"
  by (induction rows out syms rule: census_syms.induct)
    (auto simp: Let_def bindE_Inr AList.distinct_update split: if_splits)

lemma census_distinct: "census text = Inr c \<Longrightarrow> distinct (map fst c)"
  by (auto simp: census_def split: prod.splits dest: census_syms_distinct)

lemma to_base_same: "distinct (map fst m) \<Longrightarrow> (n, e) \<in> set m \<Longrightarrow> map_of (to_base m) n = Some (\<lambda>f. Some (e f))"
  by (simp add: to_base_def map_of_map)

lemma fst_to_base [simp]: "fst ` set (to_base m) = fst ` set m"
  by (force simp: to_base_def)

lemma report_own_baseline:
  assumes "distinct (map fst m)"
  shows "fst (report m (Some (to_base m)) roles) \<longleftrightarrow> stale_roles m roles = []"
  using assms by (auto simp: report_def moved_fields_empty added_kernels_empty gone_kernels_empty to_base_same)

text \<open>Regenerating stores the census with exit code 0, and the next run on the same image then
  exits 0 exactly when no kernel of the role table is missing: regenerating cannot hide a stale
  role.\<close>

lemma regenerate_then_run:
  assumes "disassemble (elf_path vxbin) = Some (Inr text)" "census text = Inr measured" "measured \<noteq> []"
  shows "run disassemble vxbin True stored = Inr (0, Some (to_base measured))
    \<and> run disassemble vxbin False (Some (to_base measured))
        = Inr (if fst ` set ROLES \<subseteq> fst ` set measured then 0 else 1, Some (to_base measured))"
  using assms report_own_baseline[OF census_distinct[OF assms(2)], of ROLES]
  by (simp add: run_def Let_def stale_roles_empty)

text \<open>Every check of the self-test holds on its sample image: the model reads the listing,
  finds the two loops, counts them, and the gate turns red on each of the seeded changes.\<close>

lemma self_test_passes: "self_test = Inr (replicate 15 True)"
  by code_simp

text \<open>The fallback is taken although the kernel has float work: the outer loop has it, the
  innermost loop has none, and the loop reported has no float operation.\<close>

lemma fallback_despite_float_work:
  "back_edges OUTER_FLOAT 0 = [(4, 8), (0, 12)]
   \<and> map_sum id ls_fp (loop_stats (span_text OUTER_FLOAT (0, 12))) = Inr 1
   \<and> map_sum id (map_option ls_fp) (hot_loop OUTER_FLOAT 0) = Inr (Some 0)"
  by code_simp

end
