(* ===== verification/Compat_Table.thy ===== *)
theory Compat_Table
  imports Py_Text
begin

text \<open>
  \<^verbatim>\<open>ci/check_compat_table.py\<close>: the CUDA table, the compatibility header and the public headers have
  to agree.  The three files are the arguments of \<open>main\<close>; the result is the exit code and the list of
  problems.  The lemmas say when the check passes and what passing means for the text of the files.
\<close>

section \<open>The patterns\<close>

definition rx_define :: rx where
  "rx_define = seqs [str ''#define'', plus sp, Grp 1 (Seq (str ''cuda'') (plus wd))]"

definition rx_decl :: rx where
  "rx_decl = seqs [Bound, Grp 1 (Seq (str ''grx'') (plus wd)), star sp, lit CHR ''('']"

definition rx_entry :: "string \<Rightarrow> rx" where
  "rx_entry macro = seqs [str macro, lit CHR ''('', star sp, Grp 1 (plus wd), star sp, lit CHR '','',
     star sp, Grp 2 (star wd), star sp, lit CHR '','', star sp, Grp 3 (plus wd)]"

section \<open>The check\<close>

datatype ekind = Function | Type

record compat_entry =
  e_cuda :: string
  e_grx :: string
  e_status :: string
  e_kind :: ekind

definition table_of :: "string \<Rightarrow> string" where
  "table_of text = join [NL]
     (filter (\<lambda>line. \<not> (prefix ''#define'' (lstrip line) \<or> prefix ''//'' (lstrip line))) (splitlines text))"

definition compat_defines :: "string \<Rightarrow> string set" where
  "compat_defines hdr = set (map (\<lambda>m. group m 1) (re_finditer rx_define hdr))"

definition runtime_decls :: "string list \<Rightarrow> string set" where
  "runtime_decls headers = set (map (\<lambda>m. group m 1) (re_finditer rx_decl (join [NL] headers)))"

definition entries_of :: "string \<Rightarrow> ekind \<Rightarrow> string \<Rightarrow> compat_entry list" where
  "entries_of macro kind table =
     map (\<lambda>m. \<lparr>e_cuda = group m 1, e_grx = group m 2, e_status = group m 3, e_kind = kind\<rparr>)
       (re_finditer (rx_entry macro) table)"

definition entries :: "string \<Rightarrow> compat_entry list" where
  "entries table = entries_of ''GRX_CUDA_API'' Function table @ entries_of ''GRX_CUDA_TYPE'' Type table"

datatype problem =
    Absent_Named string string
  | Absent_Defined string
  | No_Symbol string string
  | Not_Defined string string
  | Not_Declared string string

definition entry_problems :: "string set \<Rightarrow> string set \<Rightarrow> compat_entry \<Rightarrow> problem list" where
  "entry_problems defines decls e =
     (if e_status e = ''ABSENT''
      then (if e_grx e \<noteq> [] then [Absent_Named (e_cuda e) (e_grx e)] else [])
           @ (if e_cuda e \<in> defines then [Absent_Defined (e_cuda e)] else [])
      else if e_grx e = [] then [No_Symbol (e_cuda e) (e_status e)]
      else (if prefix ''cuda'' (e_cuda e) \<and> e_cuda e \<notin> defines
            then [Not_Defined (e_cuda e) (e_status e)] else [])
           @ (if e_kind e = Function \<and> e_grx e \<notin> decls
              then [Not_Declared (e_grx e) (e_cuda e)] else []))"

definition compat_main :: "string \<Rightarrow> string \<Rightarrow> string list \<Rightarrow> int \<times> problem list" where
  "compat_main table_text hdr headers =
     (let problems = concat (map (entry_problems (compat_defines hdr) (runtime_decls headers))
                        (entries (table_of table_text)))
      in (if problems = [] then 0 else 1, problems))"

section \<open>What passing means\<close>

lemma define_match:
  assumes "match_at rx_define pre suf = Some m"
  shows "\<exists>ws b. suf = ''#define'' @ ws @ group m 1 @ b \<and> ws \<noteq> [] \<and> (\<forall>c \<in> set ws. is_space c) \<and> \<not> at_word b"
proof -
  obtain ms where ms: "rmatch rx_define (pre, suf, []) = (m_pre m, m_rest m, m_groups m) # ms"
    using assms by (auto simp: match_at_def split: list.splits)
  from ms[unfolded rx_define_def seqs.simps] obtain u us where
    u: "u \<in> set (rmatch (str ''#define'') (pre, suf, []))"
      "rmatch (Seq (plus sp) (Grp 1 (Seq (str ''cuda'') (plus wd)))) u = (m_pre m, m_rest m, m_groups m) # us"
    by (rule rmatch_Seq_first)
  from u(2) obtain v vs where v: "v \<in> set (rmatch (plus sp) u)"
      "rmatch (Grp 1 (Seq (str ''cuda'') (plus wd))) v = (m_pre m, m_rest m, m_groups m) # vs"
    by (rule rmatch_Seq_first)
  from u(1) obtain r where r: "suf = ''#define'' @ r" "u = (rev ''#define'' @ pre, r, [])"
    unfolding rmatch_str by blast
  obtain v1 v2 v3 where vv: "v = (v1, v2, v3)" by (cases v)
  from rmatch_plus[OF v(1)[unfolded r(2) vv]] obtain ws where
    ws: "ws \<noteq> []" "r = ws @ v2" "\<forall>c \<in> set ws. is_space c" by blast
  obtain x xs where x: "rmatch (Seq (str ''cuda'') (plus wd)) (v1, v2, v3) = x # xs"
      "(m_pre m, m_rest m, m_groups m) = (case x of (pre', suf', g') \<Rightarrow> (pre', suf', (1, rev (take (length pre' - length v1) pre')) # g'))"
    using v(2) vv by (auto simp: Cons_eq_map_conv simp del: rmatch.simps(3))
  from x(1) obtain y ys where y: "y \<in> set (rmatch (str ''cuda'') (v1, v2, v3))" "rmatch (plus wd) y = x # ys"
    by (rule rmatch_Seq_first)
  from y(1) obtain q where q: "v2 = ''cuda'' @ q" "y = (rev ''cuda'' @ v1, q, v3)"
    unfolding rmatch_str by blast
  have "x = (rev (takeWhile is_word q) @ rev ''cuda'' @ v1, dropWhile is_word q, v3)"
    using rmatch_plus_first[of is_word "rev ''cuda'' @ v1" q v3] y(2) unfolding q(2) by (auto simp del: rmatch.simps)
  then have "group m 1 = ''cuda'' @ takeWhile is_word q"
    using x(2) by (simp add: group_def group_opt_def)
  moreover have "q = takeWhile is_word q @ dropWhile is_word q" by simp
  moreover have "\<not> at_word (dropWhile is_word q)"
  proof (cases "dropWhile is_word q")
    case Nil
    show ?thesis unfolding Nil by (simp add: at_word_def)
  next
    case (Cons c r)
    have "\<not> is_word c" using hd_dropWhile[of is_word q] unfolding Cons by simp
    then show ?thesis unfolding Cons by (simp add: at_word_def)
  qed
  ultimately show ?thesis using r(1) ws q(1) by (metis append.assoc)
qed

lemma decl_match:
  assumes "match_at rx_decl pre suf = Some m"
  shows "\<exists>ws b. suf = group m 1 @ ws @ ''('' @ b \<and> (\<forall>c \<in> set ws. is_space c) \<and> \<not> at_word pre"
proof -
  note m = match_at_rmatch[OF assms, unfolded rx_decl_def seqs.simps]
  then obtain t u v where u: "t \<in> set (rmatch Bound (pre, suf, []))"
    "u \<in> set (rmatch (Grp 1 (Seq (str ''grx'') (plus wd))) t)"
    and v: "v \<in> set (rmatch (star sp) u)" "(m_pre m, m_rest m, m_groups m) \<in> set (rmatch (lit CHR ''('') v)"
    by (blast elim: rmatch_SeqE)
  from u(1) have t: "t = (pre, suf, [])" "at_word pre \<noteq> at_word suf" by (simp_all split: if_splits)
  from u(2)[unfolded t(1)] obtain w suf' g' where
    w: "suf = w @ suf'" "u = (rev w @ pre, suf', (1, w) # g')" "(rev w @ pre, suf', g') \<in> set (rmatch (Seq (str ''grx'') (plus wd)) (pre, suf, []))"
    by (rule rmatch_GrpE) simp
  from w(3) obtain y where "y \<in> set (rmatch (str ''grx'') (pre, suf, []))" by (rule rmatch_SeqE)
  then have "at_word suf" unfolding rmatch_str by (auto simp: at_word_def is_word_def is_lower_bits)
  obtain v1 v2 v3 where vv: "v = (v1, v2, v3)" by (cases v)
  from rmatch_star[OF v(1)[unfolded w(2) vv]] obtain ws where
    ws: "suf' = ws @ v2" "v3 = (1, w) # g'" "\<forall>c \<in> set ws. is_space c" by blast
  have "v2 = ''('' @ m_rest m" "m_groups m = v3"
    using v(2) vv by (auto split: list.splits if_splits)
  then show ?thesis using w ws t(2) \<open>at_word suf\<close> by (auto simp: group_def group_opt_def)
qed

text \<open>A whole word on a line of its own kind: the name a definition gives, and the name before an opening parenthesis.\<close>

definition defines_name :: "string \<Rightarrow> string \<Rightarrow> bool" where
  "defines_name hdr c \<longleftrightarrow> (\<exists>a ws b. hdr = a @ ''#define'' @ ws @ c @ b \<and> ws \<noteq> [] \<and> (\<forall>x \<in> set ws. is_space x) \<and> \<not> at_word b)"

definition names_call :: "string \<Rightarrow> string \<Rightarrow> bool" where
  "names_call text g \<longleftrightarrow> (\<exists>a ws b. text = a @ g @ ws @ ''('' @ b \<and> (\<forall>x \<in> set ws. is_space x) \<and> \<not> at_word (rev a))"

lemma defines_text: "c \<in> compat_defines hdr \<Longrightarrow> defines_name hdr c"
proof -
  assume "c \<in> compat_defines hdr"
  then obtain m where m: "m \<in> set (re_finditer rx_define hdr)" "c = group m 1"
    by (auto simp: compat_defines_def)
  obtain a where a: "hdr = a @ m_text m @ m_rest m"
    "match_at rx_define (rev a) (m_text m @ m_rest m) = Some m"
    using find_loop_match[OF m(1)[unfolded re_finditer_def]] by auto
  show ?thesis unfolding defines_name_def using define_match[OF a(2)] a(1) m(2) by metis
qed

lemma decls_text: "g \<in> runtime_decls headers \<Longrightarrow> names_call (join [NL] headers) g"
proof -
  assume "g \<in> runtime_decls headers"
  then obtain m where m: "m \<in> set (re_finditer rx_decl (join [NL] headers))" "g = group m 1"
    by (auto simp: runtime_decls_def)
  obtain a where a: "join [NL] headers = a @ m_text m @ m_rest m"
    "match_at rx_decl (rev a) (m_text m @ m_rest m) = Some m"
    using find_loop_match[OF m(1)[unfolded re_finditer_def]] by auto
  show ?thesis unfolding names_call_def using decl_match[OF a(2)] a(1) m(2) by metis
qed

lemma compat_main_ok:
  "fst (compat_main t hdr hs) = 0 \<longleftrightarrow>
     (\<forall>e \<in> set (entries (table_of t)). entry_problems (compat_defines hdr) (runtime_decls hs) e = [])"
  by (auto simp: compat_main_def Let_def)

text \<open>[C14] When the check exits 0, every entry found in the table that is not marked ABSENT names a GRX symbol; if its
  CUDA name starts with \<open>cuda\<close>, the compatibility header has a \<^verbatim>\<open>#define\<close> of exactly that name, as a whole word; and for a
  function, the public headers have exactly its GRX name, as a whole word, before an opening parenthesis.  An entry
  marked ABSENT names no symbol and is not among the names the header's pattern finds defined.\<close>

theorem compat_pass_means:
  assumes "fst (compat_main table_text hdr headers) = 0" "e \<in> set (entries (table_of table_text))"
  shows "(if e_status e = ''ABSENT'' then e_grx e = [] \<and> e_cuda e \<notin> compat_defines hdr
    else e_grx e \<noteq> []
      \<and> (prefix ''cuda'' (e_cuda e) \<longrightarrow> defines_name hdr (e_cuda e))
      \<and> (e_kind e = Function \<longrightarrow> names_call (join [NL] headers) (e_grx e)))"
proof -
  have "entry_problems (compat_defines hdr) (runtime_decls headers) e = []"
    using assms compat_main_ok by blast
  then show ?thesis
    using defines_text[of "e_cuda e" hdr] decls_text[of "e_grx e" headers]
    by (simp add: entry_problems_def split: if_splits)
qed

definition TBL :: string where
  "TBL = ''// GRX_CUDA_API(x, y, z)'' @ [NL] @ ''GRX_CUDA_API(cudaFree, grxFree, MAPPED, 0)'' @ [NL]
     @ ''GRX_CUDA_TYPE(cudaArray,, ABSENT)''"

definition HDR :: string where "HDR = ''#define cudaFree grxFree''"

lemma TBL_entries:
  "entries (table_of TBL) =
     [\<lparr>e_cuda = ''cudaFree'', e_grx = ''grxFree'', e_status = ''MAPPED'', e_kind = Function\<rparr>,
      \<lparr>e_cuda = ''cudaArray'', e_grx = [], e_status = ''ABSENT'', e_kind = Type\<rparr>]"
  by code_simp

lemma TBL_ok: "fst (compat_main TBL HDR [''int grxFree (void*);'']) = 0"
  by code_simp

theorem compat_pass_means_witness: "defines_name HDR ''cudaFree'' \<and> names_call ''int grxFree (void*);'' ''grxFree''"
  using compat_pass_means[OF TBL_ok, of
    "\<lparr>e_cuda = ''cudaFree'', e_grx = ''grxFree'', e_status = ''MAPPED'', e_kind = Function\<rparr>"]
  unfolding TBL_entries by simp

end
