(* ===== verification/Check_Docs.thy ===== *)
theory Check_Docs
  imports Py_Text "HOL-Library.AList"
begin

text \<open>
  \<^verbatim>\<open>ci/check_docs.py\<close>: every path, link and section reference of the documents has to resolve.  The
  tree is a record of what the script asks of the file system: the markdown files with their
  texts, the names of the top-level directories, whether a path exists, and what a glob finds.
  A path is the list of its parts as \<open>pathlib\<close> has it, the root of an absolute path included.
  The lemmas show that no reference is dropped and when the check is green.
\<close>

section \<open>Patterns\<close>

definition SKIP_DIRS :: "string list" where
  "SKIP_DIRS = [''.git'', ''_sync'', ''_to_delete'', ''__pycache__'']"

definition is_ident :: "char \<Rightarrow> bool" where
  "is_ident c \<longleftrightarrow> is_lower c \<or> is_upper c \<or> is_digit c \<or> c = CHR ''_''"

lemma is_ident_bits [code]:
  "is_ident (Char b0 b1 b2 b3 b4 b5 b6 b7) \<longleftrightarrow> \<not> b7 \<and>
     (if b6 then (if b4 then \<not> b3 \<or> \<not> b2 \<and> (\<not> b1 \<or> \<not> b0) \<or> \<not> b5 \<and> b2 \<and> b1 \<and> b0 else b0 \<or> b1 \<or> b2 \<or> b3)
      else b5 \<and> b4 \<and> (\<not> b3 \<or> \<not> b2 \<and> \<not> b1))"
  by (cases b0; cases b1; cases b2; cases b3; cases b4; cases b5; cases b6; cases b7;
      simp add: is_ident_def is_lower_def is_upper_def is_digit_def)

abbreviation path_chr :: "char \<Rightarrow> bool" where
  "path_chr c \<equiv> is_ident c \<or> c = CHR ''.'' \<or> c = CHR ''/'' \<or> c = CHR ''+'' \<or> c = CHR ''*'' \<or> c = CHR ''-''"

abbreviation doc_chr :: "char \<Rightarrow> bool" where
  "doc_chr c \<equiv> is_ident c \<or> c = CHR ''.'' \<or> c = CHR ''/'' \<or> c = CHR ''-''"

definition TICK :: char where "TICK = CHR 0x60"

definition BACKTICK_PATH :: rx where
  "BACKTICK_PATH = seqs [lit TICK,
     Grp 1 (seqs [Cls is_ident, star (Cls (\<lambda>c. path_chr c)), lit CHR ''/'', star (Cls (\<lambda>c. path_chr c))]),
     lit TICK]"

definition MD_LINK :: rx where
  "MD_LINK = seqs [str '']('', Grp 1 (plus (Cls (\<lambda>c. c \<noteq> CHR '')'' \<and> \<not> is_space c))), lit CHR '')'']"

definition rx_number :: rx where
  "rx_number = Seq (plus dg) (star (Seq (lit CHR ''.'') (plus dg)))"

definition rx_marker :: rx where
  "rx_marker = alts [Seq (lit SECT) (opt (lit CHR '' '')), str ''section '', str ''sec. '']"

definition NAMED_SECTION :: rx where
  "NAMED_SECTION = seqs
     [opt (lit TICK),
      Grp 1 (seqs [opt (Seq (star (Cls (\<lambda>c. doc_chr c))) (lit CHR ''/'')), plus (Cls is_ident), str ''.md'']),
      opt (lit TICK), star (Cls (\<lambda>c. c = CHR '' '' \<or> c = CHR '','')),
      Alt (Seq rx_marker (Grp 2 rx_number)) (Grp 3 (seqs [plus dg, lit CHR ''.'', plus dg]))]"

definition BARE_SECTION :: rx where
  "BARE_SECTION = Seq rx_marker (Grp 1 rx_number)"

definition HEADING :: rx where
  "HEADING = seqs
     [Bol, str ''##'', opt (Seq (lit CHR ''#'') (opt (Seq (lit CHR ''#'') (opt (Seq (lit CHR ''#'') (opt (lit CHR ''#''))))))),
      plus sp, Grp 1 rx_number, opt (lit CHR ''.''), Alt sp Eos]"

section \<open>The tree\<close>

type_synonym path = "string list"

record tree =
  t_root :: path
  t_md :: "(path \<times> string) list"
  t_dirs :: "string list"
  t_exists :: "path \<Rightarrow> bool"
  t_glob :: "path \<Rightarrow> string \<Rightarrow> py_error + bool"

text \<open>\<open>base / target\<close>: an absolute target replaces the base; empty parts and single dots go.\<close>

definition path_join :: "path \<Rightarrow> string \<Rightarrow> path" where
  "path_join base target =
     (let parts = filter (\<lambda>p. p \<noteq> [] \<and> p \<noteq> ''.'') (split_chr CHR ''/'' target)
      in if prefix ''/'' target then ''/'' # parts else base @ parts)"

definition skipped :: "path \<Rightarrow> bool" where
  "skipped rel = list_ex (\<lambda>p. p \<in> set SKIP_DIRS \<or> prefix ''build-'' p) (butlast rel)"

text \<open>The documents, sorted by path; the paths are relative to the root.\<close>

definition docs_of :: "tree \<Rightarrow> (path \<times> string) list" where
  "docs_of t = sort_key fst (filter (\<lambda>d. \<not> skipped (fst d)) (t_md t))"

definition doc_headings :: "string \<Rightarrow> string list" where
  "doc_headings text = List.map_filter (\<lambda>line. map_option (\<lambda>m. group m 1) (re_match HEADING line)) (splitlines text)"

text \<open>What \<open>scan\<close> computes before it reads a reference: the directories it adjudicates, the headings
  keyed by the full path, all of them pooled, and the first document of each name.\<close>

record env =
  root :: path
  exists :: "path \<Rightarrow> bool"
  glob :: "path \<Rightarrow> string \<Rightarrow> py_error + bool"
  repo_dirs :: "string list"
  headings :: "(path \<times> string list) list"
  all_headings :: "string list"
  by_basename :: "(string \<times> path) list"

definition env_of :: "tree \<Rightarrow> env" where
  "env_of t =
     (let docs = docs_of t;
          hs = map (\<lambda>d. (t_root t @ fst d, doc_headings (snd d))) docs
      in \<lparr>root = t_root t, exists = t_exists t, glob = t_glob t,
          repo_dirs = filter (\<lambda>d. \<not> prefix ''.'' d \<and> \<not> prefix ''build-'' d \<and> d \<notin> set SKIP_DIRS) (t_dirs t),
          headings = hs, all_headings = concat (map snd hs),
          by_basename = map (\<lambda>d. (last (fst d), t_root t @ fst d)) docs\<rparr>)"

definition resolves :: "env \<Rightarrow> path \<Rightarrow> string \<Rightarrow> py_error + bool" where
  "resolves v base target =
     (if list_ex (\<lambda>c. c \<in> set target) ''*?[''
      then case glob v base target of
             Inr b \<Rightarrow> Inr b
           | Inl e \<Rightarrow> if e = ValueError \<or> e = IndexError then Inr False else Inl e
      else Inr (exists v (path_join base target)))"

text \<open>\<open>resolves(a, target) or resolves(b, target)\<close>.\<close>

definition resolves_or :: "env \<Rightarrow> path \<Rightarrow> path \<Rightarrow> string \<Rightarrow> py_error + bool" where
  "resolves_or v a b target = bindE (resolves v a target) (\<lambda>r. if r then Inr True else resolves v b target)"

section \<open>Scanning\<close>

datatype rkind = PathRef | LinkRef | SectionRef

record scan_state =
  failures :: "(string \<times> nat \<times> rkind \<times> string) list"
  not_checked :: "(string \<times> (string \<times> nat \<times> string) list) list"
  n_paths :: nat
  n_links :: nat
  n_named :: nat
  n_bare :: nat

definition scan_init :: scan_state where
  "scan_init = \<lparr>failures = [], not_checked = [], n_paths = 0, n_links = 0, n_named = 0, n_bare = 0\<rparr>"

definition note_unchecked :: "string \<Rightarrow> string \<Rightarrow> nat \<Rightarrow> string \<Rightarrow> scan_state \<Rightarrow> scan_state" where
  "note_unchecked key doc lineno text st =
     st\<lparr>not_checked := AList.update key
          ((case map_of (not_checked st) key of None \<Rightarrow> [] | Some l \<Rightarrow> l) @ [(doc, lineno, text)]) (not_checked st)\<rparr>"

definition note_failure :: "string \<Rightarrow> nat \<Rightarrow> rkind \<Rightarrow> string \<Rightarrow> scan_state \<Rightarrow> scan_state" where
  "note_failure doc lineno kind text st = st\<lparr>failures := failures st @ [(doc, lineno, kind, text)]\<rparr>"

text \<open>Where a line is: the document's name as reported, its directory, and the line number.\<close>

record place =
  p_rel :: string
  p_here :: path
  p_line :: nat

definition check_path :: "env \<Rightarrow> place \<Rightarrow> string \<Rightarrow> scan_state \<Rightarrow> py_error + scan_state" where
  "check_path v p tgt st =
     (let target = rstrip_chr CHR ''/'' tgt in
      bindE (resolves_or v (root v) (p_here p) target) (\<lambda>r.
        if r then Inr (st\<lparr>n_paths := n_paths st + 1\<rparr>)
        else let head = split_head CHR ''/'' target in
             if head \<in> set (repo_dirs v)
             then Inr (note_failure (p_rel p) (p_line p) PathRef target (st\<lparr>n_paths := n_paths st + 1\<rparr>))
             else Inr (note_unchecked head (p_rel p) (p_line p) target st)))"

definition external_link :: "string \<Rightarrow> bool" where
  "external_link target = list_ex (\<lambda>p. prefix p target) [''http:'', ''https:'', ''mailto:'', ''#'', ''ftp:'']"

definition check_link :: "env \<Rightarrow> place \<Rightarrow> string \<Rightarrow> scan_state \<Rightarrow> py_error + scan_state" where
  "check_link v p tgt st =
     (if external_link tgt then Inr st
      else let target = split_head CHR ''#'' tgt in
        if target = [] then Inr st
        else bindE (resolves_or v (p_here p) (root v) target) (\<lambda>r.
          if r then Inr (st\<lparr>n_links := n_links st + 1\<rparr>)
          else let head = split_head CHR ''/'' target in
               if suffix ''.md'' target \<or> head \<in> set (repo_dirs v)
               then Inr (note_failure (p_rel p) (p_line p) LinkRef target (st\<lparr>n_links := n_links st + 1\<rparr>))
               else Inr (note_unchecked head (p_rel p) (p_line p) target st)))"

definition target_doc :: "env \<Rightarrow> place \<Rightarrow> string \<Rightarrow> path option" where
  "target_doc v p name =
     (if CHR ''/'' \<in> set name
      then List.find (exists v) [path_join (p_here p) name, path_join (root v) name]
      else map_of (by_basename v) name)"

text \<open>The section numbers of the document a named reference means, if it is one of ours.\<close>

definition named_nums :: "env \<Rightarrow> place \<Rightarrow> string \<Rightarrow> string list option" where
  "named_nums v p name = (case target_doc v p name of None \<Rightarrow> None | Some d \<Rightarrow> map_of (headings v) d)"

definition check_named :: "env \<Rightarrow> place \<Rightarrow> string \<times> string \<Rightarrow> scan_state \<Rightarrow> scan_state" where
  "check_named v p ref st =
     (case ref of (name, num) \<Rightarrow>
        (case named_nums v p name of
           None \<Rightarrow> note_unchecked name (p_rel p) (p_line p) (name @ '' '' @ num) st
         | Some nums \<Rightarrow>
             (let st' = st\<lparr>n_named := n_named st + 1\<rparr> in
              if num \<in> set nums then st'
              else note_failure (p_rel p) (p_line p) SectionRef (name @ '' '' @ num) st')))"

definition check_bare :: "env \<Rightarrow> place \<Rightarrow> string \<Rightarrow> scan_state \<Rightarrow> scan_state" where
  "check_bare v p num st =
     (let st' = st\<lparr>n_bare := n_bare st + 1\<rparr> in
      if num \<in> set (all_headings v) then st'
      else note_failure (p_rel p) (p_line p) SectionRef (SECT # num @ '' (no document)'') st')"

text \<open>What \<open>findall\<close> yields for one line.\<close>

definition line_paths :: "string \<Rightarrow> string list" where
  "line_paths line = map (\<lambda>m. group m 1) (re_finditer BACKTICK_PATH line)"

definition line_links :: "string \<Rightarrow> string list" where
  "line_links line = map (\<lambda>m. group m 1) (re_finditer MD_LINK line)"

definition line_named :: "string \<Rightarrow> (string \<times> string) list" where
  "line_named line = map (\<lambda>m. (group m 1, if group m 2 \<noteq> [] then group m 2 else group m 3))
     (re_finditer NAMED_SECTION line)"

definition line_bare :: "string \<Rightarrow> string list" where
  "line_bare line = map (\<lambda>m. group m 1) (re_finditer BARE_SECTION (re_sub NAMED_SECTION [] line))"

definition check_line :: "env \<Rightarrow> place \<Rightarrow> string \<Rightarrow> scan_state \<Rightarrow> py_error + scan_state" where
  "check_line v p line st =
     bindE (foldE (check_path v p) (line_paths line) st) (\<lambda>st1.
       bindE (foldE (check_link v p) (line_links line) st1) (\<lambda>st2.
         Inr (fold (check_bare v p) (line_bare line) (fold (check_named v p) (line_named line) st2))))"

text \<open>The lines of a document outside its fences, with their numbers.\<close>

fun prose_from :: "nat \<Rightarrow> bool \<Rightarrow> string list \<Rightarrow> (nat \<times> string) list" where
  "prose_from n fenced [] = []"
| "prose_from n fenced (line # ls) =
     (if prefix [TICK, TICK, TICK] (lstrip line) then prose_from (n + 1) (\<not> fenced) ls
      else if fenced then prose_from (n + 1) fenced ls
      else (n, line) # prose_from (n + 1) fenced ls)"

text \<open>The line loop as written: the fence state is carried along with the scan's state.\<close>

fun check_lines :: "env \<Rightarrow> string \<Rightarrow> path \<Rightarrow> nat \<Rightarrow> bool \<Rightarrow> string list \<Rightarrow> scan_state \<Rightarrow> py_error + scan_state" where
  "check_lines v rel here n fenced [] st = Inr st"
| "check_lines v rel here n fenced (line # ls) st =
     (if prefix [TICK, TICK, TICK] (lstrip line) then check_lines v rel here (n + 1) (\<not> fenced) ls st
      else if fenced then check_lines v rel here (n + 1) fenced ls st
      else bindE (check_line v \<lparr>p_rel = rel, p_here = here, p_line = n\<rparr> line st)
             (check_lines v rel here (n + 1) fenced ls))"

definition check_doc :: "env \<Rightarrow> path \<times> string \<Rightarrow> scan_state \<Rightarrow> py_error + scan_state" where
  "check_doc v d = check_lines v (join ''/'' (fst d)) (root v @ butlast (fst d)) 1 False (splitlines (snd d))"

definition scan :: "tree \<Rightarrow> py_error + scan_state" where
  "scan t = foldE (check_doc (env_of t)) (docs_of t) scan_init"

section \<open>The self-test and the entry point\<close>

definition FIXTURE :: "(path \<times> string) list" where
  "FIXTURE =
     [([''src'', ''real.cpp''], ''int main() { return 0; }'' @ [NL]),
      ([''b.md''], ''# B'' @ [NL, NL] @ ''## 2. Two'' @ [NL, NL] @ ''### 2.1 Two point one'' @ [NL]),
      ([''a.md''], join [NL]
        [''# A'', [],
         ''Good path '' @ [TICK] @ ''src/real.cpp'' @ [TICK] @ '', bad path '' @ [TICK] @ ''src/gone.cpp'' @ [TICK] @ ''.'',
         ''Good link [b](b.md), bad link [gone](missing.md).'',
         ''Good section b.md 2.1, bad section b.md 9.9.'',
         ''Good bare '' @ [SECT] @ ''2.1, bad bare '' @ [SECT] @ ''8.8.'',
         ''Not ours: '' @ [TICK] @ ''upstream/thing.cpp'' @ [TICK] @ '' and '' @ [TICK] @ ''upstream/notes.md'' @ [TICK]
           @ '' '' @ [SECT] @ ''4.'', [],
         [TICK, TICK, TICK],
         ''A planned tree, not a claim: '' @ [TICK] @ ''src/planned.cpp'' @ [TICK] @ '' [p](planned.md) '' @ [SECT] @ ''7.7'',
         [TICK, TICK, TICK], []])]"

text \<open>A tree that holds exactly the given files: a path exists if it is a file or above one.\<close>

definition tree_of :: "path \<Rightarrow> (path \<times> string) list \<Rightarrow> (path \<Rightarrow> string \<Rightarrow> py_error + bool) \<Rightarrow> tree" where
  "tree_of r files globf =
     \<lparr>t_root = r,
      t_md = filter (\<lambda>d. suffix ''.md'' (last (fst d))) files,
      t_dirs = remdups (map (hd \<circ> fst) (filter (\<lambda>d. 1 < length (fst d)) files)),
      t_exists = (let paths = map (\<lambda>d. r @ fst d) files in (\<lambda>p. list_ex (prefix p) paths)),
      t_glob = globf\<rparr>"

definition EXPECTED :: "(rkind \<times> string) list" where
  "EXPECTED = [(PathRef, ''src/gone.cpp''), (LinkRef, ''missing.md''), (SectionRef, ''b.md 9.9''),
     (SectionRef, SECT # ''8.8 (no document)'')]"

definition self_test_ok :: "scan_state \<Rightarrow> bool" where
  "self_test_ok st =
     (let got = map (\<lambda>f. (fst (snd (snd f)), snd (snd (snd f)))) (failures st) in
      list_all (\<lambda>e. e \<in> set got) EXPECTED \<and> list_all (\<lambda>g. g \<in> set EXPECTED) got
      \<and> 1 \<le> n_paths st \<and> 1 \<le> n_links st \<and> 2 \<le> n_named st \<and> 2 \<le> n_bare st
      \<and> map_of (not_checked st) ''upstream'' \<noteq> None \<and> map_of (not_checked st) ''upstream/notes.md'' \<noteq> None)"

definition self_test :: "path \<Rightarrow> (path \<Rightarrow> string \<Rightarrow> py_error + bool) \<Rightarrow> py_error + bool" where
  "self_test tmp globf = map_sum id self_test_ok (scan (tree_of tmp FIXTURE globf))"

definition main :: "path \<Rightarrow> (path \<Rightarrow> string \<Rightarrow> py_error + bool) \<Rightarrow> tree \<Rightarrow> py_error + int" where
  "main tmp globf t =
     bindE (self_test tmp globf) (\<lambda>ok.
       if \<not> ok then Inr 1
       else bindE (scan t) (\<lambda>st. Inr (if failures st \<noteq> [] then 1 else 0)))"

section \<open>No reference is dropped\<close>

definition total_unchecked :: "(string \<times> 'a list) list \<Rightarrow> nat" where
  "total_unchecked al = sum_list (map (\<lambda>e. length (snd e)) al)"

definition tally :: "scan_state \<Rightarrow> nat" where
  "tally st = n_paths st + n_links st + n_named st + total_unchecked (not_checked st)"

lemma total_update:
  "total_unchecked (AList.update k ((case map_of al k of None \<Rightarrow> [] | Some l \<Rightarrow> l) @ [x]) al)
     = Suc (total_unchecked al)"
  by (induction al) (auto simp: total_unchecked_def)

lemma total_note_unchecked [simp]:
  "total_unchecked (not_checked (note_unchecked k d n x st)) = Suc (total_unchecked (not_checked st))"
  by (simp add: note_unchecked_def total_update)

lemma note_simps [simp]:
  "n_paths (note_unchecked k d n x st) = n_paths st" "n_links (note_unchecked k d n x st) = n_links st"
  "n_named (note_unchecked k d n x st) = n_named st" "n_bare (note_unchecked k d n x st) = n_bare st"
  "failures (note_unchecked k d n x st) = failures st"
  "n_paths (note_failure d n r x st) = n_paths st" "n_links (note_failure d n r x st) = n_links st"
  "n_named (note_failure d n r x st) = n_named st" "n_bare (note_failure d n r x st) = n_bare st"
  "failures (note_failure d n r x st) = failures st @ [(d, n, r, x)]"
  "not_checked (note_failure d n r x st) = not_checked st"
  by (simp_all add: note_unchecked_def note_failure_def)

definition local_link :: "string \<Rightarrow> bool" where
  "local_link tgt \<longleftrightarrow> \<not> external_link tgt \<and> split_head CHR ''#'' tgt \<noteq> []"

text \<open>The references of kinds 1 to 3 on a line.\<close>

definition line_refs :: "string \<Rightarrow> nat" where
  "line_refs line = length (line_paths line) + length (filter local_link (line_links line)) + length (line_named line)"

lemma check_path_counts:
  "check_path v p x st = Inr st' \<Longrightarrow> tally st' = tally st + 1 \<and> n_bare st' = n_bare st"
  by (auto simp: check_path_def tally_def bindE_Inr Let_def split: if_splits)

lemma check_link_counts:
  "check_link v p x st = Inr st' \<Longrightarrow>
     tally st' = tally st + (if local_link x then 1 else 0) \<and> n_bare st' = n_bare st"
  by (auto simp: check_link_def local_link_def tally_def bindE_Inr Let_def split: if_splits)

lemma check_named_counts:
  "tally (check_named v p x st) = tally st + 1" "n_bare (check_named v p x st) = n_bare st"
  by (auto simp: check_named_def tally_def Let_def split: prod.splits option.splits)

lemma check_bare_counts:
  "tally (check_bare v p x st) = tally st" "n_bare (check_bare v p x st) = n_bare st + 1"
  by (auto simp: check_bare_def tally_def Let_def)

lemma sum_list_if_filter: "sum_list (map (\<lambda>x. if P x then 1 else 0) xs) = length (filter P xs)"
  by (induction xs) auto

lemma check_line_counts:
  assumes "check_line v p line st = Inr st'"
  shows "tally st' = tally st + line_refs line" "n_bare st' = n_bare st + length (line_bare line)"
proof -
  obtain s1 s2 where s1: "foldE (check_path v p) (line_paths line) st = Inr s1"
    and s2: "foldE (check_link v p) (line_links line) s1 = Inr s2"
    and st': "st' = fold (check_bare v p) (line_bare line) (fold (check_named v p) (line_named line) s2)"
    using assms by (auto simp: check_line_def bindE_Inr)
  have "tally s1 = tally st + length (line_paths line)" "n_bare s1 = n_bare st"
    using foldE_count[OF _ s1, of tally "\<lambda>_. 1"] foldE_count[OF _ s1, of n_bare "\<lambda>_. 0"] check_path_counts
    by (auto simp: sum_list_triv)
  moreover have "tally s2 = tally s1 + length (filter local_link (line_links line))" "n_bare s2 = n_bare s1"
    using foldE_count[OF _ s2, of tally "\<lambda>x. if local_link x then 1 else 0"]
      foldE_count[OF _ s2, of n_bare "\<lambda>_. 0"] check_link_counts by (auto simp: sum_list_if_filter)
  ultimately show "tally st' = tally st + line_refs line" "n_bare st' = n_bare st + length (line_bare line)"
    by (simp_all add: st' line_refs_def fold_count[of tally _ "\<lambda>_. 1"] fold_count[of tally _ "\<lambda>_. 0"]
        fold_count[of n_bare _ "\<lambda>_. 0"] fold_count[of n_bare _ "\<lambda>_. 1"] check_named_counts
        check_bare_counts sum_list_triv)
qed

text \<open>The line loop is a loop over the lines outside the fences.\<close>

lemma check_lines_prose:
  "check_lines v rel here n fenced ls st =
     foldE (\<lambda>nl. check_line v \<lparr>p_rel = rel, p_here = here, p_line = fst nl\<rparr> (snd nl)) (prose_from n fenced ls) st"
  by (induction v rel here n fenced ls st rule: check_lines.induct)
    (auto simp: bindE_def split: sum.splits)

definition prose :: "path \<times> string \<Rightarrow> (nat \<times> string) list" where
  "prose d = prose_from 1 False (splitlines (snd d))"

definition place_of :: "tree \<Rightarrow> path \<times> string \<Rightarrow> nat \<Rightarrow> place" where
  "place_of t d n = \<lparr>p_rel = join ''/'' (fst d), p_here = t_root t @ butlast (fst d), p_line = n\<rparr>"

lemma check_doc_prose:
  "check_doc (env_of t) d st = foldE (\<lambda>nl. check_line (env_of t) (place_of t d (fst nl)) (snd nl)) (prose d) st"
  by (simp add: check_doc_def check_lines_prose prose_def place_of_def env_of_def Let_def)

text \<open>[C13] No reference is dropped: the backticked paths, the local links and the named sections of
  the lines outside fences are together as many as those counted as checked and those listed as
  not adjudicated; every bare section number outside fences is checked.\<close>

theorem scan_accounts:
  assumes "scan t = Inr st"
  shows "n_paths st + n_links st + n_named st + total_unchecked (not_checked st)
      = (\<Sum>d\<leftarrow>docs_of t. \<Sum>nl\<leftarrow>prose d. line_refs (snd nl))
    \<and> n_bare st = (\<Sum>d\<leftarrow>docs_of t. \<Sum>nl\<leftarrow>prose d. length (line_bare (snd nl)))"
proof -
  have doc: "tally s' = tally s + (\<Sum>nl\<leftarrow>prose d. line_refs (snd nl))"
    "n_bare s' = n_bare s + (\<Sum>nl\<leftarrow>prose d. length (line_bare (snd nl)))"
    if "check_doc (env_of t) d s = Inr s'" for d s s'
    by (rule foldE_count[OF _ that[unfolded check_doc_prose]], erule check_line_counts)+
  have "tally st = tally scan_init + (\<Sum>d\<leftarrow>docs_of t. \<Sum>nl\<leftarrow>prose d. line_refs (snd nl))"
    "n_bare st = n_bare scan_init + (\<Sum>d\<leftarrow>docs_of t. \<Sum>nl\<leftarrow>prose d. length (line_bare (snd nl)))"
    by (rule foldE_count[OF _ assms[unfolded scan_def]], erule doc)+
  then show ?thesis by (simp add: tally_def scan_init_def total_unchecked_def)
qed

section \<open>When the check is green\<close>

definition path_sound :: "env \<Rightarrow> place \<Rightarrow> string \<Rightarrow> bool" where
  "path_sound v p tgt \<longleftrightarrow>
     (let target = rstrip_chr CHR ''/'' tgt
      in resolves_or v (root v) (p_here p) target = Inr True \<or> split_head CHR ''/'' target \<notin> set (repo_dirs v))"

definition link_sound :: "env \<Rightarrow> place \<Rightarrow> string \<Rightarrow> bool" where
  "link_sound v p tgt \<longleftrightarrow>
     (let target = split_head CHR ''#'' tgt
      in \<not> local_link tgt \<or> resolves_or v (p_here p) (root v) target = Inr True
         \<or> \<not> suffix ''.md'' target \<and> split_head CHR ''/'' target \<notin> set (repo_dirs v))"

definition named_sound :: "env \<Rightarrow> place \<Rightarrow> string \<times> string \<Rightarrow> bool" where
  "named_sound v p ref \<longleftrightarrow> (\<forall>nums. named_nums v p (fst ref) = Some nums \<longrightarrow> snd ref \<in> set nums)"

definition line_sound :: "env \<Rightarrow> place \<Rightarrow> string \<Rightarrow> bool" where
  "line_sound v p line \<longleftrightarrow>
     (\<forall>x \<in> set (line_paths line). path_sound v p x) \<and> (\<forall>x \<in> set (line_links line). link_sound v p x)
     \<and> (\<forall>x \<in> set (line_named line). named_sound v p x)
     \<and> (\<forall>x \<in> set (line_bare line). x \<in> set (all_headings v))"

lemma check_path_sound:
  "check_path v p x st = Inr st' \<Longrightarrow> failures st' = [] \<longleftrightarrow> failures st = [] \<and> path_sound v p x"
  by (auto simp: check_path_def path_sound_def bindE_Inr Let_def split: if_splits)

lemma check_link_sound:
  "check_link v p x st = Inr st' \<Longrightarrow> failures st' = [] \<longleftrightarrow> failures st = [] \<and> link_sound v p x"
  by (auto simp: check_link_def link_sound_def local_link_def bindE_Inr Let_def split: if_splits)

lemma check_named_sound:
  "failures (check_named v p x st) = [] \<longleftrightarrow> failures st = [] \<and> named_sound v p x"
  by (auto simp: check_named_def named_sound_def Let_def split: prod.splits option.splits)

lemma check_bare_sound:
  "failures (check_bare v p x st) = [] \<longleftrightarrow> failures st = [] \<and> x \<in> set (all_headings v)"
  by (auto simp: check_bare_def Let_def)

lemma check_line_sound:
  assumes "check_line v p line st = Inr st'"
  shows "failures st' = [] \<longleftrightarrow> failures st = [] \<and> line_sound v p line"
proof -
  obtain s1 s2 where s1: "foldE (check_path v p) (line_paths line) st = Inr s1"
    and s2: "foldE (check_link v p) (line_links line) s1 = Inr s2"
    and st': "st' = fold (check_bare v p) (line_bare line) (fold (check_named v p) (line_named line) s2)"
    using assms by (auto simp: check_line_def bindE_Inr)
  have "failures s1 = [] \<longleftrightarrow> failures st = [] \<and> (\<forall>x \<in> set (line_paths line). path_sound v p x)"
    by (rule foldE_keeps[OF _ s1]) (erule check_path_sound)
  moreover have "failures s2 = [] \<longleftrightarrow> failures s1 = [] \<and> (\<forall>x \<in> set (line_links line). link_sound v p x)"
    by (rule foldE_keeps[OF _ s2]) (erule check_link_sound)
  moreover have "failures (fold (check_named v p) (line_named line) s2) = []
      \<longleftrightarrow> failures s2 = [] \<and> (\<forall>x \<in> set (line_named line). named_sound v p x)"
    by (rule fold_keeps) (rule check_named_sound)
  moreover have "failures st' = [] \<longleftrightarrow> failures (fold (check_named v p) (line_named line) s2) = []
      \<and> (\<forall>x \<in> set (line_bare line). x \<in> set (all_headings v))"
    unfolding st' by (rule fold_keeps) (rule check_bare_sound)
  ultimately show ?thesis unfolding line_sound_def by blast
qed

text \<open>[C12] A scan that ends reports no failure exactly when every line outside fences of every document is
  sound: each backticked path resolves from the root or from the document's directory unless its
  first part is no directory of the repository; each local link resolves unless it names neither a markdown page nor
  something under such a directory; each section named of one of the documents is a heading
  of it; each bare section number is a heading somewhere.\<close>

theorem scan_green_iff:
  assumes "scan t = Inr st"
  shows "failures st = [] \<longleftrightarrow>
    (\<forall>d \<in> set (docs_of t). \<forall>nl \<in> set (prose d). line_sound (env_of t) (place_of t d (fst nl)) (snd nl))"
proof -
  have "failures s' = [] \<longleftrightarrow> failures s = []
      \<and> (\<forall>nl \<in> set (prose d). line_sound (env_of t) (place_of t d (fst nl)) (snd nl))"
    if "check_doc (env_of t) d s = Inr s'" for d s s'
    by (rule foldE_keeps[OF _ that[unfolded check_doc_prose]]) (erule check_line_sound)
  then have "failures st = [] \<longleftrightarrow> failures scan_init = [] \<and> (\<forall>d \<in> set (docs_of t).
      \<forall>nl \<in> set (prose d). line_sound (env_of t) (place_of t d (fst nl)) (snd nl))"
    by (rule foldE_keeps[OF _ assms[unfolded scan_def]])
  then show ?thesis by (simp add: scan_init_def)
qed

section \<open>The self-test, and a heading inside a fence\<close>

text \<open>The self-test passes in a temporary directory, whatever a glob would find there: all four
  planted references are caught, nothing else is reported, and the other repository's references
  are listed as not adjudicated.\<close>

lemma docs_self_test_passes: "self_test [''/'', ''tmp'', ''t''] globf = Inr True"
  by code_simp

definition FENCED :: string where
  "FENCED = join [NL] [[TICK, TICK, TICK], ''## 7.7 Planned'', [TICK, TICK, TICK], ''See '' @ [SECT] @ ''7.7'']"

definition FENCED_TREE :: "(path \<Rightarrow> string \<Rightarrow> py_error + bool) \<Rightarrow> tree" where
  "FENCED_TREE globf = tree_of [''/'', ''r''] [([''a.md''], FENCED)] globf"

text \<open>A heading that stands only inside a fence counts as a section: the bare reference to it
  passes, although no line outside the fence is a heading.\<close>

lemma fenced_heading_counts:
  "map_sum id failures (scan (FENCED_TREE globf)) = Inr []
   \<and> list_all (\<lambda>nl. re_match HEADING (snd nl) = None) (prose ([''a.md''], FENCED))
   \<and> concat (map (\<lambda>nl. line_bare (snd nl)) (prose ([''a.md''], FENCED))) = [''7.7'']"
  by code_simp

lemma FENCED_scan:
  "map_sum id failures (scan (FENCED_TREE (\<lambda>_ _. Inr False))) = Inr []"
  "(\<Sum>d\<leftarrow>docs_of (FENCED_TREE (\<lambda>_ _. Inr False)). \<Sum>nl\<leftarrow>prose d. line_refs (snd nl)) = 0"
  "(\<Sum>d\<leftarrow>docs_of (FENCED_TREE (\<lambda>_ _. Inr False)). \<Sum>nl\<leftarrow>prose d. length (line_bare (snd nl))) = 1"
  by code_simp+

theorem scan_accounts_witness:
  "\<exists>st. scan (FENCED_TREE (\<lambda>_ _. Inr False)) = Inr st
    \<and> n_paths st + n_links st + n_named st + total_unchecked (not_checked st) = 0 \<and> n_bare st = 1"
proof (cases "scan (FENCED_TREE (\<lambda>_ _. Inr False))")
  case (Inr st)
  then show ?thesis using scan_accounts[OF Inr] FENCED_scan(2,3) by simp
qed (use FENCED_scan(1) in simp)

theorem scan_green_iff_witness:
  "list_all (\<lambda>d. list_all (\<lambda>nl. line_sound (env_of (FENCED_TREE (\<lambda>_ _. Inr False)))
       (place_of (FENCED_TREE (\<lambda>_ _. Inr False)) d (fst nl)) (snd nl)) (prose d))
     (docs_of (FENCED_TREE (\<lambda>_ _. Inr False)))"
proof (cases "scan (FENCED_TREE (\<lambda>_ _. Inr False))")
  case (Inr st)
  then have "failures st = []" using FENCED_scan(1) by simp
  then show ?thesis using scan_green_iff[OF Inr] by (simp add: list_all_iff)
qed (use FENCED_scan(1) in simp)

end
