(* ===== verification/Check_Abi.thy ===== *)
theory Check_Abi
  imports Py_Text "HOL-Library.AList"
begin

text \<open>
  \<^verbatim>\<open>ci/check_abi.py\<close>: the probe generated from the ABI headers and the comparison of the layouts the
  targets report.  The header texts and the device sources are arguments; compiling the probe for
  a target and listing its symbols with \<open>nm\<close> is a function from the target and the probe's text to
  \<open>nm\<close>'s output, or \<open>None\<close> when either fails.  The lemmas show that every declaration is parsed or
  reported, that every field of every struct is probed, and what a green run says of the targets.
\<close>

section \<open>Headers and the boundary audit\<close>

record abi_header =
  h_inc :: string
  h_path :: "string list"
  h_crosses :: bool

definition abi_hdr :: "string \<Rightarrow> string list \<Rightarrow> bool \<Rightarrow> abi_header" where
  "abi_hdr inc p c = \<lparr>h_inc = inc, h_path = p, h_crosses = c\<rparr>"

definition ABI_HEADERS :: "abi_header list" where
  "ABI_HEADERS =
     [abi_hdr ''grx/grx_abi.h'' [''include'', ''grx'', ''grx_abi.h''] False,
      abi_hdr ''grx/grx_texture.h'' [''include'', ''grx'', ''grx_texture.h''] True,
      abi_hdr ''grx/grx_cycles.h'' [''include'', ''grx'', ''grx_cycles.h''] True,
      abi_hdr ''grxblas/sgemm_abi.h'' [''src'', ''libs'', ''grxblas'', ''sgemm_abi.h''] True,
      abi_hdr ''grxblas/blas12_abi.h'' [''src'', ''libs'', ''grxblas'', ''blas12_abi.h''] True,
      abi_hdr ''grxblas/hgemm_abi.h'' [''src'', ''libs'', ''grxblas'', ''hgemm_abi.h''] True,
      abi_hdr ''grxdnn/dnn_abi.h'' [''src'', ''libs'', ''grxdnn'', ''dnn_abi.h''] True]"

text \<open>The device sources are the files the patterns of \<open>DEVICE_SOURCES\<close> find, with their texts.\<close>

definition audit_boundary :: "(string \<times> string) list \<Rightarrow> (string \<times> string) list" where
  "audit_boundary sources =
     (let host_only = map h_inc (filter (\<lambda>h. \<not> h_crosses h) ABI_HEADERS) in
      concat (map (\<lambda>src. List.map_filter (\<lambda>inc.
        let stem = last (split_chr CHR ''/'' inc) in
        if contains (snd src) stem then Some (fst src, stem) else None) host_only) sources))"

section \<open>The header parser\<close>

definition COMMENT :: rx where
  "COMMENT = Alt (Seq (str ''//'') (star (Cls (\<lambda>c. c \<noteq> NL)))) (seqs [str ''/*'', lazy dotall, str ''*/''])"

definition STRUCT :: rx where
  "STRUCT = seqs
     [opt (Seq (str ''typedef'') (plus sp)), str ''struct'', plus sp, opt (Grp 1 (plus wd)), star sp,
      lit CHR ''{'', Grp 2 (lazy dotall), lit CHR ''}'', star sp, Grp 3 (star wd), star sp, lit CHR '';'']"

definition rx_head :: rx where
  "rx_head = Cls (\<lambda>c. is_lower c \<or> is_upper c \<or> c = CHR ''_'')"

definition rx_bound :: rx where
  "rx_bound = seqs [star sp, lit CHR ''['', star (Cls (\<lambda>c. c \<noteq> CHR '']'')), lit CHR '']'']"

definition rx_declarator :: rx where
  "rx_declarator = seqs [rx_head, star wd, star rx_bound]"

definition FIELD :: rx where
  "FIELD = seqs
     [Bol, Grp 1 (Seq rx_head (lazy (Cls (\<lambda>c. is_word c \<or> c = CHR '' '' \<or> c = TAB \<or> c = CHR ''*'')))), star sp,
      Grp 2 (Seq rx_declarator (star (seqs [star sp, lit CHR '','', star sp, rx_declarator]))), Eos]"

definition ARRAY :: rx where "ARRAY = rx_bound"

datatype complaint = Anonymous | Bad_Decl string string

definition struct_name :: "rx_match \<Rightarrow> string option" where
  "struct_name m =
     (case group_opt m 1 of
        None \<Rightarrow> if group m 3 = [] then None else Some (group m 3)
      | Some tag \<Rightarrow> Some (if group m 3 \<noteq> [] then group m 3 else ''struct '' @ tag))"

definition struct_decls :: "rx_match \<Rightarrow> string list" where
  "struct_decls m = filter (\<lambda>d. d \<noteq> []) (map (\<lambda>d. join '' '' (split_ws d)) (split_chr CHR '';'' (group m 2)))"

definition decl_fields :: "rx_match \<Rightarrow> string list" where
  "decl_fields fm = map (\<lambda>n. lstrip_chr CHR ''*'' (strip (re_sub ARRAY [] n))) (split_chr CHR '','' (group fm 2))"

fun parse_decls :: "string \<Rightarrow> string list \<Rightarrow> string list \<times> complaint list" where
  "parse_decls name [] = ([], [])"
| "parse_decls name (d # ds) =
     (case parse_decls name ds of (fs, bad) \<Rightarrow>
        (case re_match FIELD d of
           None \<Rightarrow> (fs, Bad_Decl name d # bad)
         | Some fm \<Rightarrow> (decl_fields fm @ fs, bad)))"

fun structs_of :: "rx_match list \<Rightarrow> (string \<times> string list) list \<times> complaint list" where
  "structs_of [] = ([], [])"
| "structs_of (m # ms) =
     (case structs_of ms of (out, bad) \<Rightarrow>
        (case struct_name m of
           None \<Rightarrow> (out, Anonymous # bad)
         | Some name \<Rightarrow>
             (case parse_decls name (struct_decls m) of (fs, ub) \<Rightarrow>
                ((if fs \<noteq> [] then [(name, fs)] else []) @ out, ub @ bad))))"

definition struct_matches :: "string \<Rightarrow> rx_match list" where
  "struct_matches text = re_finditer STRUCT (re_sub COMMENT '' '' text)"

definition structs_in :: "string \<Rightarrow> (string \<times> string list) list \<times> complaint list" where
  "structs_in text = structs_of (struct_matches text)"

section \<open>The probe\<close>

definition struct_tag :: "string \<Rightarrow> string" where
  "struct_tag name = strip (re_sub (str ''struct '') [] name)"

definition offset_line :: "string \<Rightarrow> string \<Rightarrow> string" where
  "offset_line name f = ''char grxabi_off__'' @ struct_tag name @ ''__'' @ f @ ''[offsetof('' @ name @ '', '' @ f @ '') + 1];''"

definition size_line :: "string \<Rightarrow> string" where
  "size_line name = ''char grxabi_size__'' @ struct_tag name @ ''[sizeof('' @ name @ '')];''"

definition algn_line :: "string \<Rightarrow> string" where
  "algn_line name = ''char grxabi_algn__'' @ struct_tag name @ ''[_Alignof('' @ name @ '')];''"

record probe_state =
  lines :: "string list"
  seen :: "string list"
  nstruct :: nat
  nfield :: nat
  complaints :: "(string \<times> complaint) list"

definition probe_struct :: "string \<times> string list \<Rightarrow> probe_state \<Rightarrow> probe_state" where
  "probe_struct s st =
     (case s of (name, fs) \<Rightarrow>
        if struct_tag name \<in> set (seen st) then st
        else st\<lparr>seen := struct_tag name # seen st, nstruct := nstruct st + 1, nfield := nfield st + length fs,
                lines := lines st @ [size_line name, algn_line name] @ map (offset_line name) fs @ [[]]\<rparr>)"

definition probe_header :: "(string list \<Rightarrow> string) \<Rightarrow> abi_header \<Rightarrow> probe_state \<Rightarrow> probe_state" where
  "probe_header read h st =
     (case structs_in (read (h_path h)) of (found, bad) \<Rightarrow>
        fold probe_struct found (st\<lparr>complaints := complaints st @ map (\<lambda>b. (last (h_path h), b)) bad\<rparr>))"

definition probe_headers :: "bool \<Rightarrow> abi_header list" where
  "probe_headers want = filter (\<lambda>h. h_crosses h = want) ABI_HEADERS"

definition generate_probe :: "(string list \<Rightarrow> string) \<Rightarrow> bool \<Rightarrow> probe_state" where
  "generate_probe read want =
     fold (probe_header read) (probe_headers want)
       \<lparr>lines = [''#include <stddef.h>'', ''#include <stdint.h>'', []]
          @ map (\<lambda>h. ''#include '' @ [CHR 0x22] @ h_inc h @ [CHR 0x22]) (probe_headers want) @ [[]],
        seen = [], nstruct = 0, nfield = 0, complaints = []\<rparr>"

definition probe_text :: "probe_state \<Rightarrow> string" where
  "probe_text st = join [NL] (lines st) @ [NL]"

section \<open>Targets, layouts and their comparison\<close>

text \<open>The cross compiler and the device compiler are there or not: \<open>shutil.which\<close> and \<open>exists\<close>.\<close>

type_synonym target = "string \<times> string list"

definition host_targets :: "string option \<Rightarrow> target list" where
  "host_targets cross = (''x86_64'', [''gcc'', ''-std=c11''])
     # (case cross of None \<Rightarrow> [] | Some c \<Rightarrow> [(''riscv64-host'', [c, ''-std=c11''])])"

definition device_targets :: "string option \<Rightarrow> target list" where
  "device_targets clang =
     (case clang of None \<Rightarrow> []
      | Some c \<Rightarrow>
          [(''device-rv64'', [c, ''--target=riscv64-unknown-elf'', ''-march=rv64imafd'', ''-mabi=lp64d'', ''-std=c11'']),
           (''device-rv32'', [c, ''--target=riscv32-unknown-elf'', ''-march=rv32imaf'', ''-mabi=ilp32f'', ''-std=c11''])])"

type_synonym facts = "(string \<times> int) list"

definition nm_line :: "string \<Rightarrow> facts \<Rightarrow> facts" where
  "nm_line line facts =
     (case split_ws line of
        [_, sz, _, symb] \<Rightarrow>
          if prefix ''grxabi_'' symb
          then AList.update symb (if prefix ''grxabi_off__'' symb then int16 sz - 1 else int16 sz) facts
          else facts
      | _ \<Rightarrow> facts)"

definition layout_of :: "string option \<Rightarrow> facts option" where
  "layout_of nm = (case nm of None \<Rightarrow> None | Some out \<Rightarrow> Some (fold nm_line (splitlines out) []))"

text \<open>The layouts of a pass, by target; one that fails ends the run.\<close>

fun layouts_of :: "(string list \<Rightarrow> string \<Rightarrow> string option) \<Rightarrow> string \<Rightarrow> target list \<Rightarrow> (string \<times> facts) list option" where
  "layouts_of nm probe [] = Some []"
| "layouts_of nm probe ((name, argv) # ts) =
     (case layout_of (nm argv probe) of None \<Rightarrow> None
      | Some f \<Rightarrow> (case layouts_of nm probe ts of None \<Rightarrow> None | Some ls \<Rightarrow> Some ((name, f) # ls)))"

definition bad_facts :: "(string \<times> facts) list \<Rightarrow> (string \<times> int option list) list" where
  "bad_facts layouts =
     (case layouts of [] \<Rightarrow> []
      | (_, first) # _ \<Rightarrow>
          filter (\<lambda>(key, values). length (remdups values) \<noteq> 1)
            (map (\<lambda>key. (key, map (\<lambda>l. map_of (snd l) key) layouts)) (sort (map fst first))))"

text \<open>One pass: \<open>Inl\<close> is an immediate exit code, \<open>Inr\<close> whether some fact differs.\<close>

definition abi_pass ::
  "(string list \<Rightarrow> string) \<Rightarrow> (string list \<Rightarrow> string \<Rightarrow> string option) \<Rightarrow> bool \<Rightarrow> target list \<Rightarrow> int + bool" where
  "abi_pass read nm crosses targets =
     (let pr = generate_probe read crosses in
      if complaints pr \<noteq> [] then Inl 1
      else if nstruct pr = 0 then Inl 1
      else case layouts_of nm (probe_text pr) targets of
             None \<Rightarrow> Inl 1
           | Some ls \<Rightarrow> Inr (bad_facts ls \<noteq> []))"

definition abi_main ::
  "(string \<times> string) list \<Rightarrow> (string list \<Rightarrow> string) \<Rightarrow> (string list \<Rightarrow> string \<Rightarrow> string option)
    \<Rightarrow> string option \<Rightarrow> string option \<Rightarrow> int" where
  "abi_main sources read nm cross clang =
     (if audit_boundary sources \<noteq> [] then 1
      else case abi_pass read nm True (host_targets cross @ device_targets clang) of
             Inl rc \<Rightarrow> rc
           | Inr failed1 \<Rightarrow>
               (case abi_pass read nm False (host_targets cross) of
                  Inl rc \<Rightarrow> rc
                | Inr failed2 \<Rightarrow> if failed1 \<or> failed2 then 1 else 0))"

section \<open>Every declaration is parsed or reported\<close>

lemma parse_decls_each:
  assumes "d \<in> set ds"
  shows "(re_match FIELD d = None \<longrightarrow> Bad_Decl name d \<in> set (snd (parse_decls name ds)))
    \<and> (\<forall>fm. re_match FIELD d = Some fm \<longrightarrow> set (decl_fields fm) \<subseteq> set (fst (parse_decls name ds)))"
  using assms by (induction ds) (auto split: prod.splits option.splits)

lemma decl_fields_not_nil [simp]: "decl_fields fm \<noteq> []"
  by (simp add: decl_fields_def)

lemma structs_of_each:
  assumes "m \<in> set ms"
  shows "(struct_name m = None \<longrightarrow> Anonymous \<in> set (snd (structs_of ms)))
    \<and> (\<forall>name. struct_name m = Some name \<longrightarrow>
         set (snd (parse_decls name (struct_decls m))) \<subseteq> set (snd (structs_of ms))
         \<and> (fst (parse_decls name (struct_decls m)) \<noteq> [] \<longrightarrow>
              (name, fst (parse_decls name (struct_decls m))) \<in> set (fst (structs_of ms))))"
  using assms by (induction ms) (auto split: prod.splits option.splits)

text \<open>[C32] The header parser drops nothing of the structs that its struct pattern finds: one without a name is reported; each declaration
  of a named one is reported with the struct's name when the field pattern does not match it, and otherwise all its
  field names are in the struct's entry.  A struct the pattern does not find is \<open>attribute_struct_dropped\<close>.\<close>

theorem structs_in_accounts:
  assumes "m \<in> set (struct_matches text)" "structs_in text = (out, bad)"
  shows "(struct_name m = None \<longrightarrow> Anonymous \<in> set bad)
    \<and> (\<forall>name d. struct_name m = Some name \<and> d \<in> set (struct_decls m) \<longrightarrow>
         (re_match FIELD d = None \<longrightarrow> Bad_Decl name d \<in> set bad)
         \<and> (\<forall>fm. re_match FIELD d = Some fm \<longrightarrow>
              (\<exists>fs. (name, fs) \<in> set out \<and> set (decl_fields fm) \<subseteq> set fs)))"
proof -
  note each = structs_of_each[OF assms(1)]
  have out: "out = fst (structs_of (struct_matches text))" "bad = snd (structs_of (struct_matches text))"
    using assms(2) by (simp_all add: structs_in_def)
  have "\<exists>fs. (name, fs) \<in> set out \<and> set (decl_fields fm) \<subseteq> set fs"
    if "struct_name m = Some name" "d \<in> set (struct_decls m)" "re_match FIELD d = Some fm" for name d fm
  proof -
    have sub: "set (decl_fields fm) \<subseteq> set (fst (parse_decls name (struct_decls m)))"
      using parse_decls_each[OF that(2)] that(3) by blast
    moreover have "set (decl_fields fm) \<noteq> {}" by simp
    ultimately have "fst (parse_decls name (struct_decls m)) \<noteq> []" by auto
    then show ?thesis using each that(1) sub out(1) by blast
  qed
  then show ?thesis using each parse_decls_each out by blast
qed

lemma BITFIELD_run:
  "map struct_name (struct_matches ''struct q { int a : 3; int ok; };'') = [Some ''struct q'']"
  "map struct_decls (struct_matches ''struct q { int a : 3; int ok; };'') = [[''int a : 3'', ''int ok'']]"
  "structs_in ''struct q { int a : 3; int ok; };'' = ([(''struct q'', [''ok''])], [Bad_Decl ''struct q'' ''int a : 3''])"
  "re_match FIELD ''int a : 3'' = None"
  by code_simp+

theorem structs_in_accounts_witness:
  "\<exists>m \<in> set (struct_matches ''struct q { int a : 3; int ok; };''). struct_name m = Some ''struct q''
     \<and> Bad_Decl ''struct q'' ''int a : 3'' \<in> set (snd (structs_in ''struct q { int a : 3; int ok; };''))"
proof -
  obtain m where m: "struct_matches ''struct q { int a : 3; int ok; };'' = [m]"
    "struct_name m = Some ''struct q''" "struct_decls m = [''int a : 3'', ''int ok'']"
    using BITFIELD_run(1,2) by (auto simp: map_eq_Cons_conv)
  have "Bad_Decl ''struct q'' ''int a : 3'' \<in> set [Bad_Decl ''struct q'' ''int a : 3'']"
    using structs_in_accounts[OF _ BITFIELD_run(3), of m] m BITFIELD_run(4) by simp
  then show ?thesis using m BITFIELD_run(3) by simp
qed

section \<open>Every field is probed\<close>

definition in_probe :: "string \<times> string list \<Rightarrow> string list \<Rightarrow> bool" where
  "in_probe s ls \<longleftrightarrow> size_line (fst s) \<in> set ls \<and> algn_line (fst s) \<in> set ls
     \<and> (\<forall>f \<in> set (snd s). offset_line (fst s) f \<in> set ls)"

lemma in_probe_mono: "in_probe s ls \<Longrightarrow> set ls \<subseteq> set ls' \<Longrightarrow> in_probe s ls'"
  by (auto simp: in_probe_def)

text \<open>The tags seen are those of structs of \<open>S\<close> that are in the probe in full.\<close>

definition probed :: "(string \<times> string list) set \<Rightarrow> probe_state \<Rightarrow> bool" where
  "probed S st \<longleftrightarrow> (\<forall>tag \<in> set (seen st). \<exists>s \<in> S. struct_tag (fst s) = tag \<and> in_probe s (lines st))"

lemma probe_struct_probed:
  assumes "probed S st" "s \<in> S"
  shows "probed S (probe_struct s st)" "struct_tag (fst s) \<in> set (seen (probe_struct s st))"
    "set (seen st) \<subseteq> set (seen (probe_struct s st))"
proof -
  show "probed S (probe_struct s st)"
  proof (cases "struct_tag (fst s) \<in> set (seen st)")
    case True
    then show ?thesis using assms(1) by (simp add: probe_struct_def split_beta)
  next
    case False
    define st' where "st' = probe_struct s st"
    have st': "seen st' = struct_tag (fst s) # seen st" "set (lines st) \<subseteq> set (lines st')" "in_probe s (lines st')"
      using False by (auto simp: st'_def probe_struct_def split_beta in_probe_def)
    have "\<exists>r \<in> S. struct_tag (fst r) = tag \<and> in_probe r (lines st')" if "tag \<in> set (seen st)" for tag
      using assms(1) that in_probe_mono[OF _ st'(2)] unfolding probed_def by blast
    then show ?thesis using st'(1,3) assms(2) unfolding st'_def[symmetric] probed_def by auto
  qed
qed (auto simp: probe_struct_def split: prod.splits)

lemma fold_probe_struct:
  assumes "probed S st" "set found \<subseteq> S"
  shows "probed S (fold probe_struct found st) \<and> set (seen st) \<subseteq> set (seen (fold probe_struct found st))
    \<and> (\<forall>s \<in> set found. struct_tag (fst s) \<in> set (seen (fold probe_struct found st)))"
  using assms
proof (induction found arbitrary: st)
  case (Cons s found)
  note one = probe_struct_probed[OF Cons.prems(1), of s]
  have IH: "probed S (fold probe_struct found (probe_struct s st))
    \<and> set (seen (probe_struct s st)) \<subseteq> set (seen (fold probe_struct found (probe_struct s st)))
    \<and> (\<forall>s' \<in> set found. struct_tag (fst s') \<in> set (seen (fold probe_struct found (probe_struct s st))))"
    using Cons one by auto
  then show ?case using one Cons.prems(2) by auto
qed simp

lemma fold_probe_header:
  assumes "probed S st" "\<And>h. h \<in> set hs \<Longrightarrow> set (fst (structs_in (read (h_path h)))) \<subseteq> S"
  shows "probed S (fold (probe_header read) hs st) \<and> set (seen st) \<subseteq> set (seen (fold (probe_header read) hs st))
    \<and> (\<forall>h \<in> set hs. \<forall>s \<in> set (fst (structs_in (read (h_path h)))).
         struct_tag (fst s) \<in> set (seen (fold (probe_header read) hs st)))"
  using assms
proof (induction hs arbitrary: st)
  case (Cons h hs)
  define st0 where "st0 = st\<lparr>complaints := complaints st
     @ map (\<lambda>b. (last (h_path h), b)) (snd (structs_in (read (h_path h))))\<rparr>"
  define st1 where "st1 = fold probe_struct (fst (structs_in (read (h_path h)))) st0"
  have "probed S st0" "seen st0 = seen st" using Cons.prems(1) by (simp_all add: st0_def probed_def)
  then have one: "probed S st1" "set (seen st) \<subseteq> set (seen st1)"
    "\<forall>s \<in> set (fst (structs_in (read (h_path h)))). struct_tag (fst s) \<in> set (seen st1)"
    using fold_probe_struct[of S st0 "fst (structs_in (read (h_path h)))"] Cons.prems(2)[of h]
    unfolding st1_def by simp_all
  have "probe_header read h st = st1"
    by (simp add: probe_header_def st1_def st0_def split_beta)
  moreover have "probed S (fold (probe_header read) hs st1)
    \<and> set (seen st1) \<subseteq> set (seen (fold (probe_header read) hs st1))
    \<and> (\<forall>h \<in> set hs. \<forall>s \<in> set (fst (structs_in (read (h_path h)))).
         struct_tag (fst s) \<in> set (seen (fold (probe_header read) hs st1)))"
    using Cons.IH[OF one(1)] Cons.prems(2) by simp
  ultimately show ?case using one by (auto simp del: split_paired_All)
qed simp

text \<open>The structs the headers of a pass declare.\<close>

definition declared :: "(string list \<Rightarrow> string) \<Rightarrow> bool \<Rightarrow> (string \<times> string list) set" where
  "declared read want = (\<Union>h \<in> set (probe_headers want). set (fst (structs_in (read (h_path h)))))"

lemma probe_covers:
  assumes "s \<in> declared read want"
  shows "\<exists>s' \<in> declared read want. struct_tag (fst s') = struct_tag (fst s) \<and> in_probe s' (lines (generate_probe read want))"
proof -
  define st where "st = \<lparr>lines = [''#include <stddef.h>'', ''#include <stdint.h>'', []]
          @ map (\<lambda>h. ''#include '' @ [CHR 0x22] @ h_inc h @ [CHR 0x22]) (probe_headers want) @ [[]],
        seen = [], nstruct = 0, nfield = 0, complaints = []\<rparr>"
  have "probed (declared read want) st" by (simp add: probed_def st_def)
  moreover have gen: "generate_probe read want = fold (probe_header read) (probe_headers want) st"
    by (simp add: generate_probe_def st_def)
  ultimately have "probed (declared read want) (generate_probe read want)"
    "struct_tag (fst s) \<in> set (seen (generate_probe read want))"
    using fold_probe_header[of "declared read want" st "probe_headers want" read] assms
    unfolding gen declared_def by auto
  then show ?thesis unfolding probed_def by blast
qed

section \<open>What a green run says\<close>

lemma layouts_of_all:
  "layouts_of nm probe ts = Some ls \<Longrightarrow>
     list_all2 (\<lambda>t l. layout_of (nm (snd t) probe) = Some (snd l)) ts ls"
  by (induction nm probe ts arbitrary: ls rule: layouts_of.induct) (auto split: option.splits)

lemma length_remdups_1:
  assumes "v \<in> set vs"
  shows "length (remdups vs) = 1 \<longleftrightarrow> (\<forall>w \<in> set vs. w = v)"
proof
  assume "length (remdups vs) = 1"
  then obtain u where "remdups vs = [u]" by (auto simp: length_Suc_conv)
  then have "set (remdups vs) = {u}" by simp
  then have "set vs = {u}" by simp
  then show "\<forall>w \<in> set vs. w = v" using assms by simp
next
  assume "\<forall>w \<in> set vs. w = v"
  then have "set vs = {v}" using assms by blast
  then show "length (remdups vs) = 1" by (simp add: length_remdups_card_conv)
qed

lemma bad_facts_empty:
  "bad_facts (l # ls) = [] \<longleftrightarrow>
     (\<forall>key \<in> fst ` set (snd l). \<forall>x \<in> set (l # ls). map_of (snd x) key = map_of (snd l) key)"
proof -
  have "length (remdups (map (\<lambda>x. map_of (snd x) key) (l # ls))) = 1 \<longleftrightarrow>
      (\<forall>x \<in> set (l # ls). map_of (snd x) key = map_of (snd l) key)" for key
    by (subst length_remdups_1[of "map_of (snd l) key"]) simp_all
  then show ?thesis by (simp add: bad_facts_def filter_empty_conv split_beta)
qed

definition all_targets :: "string option \<Rightarrow> string option \<Rightarrow> target list" where
  "all_targets cross clang = host_targets cross @ device_targets clang"

definition offset_symbol :: "string \<Rightarrow> string \<Rightarrow> string" where
  "offset_symbol name f = ''grxabi_off__'' @ struct_tag name @ ''__'' @ f"

lemma abi_main_zero:
  assumes "abi_main sources read nm cross clang = 0"
  shows "audit_boundary sources = []" "complaints (generate_probe read True) = []"
    "\<exists>ls. layouts_of nm (probe_text (generate_probe read True)) (all_targets cross clang) = Some ls \<and> bad_facts ls = []"
proof -
  show audit: "audit_boundary sources = []" using assms by (rule contrapos_pp) (simp add: abi_main_def)
  obtain failed where pass1: "abi_pass read nm True (all_targets cross clang) = Inr failed"
  proof (cases "abi_pass read nm True (all_targets cross clang)")
    case (Inl rc)
    then have "rc = 1" by (simp add: abi_pass_def Let_def split: if_splits option.splits)
    then show ?thesis using assms audit Inl by (simp add: abi_main_def all_targets_def)
  qed
  have "\<not> failed" using assms audit pass1
    by (simp add: abi_main_def all_targets_def abi_pass_def[of _ _ False] Let_def split: if_splits option.splits)
  then show "complaints (generate_probe read True) = []"
    "\<exists>ls. layouts_of nm (probe_text (generate_probe read True)) (all_targets cross clang) = Some ls \<and> bad_facts ls = []"
    using pass1 by (simp_all add: abi_pass_def Let_def split: if_splits option.splits)
qed

lemma agreeing_fact:
  assumes "layouts_of nm probe ts = Some ls" "bad_facts ls = []" "t \<in> set ts" "t' \<in> set ts"
    and val_ok: "\<And>u facts. u \<in> set ts \<Longrightarrow> layout_of (nm (snd u) probe) = Some facts \<Longrightarrow> map_of facts key = Some (val u)"
  shows "val t = val t'"
proof -
  note each = layouts_of_all[OF assms(1)]
  obtain t0 ts' l ls' where ls: "ts = t0 # ts'" "ls = l # ls'"
    using each assms(3) by (cases ts; cases ls) auto
  have l: "map_of (snd l) key = Some (val t0)" using val_ok[of t0 "snd l"] each ls by simp
  then have key: "key \<in> fst ` set (snd l)" by (metis image_eqI map_of_SomeD fst_conv)
  have "val u = val t0" if u: "u \<in> set ts" for u
  proof -
    obtain x where x: "x \<in> set ls" "layout_of (nm (snd u) probe) = Some (snd x)"
      using list_all2_mem1[OF each u] by blast
    then have "map_of (snd x) key = Some (val u)" using val_ok u by blast
    moreover have "map_of (snd x) key = map_of (snd l) key"
      using assms(2) bad_facts_empty key x(1) unfolding ls(2) by blast
    ultimately show ?thesis using l by simp
  qed
  then show ?thesis using assms(3,4) by simp
qed

text \<open>[C8] A green run means what the script promises of the structs it finds.  Suppose that what a compiled probe's symbol
  listing says is right: for each offset line of the probe, the listing of a target gives the
  offset \<open>off\<close> of that field on that target (its array is one longer).  Then a run that exits 0 has, for every struct
  that the parser finds in a boundary-crossing header and whose tag is declared once, every field it reads at the same
  offset on every target, hosts and devices.\<close>

theorem abi_green_agrees:
  assumes "abi_main sources read nm cross clang = 0"
    and listing: "\<And>t facts r g. t \<in> set (all_targets cross clang) \<Longrightarrow>
      layout_of (nm (snd t) (probe_text (generate_probe read True))) = Some facts \<Longrightarrow>
      r \<in> declared read True \<Longrightarrow> g \<in> set (snd r) \<Longrightarrow>
      offset_line (fst r) g \<in> set (lines (generate_probe read True)) \<Longrightarrow>
      map_of facts (offset_symbol (fst r) g) = Some (off t (fst r) g)"
    and "s \<in> declared read True" "f \<in> set (snd s)"
    and once: "\<And>s'. s' \<in> declared read True \<Longrightarrow> struct_tag (fst s') = struct_tag (fst s) \<Longrightarrow> s' = s"
    and "t \<in> set (all_targets cross clang)" "t' \<in> set (all_targets cross clang)"
  shows "off t (fst s) f = off t' (fst s) f"
proof -
  obtain ls where ls: "layouts_of nm (probe_text (generate_probe read True)) (all_targets cross clang) = Some ls"
    "bad_facts ls = []" using abi_main_zero(3)[OF assms(1)] by blast
  have "in_probe s (lines (generate_probe read True))" using probe_covers[OF assms(3)] once by blast
  then have line: "offset_line (fst s) f \<in> set (lines (generate_probe read True))"
    using assms(4) by (simp add: in_probe_def)
  show ?thesis
    by (rule agreeing_fact[OF ls assms(6,7)]) (rule listing[OF _ _ assms(3,4) line])
qed

definition ONE_STRUCT :: "string list \<Rightarrow> string" where
  "ONE_STRUCT path =
     (if last path = ''sgemm_abi.h'' then ''struct s { int a; };''
      else if last path = ''grx_abi.h'' then ''struct h { int b; };'' else [])"

definition ONE_NM :: "string list \<Rightarrow> string \<Rightarrow> string option" where
  "ONE_NM argv probe = Some (''00 04 B grxabi_size__s'' @ [NL] @ ''04 01 B grxabi_off__s__a'' @ [NL])"

lemma ONE_run:
  "abi_main [] ONE_STRUCT ONE_NM None (Some ''clang'') = 0"
  "concat (map (\<lambda>h. fst (structs_in (ONE_STRUCT (h_path h)))) (probe_headers True)) = [(''struct s'', [''a''])]"
  "layout_of (ONE_NM [] []) = Some [(''grxabi_size__s'', 4), (''grxabi_off__s__a'', 0)]"
  "offset_symbol ''struct s'' ''a'' = ''grxabi_off__s__a''"
  by code_simp+

lemma ONE_declared: "declared ONE_STRUCT True = {(''struct s'', [''a''])}"
  using arg_cong[OF ONE_run(2), of set] by (simp add: declared_def)

definition ONE_OFF :: "target \<Rightarrow> string \<Rightarrow> string \<Rightarrow> int" where
  "ONE_OFF t name f = the (map_of (the (layout_of (ONE_NM (snd t) []))) (offset_symbol name f))"

lemma ONE_NM_const: "ONE_NM argv p = ONE_NM [] []"
  by (simp add: ONE_NM_def)

lemma ONE_listing:
  assumes "layout_of (ONE_NM (snd t) p) = Some facts" "r \<in> declared ONE_STRUCT True" "g \<in> set (snd r)"
  shows "map_of facts (offset_symbol (fst r) g) = Some (ONE_OFF t (fst r) g)"
proof -
  have "facts = [(''grxabi_size__s'', 4), (''grxabi_off__s__a'', 0)]" "fst r = ''struct s''" "g = ''a''"
    using assms by (auto simp: ONE_NM_const[of _ p] ONE_run(3) ONE_declared)
  then show ?thesis by (simp add: ONE_OFF_def ONE_NM_const[of "snd t"] ONE_run(3,4))
qed

theorem abi_green_agrees_witness:
  "\<exists>h \<in> set (host_targets None). \<exists>d \<in> set (device_targets (Some ''clang'')).
     fst h = ''x86_64'' \<and> fst d = ''device-rv32'' \<and> ONE_OFF h ''struct s'' ''a'' = ONE_OFF d ''struct s'' ''a''"
proof -
  have "ONE_OFF h (fst (''struct s'', [''a''])) ''a'' = ONE_OFF d (fst (''struct s'', [''a''])) ''a''"
    if "h \<in> set (all_targets None (Some ''clang''))" "d \<in> set (all_targets None (Some ''clang''))" for h d
    by (rule abi_green_agrees[OF ONE_run(1) _ _ _ _ that]) (rule ONE_listing, assumption+, simp_all add: ONE_declared)
  then show ?thesis by (simp add: all_targets_def host_targets_def device_targets_def)
qed

text \<open>A struct whose keyword is followed by an attribute is not found by the struct pattern: the
  header yields no struct and no complaint, so the struct is in no probe and nothing is reported.\<close>

lemma attribute_struct_dropped:
  "structs_in ''struct __attribute__((packed)) p { uint32_t a; };'' = ([], [])
   \<and> structs_in ''struct p { uint32_t a; };'' = ([(''struct p'', [''a''])], [])"
  by code_simp

end
