(* ===== verification/Check_Perf.thy ===== *)
theory Check_Perf
  imports Py_Text "HOL-Library.AList" Complex_Main
begin

text \<open>
  \<^verbatim>\<open>ci/check_perf.py\<close>: the gate that compares measured cycles with the stored baselines.  A result
  document is a record: the parts the script reads of each bench, the device and configuration
  records as their JSON text, and the tolerance map.  Floats (shares, ratios, tolerances) are
  exact rationals.  The lemmas say when two documents agree, how the movers are ranked, what
  regenerating does, and when the cross-document control raises.
\<close>

section \<open>Documents\<close>

record stage =
  st_name :: string
  st_span :: int
  st_warps :: int
  st_maxLive :: "int option"
  st_valid :: bool

record block_shape =
  bs_seq :: int
  bs_stages :: "stage list"

record gemm_shape =
  g_m :: int
  g_n :: int
  g_k :: int
  g_sgemm_span :: int
  g_tensor_span :: int
  g_nslots :: int
  g_busy_median :: int

record attn_region =
  r_seq :: int
  r_region :: string
  r_span :: int
  r_warps :: int

record gemv_point =
  v_trans :: string
  v_m :: int
  v_n :: int
  v_span :: int
  v_busy_median :: int
  v_warps :: int

datatype bench =
    Block_Cycles "block_shape list"
  | Gemm_Cycles "gemm_shape list"
  | Attention_Cycles "attn_region list"
  | Gemv_Cycles "gemv_point list"
  | Other_Bench

record doc =
  d_device :: "string option"
  d_config :: "string option"
  d_bench :: bench
  d_tolerance :: "(string \<times> rat) list"

definition EXPECTED :: "(string \<times> string) list" where
  "EXPECTED =
     [(''perf_block_rb.json'', ''block_cycles.register-blocked.json''),
      (''perf_block_naive.json'', ''block_cycles.naive.json''),
      (''perf_gemm.json'', ''gemm_cycles.json''),
      (''perf_gemv.json'', ''gemv_cycles.json''),
      (''perf_attn.json'', ''attention_cycles.json'')]"

section \<open>The comparable surface\<close>

type_synonym metrics = "(string \<times> int) list"

text \<open>Assignments to a dict, in order.\<close>

definition put_all :: "('k \<times> 'v) list \<Rightarrow> ('k \<times> 'v) list \<Rightarrow> ('k \<times> 'v) list" where
  "put_all kvs d = fold (\<lambda>(k, v). AList.update k v) kvs d"

definition stage_metrics :: "string \<Rightarrow> nat \<times> stage \<Rightarrow> metrics" where
  "stage_metrics tag ist =
     (case ist of (i, st) \<Rightarrow>
        let key = tag @ ''['' @ str_int (int i) @ ''] '' @ st_name st in
        [(key @ '' .span'', st_span st), (key @ '' .warps'', st_warps st)]
        @ (case st_maxLive st of None \<Rightarrow> [] | Some l \<Rightarrow> [(key @ '' .maxLive'', l)])
        @ [(key @ '' .valid'', if st_valid st then 1 else 0)])"

definition block_metrics :: "block_shape \<Rightarrow> metrics" where
  "block_metrics sh = concat (map (stage_metrics (''S='' @ str_int (bs_seq sh))) (enumerate 0 (bs_stages sh)))"

definition gemm_metrics :: "gemm_shape \<Rightarrow> metrics" where
  "gemm_metrics sh =
     (let tag = str_int (g_m sh) @ ''x'' @ str_int (g_n sh) @ ''x'' @ str_int (g_k sh) in
      [(tag @ '' .sgemm_span'', g_sgemm_span sh), (tag @ '' .tensor_span'', g_tensor_span sh),
       (tag @ '' .nslots'', g_nslots sh), (tag @ '' .busy_median'', g_busy_median sh)])"

definition attn_metrics :: "attn_region \<Rightarrow> metrics" where
  "attn_metrics p =
     (let tag = ''S='' @ str_int (r_seq p) @ '' '' @ r_region p in
      [(tag @ '' .span'', r_span p), (tag @ '' .warps'', r_warps p)])"

definition gemv_metrics :: "gemv_point \<Rightarrow> metrics" where
  "gemv_metrics p =
     (let tag = v_trans p @ '' '' @ str_int (v_m p) @ ''x'' @ str_int (v_n p) in
      [(tag @ '' .span'', v_span p), (tag @ '' .busy_median'', v_busy_median p), (tag @ '' .warps'', v_warps p)])"

definition flatten :: "doc \<Rightarrow> py_error + metrics" where
  "flatten d =
     (case d_bench d of
        Block_Cycles shs \<Rightarrow> Inr (put_all (concat (map block_metrics shs)) [])
      | Gemm_Cycles shs \<Rightarrow> Inr (put_all (concat (map gemm_metrics shs)) [])
      | Attention_Cycles ps \<Rightarrow> Inr (put_all (concat (map attn_metrics ps)) [])
      | Gemv_Cycles ps \<Rightarrow> Inr (put_all (concat (map gemv_metrics ps)) [])
      | Other_Bench \<Rightarrow> Inl ValueError)"

text \<open>Per shape the sequence length, the total of the valid stages and attention's share.  Only a
  block document has stages: a shape of another bench, or no shapes at all, is a \<open>KeyError\<close>.\<close>

definition shape_total :: "block_shape \<Rightarrow> int" where
  "shape_total sh = sum_list (map st_span (filter st_valid (bs_stages sh)))"

definition shape_attention :: "block_shape \<Rightarrow> int" where
  "shape_attention sh =
     sum_list (map st_span (filter (\<lambda>st. st_valid st \<and> prefix ''attention'' (st_name st)) (bs_stages sh)))"

definition block_totals :: "doc \<Rightarrow> py_error + (int \<times> int \<times> rat) list" where
  "block_totals d =
     (case d_bench d of
        Block_Cycles shs \<Rightarrow>
          Inr (map (\<lambda>sh. (bs_seq sh, shape_total sh,
            if shape_total sh \<noteq> 0 then of_int (shape_attention sh) / of_int (shape_total sh) else 0)) shs)
      | Gemm_Cycles shs \<Rightarrow> if shs = [] then Inr [] else Inl KeyError
      | _ \<Rightarrow> Inl KeyError)"

section \<open>Comparing a document with its baseline\<close>

type_synonym move = "string \<times> int \<times> int"

datatype verdict =
    Device
  | Structure "string list" "string list"
  | Moved "move list" "move list"
  | Ok "move list" nat

definition band :: "(string \<times> rat) list \<Rightarrow> string \<Rightarrow> rat" where
  "band tol key = (case map_of tol key of None \<Rightarrow> 0 | Some r \<Rightarrow> r)"

definition in_band :: "(string \<times> rat) list \<Rightarrow> move \<Rightarrow> bool" where
  "in_band tol x = (case x of (key, want, got) \<Rightarrow>
     want \<noteq> 0 \<and> of_int \<bar>got - want\<bar> \<le> of_int \<bar>want\<bar> * band tol key)"

definition pairs_of :: "metrics \<Rightarrow> metrics \<Rightarrow> move list" where
  "pairs_of m b = List.map_filter (\<lambda>key. case (map_of b key, map_of m key) of
     (Some want, Some got) \<Rightarrow> Some (key, want, got) | _ \<Rightarrow> None) (sort (map fst m))"

definition changed :: "move \<Rightarrow> bool" where
  "changed x = (snd (snd x) \<noteq> fst (snd x))"

text \<open>\<open>pct_of\<close>, \<open>None\<close> for the infinite change from zero; the sort key puts the largest first.\<close>

definition pct_of :: "move \<Rightarrow> rat option" where
  "pct_of x = (case x of (key, want, got) \<Rightarrow>
     if want \<noteq> 0 then Some (100 * of_int (got - want) / of_int want) else None)"

definition rank_key :: "move \<Rightarrow> bool \<times> rat" where
  "rank_key x = (case pct_of x of None \<Rightarrow> (False, 0) | Some p \<Rightarrow> (True, - \<bar>p\<bar>))"

definition only_in :: "metrics \<Rightarrow> metrics \<Rightarrow> string list" where
  "only_in a b = sort (filter (\<lambda>k. map_of b k = None) (map fst a))"

definition compare :: "doc \<Rightarrow> doc \<Rightarrow> py_error + verdict" where
  "compare measured baseline =
     (if d_device measured \<noteq> d_device baseline then Inr Device
      else if d_config measured \<noteq> d_config baseline then Inr Device
      else bindE (flatten measured) (\<lambda>m. bindE (flatten baseline) (\<lambda>b.
        let only_m = only_in m b; only_b = only_in b m in
        if only_m \<noteq> [] \<or> only_b \<noteq> [] then Inr (Structure only_b only_m)
        else
          let tol = d_tolerance baseline;
              absorbed = filter (\<lambda>x. in_band tol x \<and> band tol (fst x) \<noteq> 0 \<and> changed x) (pairs_of m b);
              moved = filter (\<lambda>x. \<not> in_band tol x \<and> changed x) (pairs_of m b)
          in if moved \<noteq> [] then Inr (Moved (sort_key rank_key moved) absorbed)
             else Inr (Ok absorbed (length m)))))"

section \<open>The derived report and the control between documents\<close>

type_synonym docs = "(string \<times> doc) list"

definition gemm_rows :: "doc \<Rightarrow> py_error + (int \<times> int \<times> int \<times> rat \<times> rat \<times> rat option) list" where
  "gemm_rows d =
     (case d_bench d of
        Gemm_Cycles shs \<Rightarrow> mapE (\<lambda>sh.
          let elems = g_m sh * g_n sh in
          if elems = 0 then Inl ZeroDivisionError
          else let per = of_int (g_sgemm_span sh) / of_int elems;
                   tper = (if g_tensor_span sh \<noteq> 0 then of_int (g_tensor_span sh) / of_int elems else 0)
               in Inr (g_m sh, g_n sh, g_k sh, per, tper, if tper \<noteq> 0 then Some (per / tper) else None)) shs
      | Block_Cycles shs \<Rightarrow> if shs = [] then Inr [] else Inl KeyError
      | _ \<Rightarrow> Inl KeyError)"

text \<open>For each sequence length, sorted: total and share, and the naive total, share and ratio.\<close>

definition block_rows ::
  "doc \<Rightarrow> doc option \<Rightarrow> py_error + (int \<times> int \<times> rat \<times> (int \<times> rat \<times> rat) option) list" where
  "block_rows rb naive =
     bindE (block_totals rb) (\<lambda>rt. bindE (case naive of None \<Rightarrow> Inr [] | Some n \<Rightarrow> block_totals n) (\<lambda>nt.
       let rows = put_all rt []; nrows = put_all nt [] in
       mapE (\<lambda>seq. case map_of rows seq of None \<Rightarrow> Inl KeyError
         | Some (tot, attn) \<Rightarrow>
             (case map_of nrows seq of None \<Rightarrow> Inr (seq, tot, attn, None)
              | Some (ntotal, nattn) \<Rightarrow>
                  if tot = 0 then Inl ZeroDivisionError
                  else Inr (seq, tot, attn, Some (ntotal, nattn, of_int ntotal / of_int tot))))
         (sort (map fst rows))))"

definition derived_report :: "docs \<Rightarrow> py_error + unit" where
  "derived_report docs =
     bindE (case map_of docs ''perf_gemm.json'' of None \<Rightarrow> Inr [] | Some g \<Rightarrow> gemm_rows g) (\<lambda>_.
       bindE (case map_of docs ''perf_block_rb.json'' of None \<Rightarrow> Inr []
              | Some rb \<Rightarrow> block_rows rb (map_of docs ''perf_block_naive.json'')) (\<lambda>_. Inr ()))"

definition total_map :: "doc \<Rightarrow> py_error + (int \<times> int) list" where
  "total_map d = bindE (block_totals d) (\<lambda>rows. Inr (put_all (map (\<lambda>(s, t, _). (s, t)) rows) []))"

text \<open>\<open>controls\<close>: the sequence lengths with identical totals, or the smallest ratio; \<open>None\<close> when one of
  the two documents is missing.\<close>

definition controls :: "docs \<Rightarrow> py_error + (bool \<times> (int list + rat) option)" where
  "controls docs =
     (case (map_of docs ''perf_block_rb.json'', map_of docs ''perf_block_naive.json'') of
        (Some rb, Some naive) \<Rightarrow>
          bindE (total_map rb) (\<lambda>rmap. bindE (total_map naive) (\<lambda>nmap.
            let same = map fst (filter (\<lambda>(s, t). map_of nmap s = Some t) rmap) in
            if same \<noteq> [] then Inr (False, Some (Inl same))
            else bindE (mapE (\<lambda>(s, t). case map_of nmap s of None \<Rightarrow> Inl KeyError
                   | Some n \<Rightarrow> if t = 0 then Inl ZeroDivisionError else Inr (of_int n / of_int t :: rat))
                   (filter (\<lambda>(s, t). map_of nmap s \<noteq> None) rmap)) (\<lambda>ratios.
              case ratios of [] \<Rightarrow> Inl ValueError
              | r # rs \<Rightarrow> Inr (True, Some (Inr (fold min rs r))))))
      | _ \<Rightarrow> Inr (True, None))"

section \<open>The run\<close>

record run_state =
  rs_docs :: docs
  rs_rc :: int
  rs_base :: "string \<rightharpoonup> doc"

definition run_one :: "(string \<rightharpoonup> doc) \<Rightarrow> bool \<Rightarrow> string \<times> string \<Rightarrow> run_state \<Rightarrow> py_error + run_state" where
  "run_one results regenerate names st =
     (case names of (rname, bname) \<Rightarrow>
        (case results rname of
           None \<Rightarrow> Inr (st\<lparr>rs_rc := 1\<rparr>)
         | Some measured \<Rightarrow>
             (let st1 = st\<lparr>rs_docs := AList.update rname measured (rs_docs st)\<rparr> in
              if regenerate then Inr (st1\<lparr>rs_base := (rs_base st1)(bname \<mapsto> measured)\<rparr>)
              else case rs_base st1 bname of
                     None \<Rightarrow> Inr (st1\<lparr>rs_rc := 1\<rparr>)
                   | Some baseline \<Rightarrow>
                       bindE (compare measured baseline) (\<lambda>v.
                         case v of Ok _ _ \<Rightarrow> Inr st1 | _ \<Rightarrow> Inr (st1\<lparr>rs_rc := 1\<rparr>)))))"

definition perf_run :: "(string \<rightharpoonup> doc) \<Rightarrow> bool \<Rightarrow> (string \<rightharpoonup> doc) \<Rightarrow> py_error + (int \<times> (string \<rightharpoonup> doc))" where
  "perf_run results regenerate base =
     bindE (foldE (run_one results regenerate) EXPECTED \<lparr>rs_docs = [], rs_rc = 0, rs_base = base\<rparr>) (\<lambda>st.
       bindE (derived_report (rs_docs st)) (\<lambda>_.
         if regenerate then Inr (rs_rc st, rs_base st)
         else bindE (controls (rs_docs st)) (\<lambda>c.
           Inr (if fst c then rs_rc st else 1, rs_base st))))"

section \<open>The self-test\<close>

definition mk_doc :: "int \<Rightarrow> int \<Rightarrow> string \<Rightarrow> string \<Rightarrow> string \<Rightarrow> doc" where
  "mk_doc tot attn name device config =
     \<lparr>d_device = Some device, d_config = Some config,
      d_bench = Block_Cycles
        [\<lparr>bs_seq = 8, bs_stages =
            [\<lparr>st_name = ''layernorm 1'', st_span = tot - attn, st_warps = 8, st_maxLive = None, st_valid = True\<rparr>,
             \<lparr>st_name = name, st_span = attn, st_warps = 96, st_maxLive = None, st_valid = True\<rparr>]\<rparr>],
      d_tolerance = []\<rparr>"

definition ATTN :: string where "ATTN = ''attention (2 GEMMs+mask+softmax)''"
definition DEV_X :: string where "DEV_X = ''X sms 1 warp 4 mhz 400''"
definition DEV_Y :: string where "DEV_Y = ''Y sms 8 warp 32 mhz 400''"
definition CFG_RB :: string where "CFG_RB = ''sgemm register-blocked''"
definition CFG_NAIVE :: string where "CFG_NAIVE = ''sgemm naive''"

datatype kind = K_ok | K_moved | K_structure | K_device

definition kind_of :: "py_error + verdict \<Rightarrow> kind option" where
  "kind_of r = (case r of Inl _ \<Rightarrow> None | Inr v \<Rightarrow> Some (case v of
     Device \<Rightarrow> K_device | Structure _ _ \<Rightarrow> K_structure | Moved _ _ \<Rightarrow> K_moved | Ok _ _ \<Rightarrow> K_ok))"

definition perf_self_test :: "bool list" where
  "perf_self_test =
     (let base = mk_doc 1000 100 ATTN DEV_X CFG_RB;
          with_tol = base\<lparr>d_tolerance := [(''S=8[0] layernorm 1 .span'', 5 / 100)]\<rparr>;
          naive = mk_doc 1000 100 ATTN DEV_X CFG_NAIVE
      in [kind_of (compare (mk_doc 1000 100 ATTN DEV_X CFG_RB) base) = Some K_ok,
          kind_of (compare (mk_doc 1001 100 ATTN DEV_X CFG_RB) base) = Some K_moved,
          kind_of (compare (mk_doc 1000 100 ATTN DEV_Y CFG_RB) base) = Some K_device,
          kind_of (compare (mk_doc 1000 100 ATTN DEV_X CFG_NAIVE) base) = Some K_device,
          kind_of (compare (mk_doc 1000 100 ''attention v2'' DEV_X CFG_RB) base) = Some K_structure,
          kind_of (compare (mk_doc 1020 100 ATTN DEV_X CFG_RB) with_tol) = Some K_ok,
          (case compare (mk_doc 1020 100 ATTN DEV_X CFG_RB) with_tol of Inr (Ok absorbed _) \<Rightarrow> absorbed \<noteq> [] | _ \<Rightarrow> False),
          kind_of (compare (mk_doc 1200 100 ATTN DEV_X CFG_RB) with_tol) = Some K_moved,
          map_sum id fst (controls [(''perf_block_rb.json'', base),
            (''perf_block_naive.json'', mk_doc 1500 100 ATTN DEV_X CFG_NAIVE)]) = Inr True,
          map_sum id fst (controls [(''perf_block_rb.json'', base), (''perf_block_naive.json'', naive)]) = Inr False,
          map_sum id (\<lambda>r. fst r \<noteq> 0) (perf_run [''perf_block_rb.json'' \<mapsto> base] False Map.empty) = Inr True])"

text \<open>A block document with one shape and one valid stage.\<close>

definition one_stage :: "int \<Rightarrow> int \<Rightarrow> doc" where
  "one_stage seq cyc =
     \<lparr>d_device = None, d_config = None,
      d_bench = Block_Cycles [\<lparr>bs_seq = seq, bs_stages =
        [\<lparr>st_name = ''attention'', st_span = cyc, st_warps = 1, st_maxLive = None, st_valid = True\<rparr>]\<rparr>],
      d_tolerance = []\<rparr>"

lemma flatten_one_stage:
  "flatten (one_stage 8 10) = Inr [(''S=8[0] attention .span'', 10), (''S=8[0] attention .warps'', 1), (''S=8[0] attention .valid'', 1)]"
  "flatten (one_stage 8 11) = Inr [(''S=8[0] attention .span'', 11), (''S=8[0] attention .warps'', 1), (''S=8[0] attention .valid'', 1)]"
  by code_simp+

lemma compare_one_stage:
  "compare (one_stage 8 11) (one_stage 8 10) = Inr (Moved [(''S=8[0] attention .span'', 10, 11)] [])"
  by code_simp

section \<open>When two documents agree\<close>

lemma only_in_empty: "only_in a b = [] \<longleftrightarrow> dom (map_of a) \<subseteq> dom (map_of b)"
  by (auto simp: only_in_def filter_empty_conv dom_map_of_conv_image_fst map_of_eq_None_iff
      simp flip: set_empty2 dest!: equalityD1)

lemma set_pairs_of:
  "(key, want, got) \<in> set (pairs_of m b) \<longleftrightarrow> map_of b key = Some want \<and> map_of m key = Some got"
proof -
  have "map_of m key = Some got \<Longrightarrow> key \<in> fst ` set m" by (metis fst_conv image_eqI map_of_SomeD)
  then show ?thesis by (force simp: pairs_of_def map_filter_def split: option.splits)
qed

definition is_ok :: "verdict \<Rightarrow> bool" where
  "is_ok v = (case v of Ok _ _ \<Rightarrow> True | _ \<Rightarrow> False)"

text \<open>An agreement of the metrics up to the declared bands.\<close>

definition agrees :: "(string \<times> rat) list \<Rightarrow> metrics \<Rightarrow> metrics \<Rightarrow> bool" where
  "agrees tol m b \<longleftrightarrow> dom (map_of m) = dom (map_of b) \<and>
     (\<forall>key want got. map_of b key = Some want \<and> map_of m key = Some got \<longrightarrow>
        got = want \<or> in_band tol (key, want, got))"

lemma no_moves:
  "filter (\<lambda>x. \<not> in_band tol x \<and> changed x) (pairs_of m b) = [] \<longleftrightarrow>
     (\<forall>key want got. map_of b key = Some want \<and> map_of m key = Some got \<longrightarrow>
        got = want \<or> in_band tol (key, want, got))"
proof -
  have "filter (\<lambda>x. \<not> in_band tol x \<and> changed x) (pairs_of m b) = [] \<longleftrightarrow>
      (\<forall>key want got. (key, want, got) \<in> set (pairs_of m b) \<longrightarrow> in_band tol (key, want, got) \<or> \<not> changed (key, want, got))"
    by (auto simp: filter_empty_conv)
  then show ?thesis unfolding set_pairs_of by (auto simp: changed_def)
qed

lemma compare_ok:
  assumes "flatten measured = Inr m" "flatten baseline = Inr b"
  shows "\<exists>v. compare measured baseline = Inr v \<and>
      (is_ok v \<longleftrightarrow> d_device measured = d_device baseline \<and> d_config measured = d_config baseline
         \<and> agrees (d_tolerance baseline) m b)"
  using assms no_moves[of "d_tolerance baseline" m b] only_in_empty[of m b] only_in_empty[of b m]
  by (auto simp: compare_def Let_def is_ok_def agrees_def)

lemma agrees_exact: "agrees [] m b = (map_of m = map_of b)"
proof
  assume "agrees [] m b"
  then have same: "dom (map_of m) = dom (map_of b)"
    "\<And>key want got. map_of b key = Some want \<Longrightarrow> map_of m key = Some got \<Longrightarrow> got = want"
    by (fastforce simp: agrees_def in_band_def band_def)+
  then show "map_of m = map_of b" by (intro map_le_antisym) (force simp: map_le_def)+
qed (auto simp: agrees_def)

text \<open>[C15] Two documents whose metrics are \<open>m\<close> and \<open>b\<close> compare as ok exactly when they are of the
  same device and configuration, have the same metric names, and every metric is equal or inside the
  band its baseline declares; when the baseline declares no band, exactly when the metrics are equal.
  Another device or configuration is refused before a metric is read.\<close>

theorem compare_ok_iff:
  assumes "flatten measured = Inr m" "flatten baseline = Inr b"
  shows "(\<exists>v. compare measured baseline = Inr v \<and>
      (is_ok v \<longleftrightarrow> d_device measured = d_device baseline \<and> d_config measured = d_config baseline
         \<and> agrees (d_tolerance baseline) m b))
    \<and> (d_tolerance baseline = [] \<longrightarrow> agrees (d_tolerance baseline) m b = (map_of m = map_of b))"
  using compare_ok[OF assms] agrees_exact by auto

theorem compare_ok_iff_witness:
  "(\<exists>v. compare (one_stage 8 11) (one_stage 8 10) = Inr v \<and> \<not> is_ok v)
   \<and> (\<exists>v. compare (one_stage 8 10) (one_stage 8 10) = Inr v \<and> is_ok v)"
proof -
  have parts: "d_tolerance (one_stage 8 10) = []" "d_device (one_stage 8 c) = None" "d_config (one_stage 8 c) = None" for c
    by (simp_all add: one_stage_def)
  have "map_of [(''S=8[0] attention .span'', 11 :: int), (''S=8[0] attention .warps'', 1), (''S=8[0] attention .valid'', 1)]
      \<noteq> map_of [(''S=8[0] attention .span'', 10), (''S=8[0] attention .warps'', 1), (''S=8[0] attention .valid'', 1)]"
    by (rule notI, drule fun_cong[of _ _ "''S=8[0] attention .span''"]) simp
  then show ?thesis
    using compare_ok_iff[OF flatten_one_stage(2) flatten_one_stage(1)]
      compare_ok_iff[OF flatten_one_stage(1) flatten_one_stage(1)] unfolding parts by blast
qed

text \<open>[C31] The movers are exactly the metrics that changed and are outside their band, and they are
  listed by magnitude: the first has the largest relative change, and a change from zero comes before
  all others.\<close>

theorem movers_ranked:
  assumes "compare measured baseline = Inr (Moved moved absorbed)"
    "flatten measured = Inr m" "flatten baseline = Inr b"
  shows "(\<forall>key want got. (key, want, got) \<in> set moved \<longleftrightarrow>
      map_of b key = Some want \<and> map_of m key = Some got \<and> got \<noteq> want
      \<and> \<not> in_band (d_tolerance baseline) (key, want, got))
    \<and> sorted (map rank_key moved)
    \<and> (\<forall>x \<in> set moved. \<forall>p q. pct_of (hd moved) = Some p \<and> pct_of x = Some q \<longrightarrow> \<bar>q\<bar> \<le> \<bar>p\<bar>)
    \<and> (\<forall>x \<in> set moved. pct_of x = None \<longrightarrow> pct_of (hd moved) = None)"
proof -
  have moved: "moved = sort_key rank_key (filter (\<lambda>x. \<not> in_band (d_tolerance baseline) x \<and> changed x) (pairs_of m b))"
    using assms by (auto simp: compare_def Let_def split: if_splits)
  then have srt: "sorted (map rank_key moved)" by simp
  have hd: "rank_key (hd moved) \<le> rank_key x" if "x \<in> set moved" for x
    using srt that by (cases moved) auto
  have "(key, want, got) \<in> set moved \<longleftrightarrow>
      map_of b key = Some want \<and> map_of m key = Some got \<and> got \<noteq> want
      \<and> \<not> in_band (d_tolerance baseline) (key, want, got)" for key want got
    unfolding moved by (auto simp: set_pairs_of changed_def)
  moreover have "\<bar>q\<bar> \<le> \<bar>p\<bar>" if "x \<in> set moved" "pct_of (hd moved) = Some p" "pct_of x = Some q" for x p q
    using hd[OF that(1)] that(2,3) by (simp add: rank_key_def)
  moreover have "pct_of (hd moved) = None" if "x \<in> set moved" "pct_of x = None" for x
    using hd[OF that(1)] that(2) by (simp add: rank_key_def split: option.splits)
  ultimately show ?thesis using srt by blast
qed

theorem movers_ranked_witness:
  "sorted (map rank_key [(''S=8[0] attention .span'', 10 :: int, 11 :: int)])
   \<and> pct_of (''S=8[0] attention .span'', 10, 11) = Some 10"
  using movers_ranked[OF compare_one_stage flatten_one_stage(2,1)]
  by (simp add: pct_of_def)

section \<open>Regenerating\<close>

lemma compare_self:
  assumes "flatten d = Inr m"
  shows "\<exists>x n. compare d d = Inr (Ok x n)"
proof -
  have "agrees (d_tolerance d) m m" by (auto simp: agrees_def)
  then obtain v where "compare d d = Inr v" "is_ok v" using compare_ok[OF assms assms] by blast
  then show ?thesis by (cases v) (auto simp: is_ok_def)
qed

lemma flatten_known: "d_bench d \<noteq> Other_Bench \<Longrightarrow> \<exists>m. flatten d = Inr m"
  by (auto simp: flatten_def split: bench.splits)

text \<open>What the loop of \<open>run\<close> leaves behind, for any list of file names.\<close>

definition docs_after :: "(string \<rightharpoonup> doc) \<Rightarrow> (string \<times> string) list \<Rightarrow> docs \<Rightarrow> docs" where
  "docs_after results ns ds =
     fold (\<lambda>n ds. case results (fst n) of None \<Rightarrow> ds | Some d \<Rightarrow> AList.update (fst n) d ds) ns ds"

definition rc_after :: "(string \<rightharpoonup> doc) \<Rightarrow> (string \<times> string) list \<Rightarrow> int \<Rightarrow> int" where
  "rc_after results ns rc = (if \<forall>n \<in> set ns. results (fst n) \<noteq> None then rc else 1)"

definition base_after :: "(string \<rightharpoonup> doc) \<Rightarrow> (string \<times> string) list \<Rightarrow> (string \<rightharpoonup> doc) \<Rightarrow> (string \<rightharpoonup> doc)" where
  "base_after results ns base =
     fold (\<lambda>n bs. case results (fst n) of None \<Rightarrow> bs | Some d \<Rightarrow> bs(snd n \<mapsto> d)) ns base"

lemma run_regenerate:
  "foldE (run_one results True) ns st =
     Inr \<lparr>rs_docs = docs_after results ns (rs_docs st), rs_rc = rc_after results ns (rs_rc st),
          rs_base = base_after results ns (rs_base st)\<rparr>"
  by (induction ns arbitrary: st)
    (auto simp: docs_after_def rc_after_def base_after_def run_one_def Let_def split: prod.splits option.splits)

lemma run_one_missing: "results (fst n) = None \<Longrightarrow> run_one results g n st = Inr (st\<lparr>rs_rc := 1\<rparr>)"
  by (simp add: run_one_def split_beta)

lemma run_one_same:
  assumes "results (fst n) = Some d" "d_bench d \<noteq> Other_Bench" "rs_base st (snd n) = Some d"
  shows "run_one results False n st = Inr (st\<lparr>rs_docs := AList.update (fst n) d (rs_docs st)\<rparr>)"
proof -
  obtain m where "flatten d = Inr m" using flatten_known[OF assms(2)] by blast
  then obtain x k where "compare d d = Inr (Ok x k)" using compare_self by blast
  then show ?thesis using assms(1,3) by (simp add: run_one_def split_beta)
qed

lemma run_check:
  assumes "\<And>n d. n \<in> set ns \<Longrightarrow> results (fst n) = Some d \<Longrightarrow> d_bench d \<noteq> Other_Bench \<and> rs_base st (snd n) = Some d"
  shows "foldE (run_one results False) ns st =
     Inr \<lparr>rs_docs = docs_after results ns (rs_docs st), rs_rc = rc_after results ns (rs_rc st), rs_base = rs_base st\<rparr>"
  using assms
proof (induction ns arbitrary: st)
  case (Cons n ns)
  show ?case
  proof (cases "results (fst n)")
    case None
    have "foldE (run_one results False) ns (st\<lparr>rs_rc := 1\<rparr>) =
        Inr \<lparr>rs_docs = docs_after results ns (rs_docs st), rs_rc = rc_after results ns 1, rs_base = rs_base st\<rparr>"
      using Cons.IH[of "st\<lparr>rs_rc := 1\<rparr>"] Cons.prems by force
    then show ?thesis using None by (simp add: run_one_missing docs_after_def rc_after_def)
  next
    case (Some d)
    have "foldE (run_one results False) ns (st\<lparr>rs_docs := AList.update (fst n) d (rs_docs st)\<rparr>) =
        Inr \<lparr>rs_docs = docs_after results ns (AList.update (fst n) d (rs_docs st)),
             rs_rc = rc_after results ns (rs_rc st), rs_base = rs_base st\<rparr>"
      using Cons.IH[of "st\<lparr>rs_docs := AList.update (fst n) d (rs_docs st)\<rparr>"] Cons.prems by force
    then show ?thesis using Some run_one_same[of results n d st] Cons.prems[of n d]
      by (simp add: docs_after_def rc_after_def)
  qed
qed (simp add: docs_after_def rc_after_def)

lemma base_after_other: "b \<notin> snd ` set ns \<Longrightarrow> base_after results ns base b = base b"
  by (induction ns arbitrary: base) (auto simp: base_after_def split: option.splits)

lemma base_after_lookup:
  "distinct (map snd ns) \<Longrightarrow> n \<in> set ns \<Longrightarrow> results (fst n) = Some d \<Longrightarrow> base_after results ns base (snd n) = Some d"
proof (induction ns arbitrary: base)
  case (Cons x ns)
  show ?case
  proof (cases "n = x")
    case True
    then have "snd n \<notin> snd ` set ns" using Cons.prems(1) by auto
    from base_after_other[OF this, of results "base(snd n \<mapsto> d)"] show ?thesis
      using True Cons.prems(3) by (simp add: base_after_def)
  next
    case False
    then show ?thesis using Cons.IH Cons.prems by (auto simp: base_after_def split: option.splits)
  qed
qed simp

lemma EXPECTED_distinct: "distinct (map snd EXPECTED)"
  by (simp add: EXPECTED_def)

text \<open>[C30] Regenerating stores every result that exists under its baseline's name and exits 0 exactly
  when all five exist; the run that follows on the same results compares each of them as equal, so it exits
  with the same code unless the control between the two block documents fails.  What is stored is the
  measured document itself: a tolerance the old baseline declared is gone.\<close>

theorem regenerate_then_check:
  assumes "perf_run results True base = Inr (rc, base')"
    and "\<And>n d. n \<in> set EXPECTED \<Longrightarrow> results (fst n) = Some d \<Longrightarrow> d_bench d \<noteq> Other_Bench"
  shows "rc = (if \<forall>n \<in> set EXPECTED. results (fst n) \<noteq> None then 0 else 1)
    \<and> (\<forall>n \<in> set EXPECTED. \<forall>d. results (fst n) = Some d \<longrightarrow> base' (snd n) = Some d)
    \<and> perf_run results False base' =
        bindE (controls (docs_after results EXPECTED [])) (\<lambda>c. Inr (if fst c then rc else 1, base'))"
proof -
  have derived: "derived_report (docs_after results EXPECTED []) = Inr ()"
    and rc: "rc = rc_after results EXPECTED 0" and base': "base' = base_after results EXPECTED base"
    using assms(1) by (auto simp: perf_run_def run_regenerate bindE_Inr)
  have stored: "base' (snd n) = Some d" if "n \<in> set EXPECTED" "results (fst n) = Some d" for n d
    unfolding base' using base_after_lookup[OF EXPECTED_distinct, of n results d base] that by simp
  have "foldE (run_one results False) EXPECTED \<lparr>rs_docs = [], rs_rc = 0, rs_base = base'\<rparr> =
      Inr \<lparr>rs_docs = docs_after results EXPECTED [], rs_rc = rc, rs_base = base'\<rparr>"
    using run_check[of EXPECTED results "\<lparr>rs_docs = [], rs_rc = 0, rs_base = base'\<rparr>"] assms(2) stored rc by simp
  then have "perf_run results False base' =
        bindE (controls (docs_after results EXPECTED [])) (\<lambda>c. Inr (if fst c then rc else 1, base'))"
    by (simp add: perf_run_def derived cong: if_cong)
  then show ?thesis using stored rc by (auto simp: rc_after_def)
qed

lemma only_rb:
  "perf_run [''perf_block_rb.json'' \<mapsto> one_stage 8 10] True Map.empty
     = Inr (1, base_after [''perf_block_rb.json'' \<mapsto> one_stage 8 10] EXPECTED Map.empty)"
  "controls (docs_after [''perf_block_rb.json'' \<mapsto> one_stage 8 10] EXPECTED []) = Inr (True, None)"
proof -
  have docs: "docs_after [''perf_block_rb.json'' \<mapsto> one_stage 8 10] EXPECTED [] = [(''perf_block_rb.json'', one_stage 8 10)]"
    by (simp add: docs_after_def EXPECTED_def)
  then show "controls (docs_after [''perf_block_rb.json'' \<mapsto> one_stage 8 10] EXPECTED []) = Inr (True, None)"
    by (simp add: controls_def)
  have rc: "rc_after [''perf_block_rb.json'' \<mapsto> one_stage 8 10] EXPECTED 0 = 1"
    by (simp add: rc_after_def EXPECTED_def)
  have "derived_report [(''perf_block_rb.json'', one_stage 8 10)] = Inr ()" by code_simp
  then show "perf_run [''perf_block_rb.json'' \<mapsto> one_stage 8 10] True Map.empty
     = Inr (1, base_after [''perf_block_rb.json'' \<mapsto> one_stage 8 10] EXPECTED Map.empty)"
    using docs rc by (simp add: perf_run_def run_regenerate)
qed

theorem regenerate_then_check_witness:
  "\<exists>base'. perf_run [''perf_block_rb.json'' \<mapsto> one_stage 8 10] True Map.empty = Inr (1, base')
    \<and> base' ''block_cycles.register-blocked.json'' = Some (one_stage 8 10)
    \<and> perf_run [''perf_block_rb.json'' \<mapsto> one_stage 8 10] False base' = Inr (1, base')"
proof -
  have known: "d_bench d \<noteq> Other_Bench"
    if "n \<in> set EXPECTED" "[''perf_block_rb.json'' \<mapsto> one_stage 8 10] (fst n) = Some d" for n d
    using that(2) by (auto simp: one_stage_def split: if_splits)
  define results where "results = [''perf_block_rb.json'' \<mapsto> one_stage 8 10]"
  define B where "B = base_after results EXPECTED Map.empty"
  have "perf_run results True Map.empty = Inr (1, B)" using only_rb(1) by (simp add: results_def B_def)
  note R = regenerate_then_check[OF this]
  have R: "(\<forall>n \<in> set EXPECTED. \<forall>d. results (fst n) = Some d \<longrightarrow> B (snd n) = Some d)
    \<and> perf_run results False B = bindE (controls (docs_after results EXPECTED [])) (\<lambda>c. Inr (if fst c then 1 else 1, B))"
    using R known by (simp add: results_def)
  have "(''perf_block_rb.json'', ''block_cycles.register-blocked.json'') \<in> set EXPECTED" by (simp add: EXPECTED_def)
  from bspec[OF conjunct1[OF R] this] have "B ''block_cycles.register-blocked.json'' = Some (one_stage 8 10)"
    by (simp add: results_def)
  moreover have "perf_run results False B = Inr (1, B)"
    using conjunct2[OF R] only_rb(2) by (simp add: results_def)
  ultimately show ?thesis using only_rb(1) unfolding results_def B_def by blast
qed

section \<open>The control\<close>

text \<open>The control raises instead of reporting when the two block documents have no sequence
  length in common, and when the rule's total is zero where the naive one is not.\<close>

lemma controls_raise:
  "controls [(''perf_block_rb.json'', one_stage 8 10), (''perf_block_naive.json'', one_stage 16 10)] = Inl ValueError
   \<and> controls [(''perf_block_rb.json'', one_stage 8 0), (''perf_block_naive.json'', one_stage 8 10)] = Inl ZeroDivisionError"
  by (simp add: controls_def total_map_def block_totals_def one_stage_def put_all_def shape_total_def Let_def)

text \<open>Every check of the self-test holds.\<close>

lemma perf_self_test_passes: "perf_self_test = replicate 11 True"
  by code_simp

end
