(* ===== verification/Sweep_Block.thy ===== *)
theory Sweep_Block
  imports Check_Perf "HOL-Library.Multiset"
begin

text \<open>
  \<^verbatim>\<open>ci/sweep_block_sgemm.py\<close>: each sgemm call of the block, flipped to each other kernel, one at a
  time.  Launching the bench is a function argument: from the argument vector and the environment to
  the exit code, the result document's shapes and the rows of the trace.  The lemmas show that the
  sweep measures every alternative of every probed call or counts it as unreachable, and that it
  exits 0 exactly when no measured flip is faster than its baseline.
\<close>

section \<open>The bench\<close>

text \<open>A row of the trace; the columns are text, \<open>probed\<close> may be missing.\<close>

record trace_row =
  tr_call :: int
  tr_kernel :: string
  tr_probed :: "string option"
  tr_m :: string
  tr_n :: string
  tr_k :: string
  tr_batch :: string
  tr_transa :: string

record launch_result =
  lr_rc :: int
  lr_shapes :: "block_shape list"
  lr_trace :: "trace_row list"

type_synonym environ = "(string \<times> string) list"
type_synonym launcher = "string list \<Rightarrow> environ \<Rightarrow> launch_result"

definition KERNELS :: "string list" where
  "KERNELS = [''naive'', ''rb'', ''2d'', ''4x2'', ''4x4'']"

definition ENV_FOR :: "(string \<times> string) list" where
  "ENV_FOR = [(''naive'', ''GRXBLAS_SGEMM_NAIVE''), (''rb'', ''GRXBLAS_SGEMM_RB''), (''2d'', ''GRXBLAS_SGEMM_2D''),
     (''4x2'', ''GRXBLAS_SGEMM_4X2''), (''4x4'', ''GRXBLAS_SGEMM_4X4'')]"

definition totals_of :: "block_shape list \<Rightarrow> int list" where
  "totals_of shapes = map shape_total shapes"

text \<open>\<open>run_block\<close>: the document with its trace, or the exit code.\<close>

definition run_block ::
  "launcher \<Rightarrow> environ \<Rightarrow> string \<Rightarrow> environ \<Rightarrow> string \<Rightarrow> string \<Rightarrow> nat \<Rightarrow> int + (block_shape list \<times> trace_row list)" where
  "run_block launch environ binary env_extra out_json trace shape =
     (let cleared = filter (\<lambda>kv. fst kv \<notin> snd ` set ENV_FOR \<and> fst kv \<noteq> ''GRXBLAS_SGEMM_TRACE'') environ;
          env = put_all (env_extra @ [(''GRXBLAS_SGEMM_TRACE'', trace)]) cleared;
          r = launch [binary, ''--out'', out_json, ''--sweep'', ''--only-shape'', str_int (int shape)] env
      in if lr_rc r = 77 then Inl 77
         else if lr_rc r \<noteq> 0 then Inl (lr_rc r)
         else Inr (lr_shapes r, lr_trace r))"

definition read_trace :: "trace_row list \<Rightarrow> (int \<times> trace_row) list" where
  "read_trace rows = put_all (map (\<lambda>r. (tr_call r, r)) rows) []"

definition shape_of :: "trace_row \<Rightarrow> string" where
  "shape_of row = tr_m row @ ''x'' @ tr_n row @ ''x'' @ tr_k row
     @ (if tr_batch row \<noteq> ''1'' then ''b'' @ tr_batch row else [])
     @ (if tr_transa row = ''1'' then ''T'' else [])"

section \<open>Scoring\<close>

record flip =
  f_call :: int
  f_seq :: int
  f_shape :: string
  f_from :: string
  f_to :: string
  f_delta :: int

definition score :: "flip list \<Rightarrow> flip list \<times> flip list" where
  "score flips =
     (sort_key f_delta (filter (\<lambda>f. f_delta f < 0) flips),
      sort_key (\<lambda>f. - f_delta f) (filter (\<lambda>f. 0 < f_delta f) flips))"

section \<open>The sweep\<close>

record sweep_state =
  flips :: "flip list"
  unreachable :: nat
  outside :: nat
  baselines :: "int list"
  shape_seqs :: "int list"

text \<open>A statement of the sweep raises, returns an exit code, or goes on.\<close>

datatype 'a ctl = Return int | Go 'a

definition bindC :: "py_error + 'a ctl \<Rightarrow> ('a \<Rightarrow> py_error + 'b ctl) \<Rightarrow> py_error + 'b ctl" where
  "bindC x f = (case x of Inl e \<Rightarrow> Inl e | Inr (Return rc) \<Rightarrow> Inr (Return rc) | Inr (Go a) \<Rightarrow> f a)"

fun foldC :: "('a \<Rightarrow> 's \<Rightarrow> py_error + 's ctl) \<Rightarrow> 'a list \<Rightarrow> 's \<Rightarrow> py_error + 's ctl" where
  "foldC f [] s = Inr (Go s)"
| "foldC f (x # xs) s = bindC (f x s) (foldC f xs)"

definition nth_or_raise :: "'a list \<Rightarrow> nat \<Rightarrow> py_error + 'a" where
  "nth_or_raise xs i = (if i < length xs then Inr (xs ! i) else Inl IndexError)"

definition or_one :: "int \<Rightarrow> int" where
  "or_one rc = (if rc \<noteq> 0 then rc else 1)"

text \<open>The runs of one sweep differ in the forced kernel and call only.\<close>

type_synonym runner = "environ \<Rightarrow> string \<times> string \<Rightarrow> nat \<Rightarrow> int + (block_shape list \<times> trace_row list)"

definition flip_env :: "int \<Rightarrow> string \<Rightarrow> environ" where
  "flip_env call alt = (case map_of ENV_FOR alt of None \<Rightarrow> [] | Some v \<Rightarrow> [(v, ''#'' @ str_int call)])"

text \<open>The names of the result and trace files of a run.\<close>

definition flip_files :: "nat \<Rightarrow> int \<Rightarrow> string \<Rightarrow> string \<times> string" where
  "flip_files shape call alt =
     (let tag = str_int (int shape) @ ''_'' @ str_int call @ ''_'' @ alt in (''f'' @ tag @ ''.json'', ''t'' @ tag @ ''.csv''))"

definition base_files :: "nat \<Rightarrow> string \<times> string" where
  "base_files shape = (''base'' @ str_int (int shape) @ ''.json'', ''census'' @ str_int (int shape) @ ''.csv'')"

definition try_flip ::
  "runner \<Rightarrow> nat \<Rightarrow> int \<Rightarrow> int \<Rightarrow> trace_row \<Rightarrow> string \<Rightarrow> sweep_state \<Rightarrow> py_error + sweep_state ctl" where
  "try_flip runb shape seq base row alt st =
     (if alt = tr_kernel row then Inr (Go st)
      else case runb (flip_env (tr_call row) alt) (flip_files shape (tr_call row) alt) shape of
             Inl rc \<Rightarrow> Inr (Return (or_one rc))
           | Inr (shapes, trace) \<Rightarrow>
               (if map_option tr_kernel (map_of (read_trace trace) (tr_call row)) \<noteq> Some alt
                then Inr (Go (st\<lparr>unreachable := unreachable st + 1\<rparr>))
                else bindE (nth_or_raise (totals_of shapes) shape) (\<lambda>t.
                  Inr (Go (st\<lparr>flips := flips st @
                    [\<lparr>f_call = tr_call row, f_seq = seq, f_shape = shape_of row, f_from = tr_kernel row,
                      f_to = alt, f_delta = t - base\<rparr>]\<rparr>)))))"

definition try_call :: "runner \<Rightarrow> nat \<Rightarrow> int \<Rightarrow> int \<Rightarrow> trace_row \<Rightarrow> sweep_state \<Rightarrow> py_error + sweep_state ctl" where
  "try_call runb shape seq base row st =
     (if tr_probed row \<noteq> Some ''1'' then Inr (Go (st\<lparr>outside := outside st + 1\<rparr>))
      else foldC (try_flip runb shape seq base row) KERNELS st)"

definition census_rows :: "trace_row list \<Rightarrow> trace_row list" where
  "census_rows trace = map snd (sort_key fst (read_trace trace))"

definition try_shape :: "runner \<Rightarrow> nat \<Rightarrow> sweep_state \<Rightarrow> py_error + sweep_state ctl" where
  "try_shape runb shape st =
     (case runb [] (base_files shape) shape of
        Inl rc \<Rightarrow> Inr (Return (if rc = 77 then 77 else or_one rc))
      | Inr (shapes, trace) \<Rightarrow>
          bindE (nth_or_raise shapes shape) (\<lambda>sh.
            foldC (try_call runb shape (bs_seq sh) (shape_total sh)) (census_rows trace)
              (st\<lparr>baselines := baselines st @ [shape_total sh], shape_seqs := shape_seqs st @ [bs_seq sh]\<rparr>)))"

definition sweep_init :: sweep_state where
  "sweep_init = \<lparr>flips = [], unreachable = 0, outside = 0, baselines = [], shape_seqs = []\<rparr>"

text \<open>The result is the exit code and, when all runs were made, what was measured.\<close>

definition sweep_with :: "runner \<Rightarrow> py_error + (int \<times> sweep_state option)" where
  "sweep_with runb =
     bindE (foldC (try_shape runb) [0, 1] sweep_init) (\<lambda>r.
       case r of Return rc \<Rightarrow> Inr (rc, None)
       | Go st \<Rightarrow> Inr (if fst (score (flips st)) = [] then 0 else 1, Some st))"

definition sweep :: "launcher \<Rightarrow> environ \<Rightarrow> string \<Rightarrow> string \<Rightarrow> py_error + (int \<times> sweep_state option)" where
  "sweep launch environ binary tmp =
     sweep_with (\<lambda>extra files shape.
       run_block launch environ binary extra (tmp @ ''/'' @ fst files) (tmp @ ''/'' @ snd files) shape)"

section \<open>The self-test\<close>

definition planted :: "int \<Rightarrow> int \<Rightarrow> flip" where
  "planted call delta = \<lparr>f_call = call, f_seq = 0, f_shape = [], f_from = [], f_to = [], f_delta = delta\<rparr>"

definition sweep_self_test :: "bool list" where
  "sweep_self_test =
     [map_prod length length (score [planted 1 100]) = (0, 1),
      length (fst (score [planted 2 (-100)])) = 1,
      map f_delta (take 1 (fst (score [planted 2 (-100)]))) = [-100],
      map f_call (fst (score [planted 3 (-10), planted 4 (-500)])) = [4, 3],
      map f_call (snd (score [planted 5 7, planted 6 70])) = [6, 5],
      map_prod length length (score [planted 7 0]) = (0, 0)]"

section \<open>Every alternative is measured or counted\<close>

lemma bindC_Go: "bindC x f = Inr (Go b) \<longleftrightarrow> (\<exists>a. x = Inr (Go a) \<and> f a = Inr (Go b))"
  by (auto simp: bindC_def split: sum.splits ctl.splits)

lemma foldC_count:
  fixes m :: "'s \<Rightarrow> nat"
  assumes "\<And>x s s'. f x s = Inr (Go s') \<Longrightarrow> m s' = m s + c x"
  shows "foldC f xs s = Inr (Go s') \<Longrightarrow> m s' = m s + sum_list (map c xs)"
  by (induction xs arbitrary: s) (auto simp: bindC_Go dest: assms)

definition measured :: "sweep_state \<Rightarrow> nat" where
  "measured st = length (flips st) + unreachable st"

definition alternatives :: "trace_row \<Rightarrow> nat" where
  "alternatives row = length (filter (\<lambda>k. k \<noteq> tr_kernel row) KERNELS)"

lemma try_flip_counts:
  assumes "try_flip runb shape seq base row alt st = Inr (Go st')"
  shows "measured st' = measured st + (if alt \<noteq> tr_kernel row then 1 else 0)" "outside st' = outside st"
  using assms
  by (auto simp: try_flip_def measured_def bindE_Inr split: if_splits sum.splits prod.splits)

lemma try_call_counts:
  assumes "try_call runb shape seq base row st = Inr (Go st')"
  shows "measured st' = measured st + (if tr_probed row = Some ''1'' then alternatives row else 0)"
    "outside st' = outside st + (if tr_probed row = Some ''1'' then 0 else 1)"
proof -
  have len: "sum_list (map (\<lambda>k. if P k then 1 else 0) ks) = length (filter P ks)" for P and ks :: "string list"
    by (induction ks) auto
  show "measured st' = measured st + (if tr_probed row = Some ''1'' then alternatives row else 0)"
    using assms foldC_count[of "try_flip runb shape seq base row" measured "\<lambda>k. if k \<noteq> tr_kernel row then 1 else 0" KERNELS st st']
      try_flip_counts(1) by (auto simp: try_call_def alternatives_def len measured_def split: if_splits)
  show "outside st' = outside st + (if tr_probed row = Some ''1'' then 0 else 1)"
    using assms foldC_count[of "try_flip runb shape seq base row" outside "\<lambda>_. 0" KERNELS st st']
      try_flip_counts(2) by (auto simp: try_call_def split: if_splits)
qed

text \<open>The calls of the baseline run of a shape.\<close>

definition calls_of :: "runner \<Rightarrow> nat \<Rightarrow> trace_row list" where
  "calls_of runb shape = (case runb [] (base_files shape) shape of Inl _ \<Rightarrow> [] | Inr (_, trace) \<Rightarrow> census_rows trace)"

definition probed_alternatives :: "runner \<Rightarrow> nat \<Rightarrow> nat" where
  "probed_alternatives runb shape = (\<Sum>row\<leftarrow>calls_of runb shape. if tr_probed row = Some ''1'' then alternatives row else 0)"

definition unprobed_calls :: "runner \<Rightarrow> nat \<Rightarrow> nat" where
  "unprobed_calls runb shape = (\<Sum>row\<leftarrow>calls_of runb shape. if tr_probed row = Some ''1'' then 0 else 1)"

lemma try_shape_counts:
  assumes "try_shape runb shape st = Inr (Go st')"
  shows "measured st' = measured st + probed_alternatives runb shape" "outside st' = outside st + unprobed_calls runb shape"
proof -
  obtain shapes trace sh where run: "runb [] (base_files shape) shape = Inr (shapes, trace)"
    and go: "foldC (try_call runb shape (bs_seq sh) (shape_total sh)) (census_rows trace)
        (st\<lparr>baselines := baselines st @ [shape_total sh], shape_seqs := shape_seqs st @ [bs_seq sh]\<rparr>) = Inr (Go st')"
    using assms by (auto simp: try_shape_def bindE_Inr split: sum.splits prod.splits)
  have "measured st' = measured st + (\<Sum>row\<leftarrow>census_rows trace. if tr_probed row = Some ''1'' then alternatives row else 0)"
    using foldC_count[OF _ go, of measured "\<lambda>row. if tr_probed row = Some ''1'' then alternatives row else 0"]
      try_call_counts(1) by (simp add: measured_def)
  then show "measured st' = measured st + probed_alternatives runb shape"
    by (simp add: probed_alternatives_def calls_of_def run)
  have "outside st' = outside st + (\<Sum>row\<leftarrow>census_rows trace. if tr_probed row = Some ''1'' then 0 else 1)"
    using foldC_count[OF _ go, of outside "\<lambda>row. if tr_probed row = Some ''1'' then 0 else 1"]
      try_call_counts(2) by simp
  then show "outside st' = outside st + unprobed_calls runb shape"
    by (simp add: unprobed_calls_def calls_of_def run)
qed

lemma score_helped: "fst (score fs) = [] \<longleftrightarrow> (\<forall>f \<in> set fs. 0 \<le> f_delta f)"
proof -
  have "fst (score fs) = [] \<longleftrightarrow> filter (\<lambda>f. f_delta f < 0) fs = []"
    by (simp add: score_def) (metis set_empty2 set_sort)
  then show ?thesis by (auto simp: filter_empty_conv not_less)
qed

text \<open>[C16] A sweep that makes all its runs measures every alternative kernel of every probed call of
  both shapes, or counts it as unreachable; it counts the calls without a probe; and it exits 0 exactly when no
  measured flip is faster than its shape's baseline, and 1 otherwise.\<close>

theorem sweep_accounts:
  assumes "sweep_with runb = Inr (rc, Some st)"
  shows "length (flips st) + unreachable st = probed_alternatives runb 0 + probed_alternatives runb 1
    \<and> outside st = unprobed_calls runb 0 + unprobed_calls runb 1
    \<and> rc = (if \<forall>f \<in> set (flips st). 0 \<le> f_delta f then 0 else 1)"
proof -
  obtain s1 where s1: "try_shape runb 0 sweep_init = Inr (Go s1)" "try_shape runb 1 s1 = Inr (Go st)"
    and rc: "rc = (if fst (score (flips st)) = [] then 0 else 1)"
  proof -
    obtain r where r: "foldC (try_shape runb) [0, 1] sweep_init = Inr r"
      "(case r of Return rc \<Rightarrow> Inr (rc, None)
        | Go st \<Rightarrow> Inr (if fst (score (flips st)) = [] then 0 else 1, Some st)) = (Inr (rc, Some st) :: py_error + _)"
      using assms by (auto simp: sweep_with_def bindE_Inr)
    then show ?thesis using that by (cases r) (auto simp: bindC_Go)
  qed
  note c0 = try_shape_counts[OF s1(1)] and c1 = try_shape_counts[OF s1(2)]
  show ?thesis using c0 c1 rc by (simp add: measured_def sweep_init_def score_helped)
qed

definition STUBBORN :: runner where
  "STUBBORN extra files shape = Inr ([\<lparr>bs_seq = 8, bs_stages = []\<rparr>, \<lparr>bs_seq = 16, bs_stages = []\<rparr>],
     [\<lparr>tr_call = 0, tr_kernel = ''rb'', tr_probed = Some ''1'', tr_m = ''1'', tr_n = ''1'', tr_k = ''1'',
        tr_batch = ''1'', tr_transa = ''0''\<rparr>])"

lemma STUBBORN_run:
  "sweep_with STUBBORN = Inr (0, Some \<lparr>flips = [], unreachable = 8, outside = 0, baselines = [0, 0], shape_seqs = [8, 16]\<rparr>)"
  by code_simp

theorem sweep_accounts_witness: "probed_alternatives STUBBORN 0 + probed_alternatives STUBBORN 1 = 8"
  using sweep_accounts[OF STUBBORN_run] by simp

lemma sorted_neg_rev: "sorted (map (\<lambda>x. - g x :: int) xs) \<Longrightarrow> sorted (rev (map g xs))"
  by (induction xs) (auto simp: sorted_append)

text \<open>Scoring: the flips that helped and those that hurt are the ones with a negative and with a
  positive change, each once, the largest saving and the largest cost first; a flip that moves
  nothing is in neither.\<close>

lemma score_splits:
  "mset (fst (score fs)) = filter_mset (\<lambda>f. f_delta f < 0) (mset fs)
   \<and> mset (snd (score fs)) = filter_mset (\<lambda>f. 0 < f_delta f) (mset fs)
   \<and> sorted (map f_delta (fst (score fs))) \<and> sorted (rev (map f_delta (snd (score fs))))"
proof -
  have "sorted (map (\<lambda>f. - f_delta f) (snd (score fs)))" by (simp add: score_def)
  then have "sorted (rev (map f_delta (snd (score fs))))" by (rule sorted_neg_rev)
  then show ?thesis by (simp add: score_def)
qed

lemma sweep_self_test_passes: "sweep_self_test = replicate 6 True"
  by code_simp

end
