(* ===== verification/Photonic.thy ===== *)
theory Photonic
  imports Prelude Complex_Main
begin

text \<open>
  The photonic flow skeleton: \<^verbatim>\<open>photonic/pdk/layermap.py\<close>, \<^verbatim>\<open>photonic/drc/rules.py\<close>,
  \<^verbatim>\<open>photonic/check.py\<close> and the coupon geometry of \<^verbatim>\<open>photonic/cells.py\<close>.  Lengths are exact rationals in
  micrometres.  A component is its name and what its builder adds to it, in order: polygons on a
  layer, and references placed by the bottom of their bounding box.  What the layout library computes of a
  component (whether it is empty, its height) is an argument.
\<close>

section \<open>Layer map and rule table\<close>

text \<open>A value of the layer map: a pair of integers, or anything else.\<close>

datatype layer_entry = Pair int int | Not_Pair

definition PLACEHOLDER :: bool where "PLACEHOLDER = True"

definition LAYERS :: "(string \<times> layer_entry) list" where
  "LAYERS =
     [(''SI_CORE'', Pair 1 0), (''SIN_CORE'', Pair 2 0), (''GE_PD'', Pair 3 0), (''DOPING_N'', Pair 4 0),
      (''DOPING_P'', Pair 5 0), (''HEATER'', Pair 6 0), (''METAL_PAD'', Pair 7 0), (''FIBER_TRENCH'', Pair 8 0),
      (''MARKER'', Pair 9 0)]"

datatype layer_error = Flag_Tampered | Bad_Pair string | Out_Of_Range string | Collides string string

fun layer_errors :: "(layer_entry \<times> string) list \<Rightarrow> (string \<times> layer_entry) list \<Rightarrow> layer_error list" where
  "layer_errors seen [] = []"
| "layer_errors seen ((name, Not_Pair) # es) = Bad_Pair name # layer_errors seen es"
| "layer_errors seen ((name, Pair l d) # es) =
     (if 0 \<le> l \<and> l \<le> 255 \<and> 0 \<le> d \<and> d \<le> 255 then [] else [Out_Of_Range name])
     @ (case map_of seen (Pair l d) of None \<Rightarrow> [] | Some other \<Rightarrow> [Collides name other])
     @ layer_errors ((Pair l d, name) # seen) es"

definition validate_layers :: "bool \<Rightarrow> (string \<times> layer_entry) list \<Rightarrow> layer_error list" where
  "validate_layers placeholder layers = (if \<not> placeholder then [Flag_Tampered] else []) @ layer_errors [] layers"

datatype rule_entry = Rule rat string | Not_Rule

definition RULES :: "(string \<times> rule_entry) list" where
  "RULES =
     [(''si_min_width'', Rule (12 / 100) ''minimum silicon waveguide width''),
      (''si_min_space'', Rule (15 / 100) ''minimum silicon-to-silicon spacing''),
      (''sin_min_width'', Rule (3 / 10) ''minimum SiN waveguide width''),
      (''bend_min_radius_si'', Rule 5 ''minimum silicon bend radius''),
      (''heater_min_width'', Rule 1 ''minimum heater metal width''),
      (''pad_min_size'', Rule 50 ''minimum bond pad edge''),
      (''pad_min_pitch'', Rule 100 ''minimum bond pad pitch'')]"

datatype rule_error = Rule_Flag_Tampered | Bad_Rule string | Non_Positive string

definition rule_errors :: "string \<times> rule_entry \<Rightarrow> rule_error list" where
  "rule_errors e = (case e of
     (name, Not_Rule) \<Rightarrow> [Bad_Rule name]
   | (name, Rule v descr) \<Rightarrow> if v \<le> 0 then [Non_Positive name] else [])"

definition validate_rules :: "bool \<Rightarrow> (string \<times> rule_entry) list \<Rightarrow> rule_error list" where
  "validate_rules placeholder rules = (if \<not> placeholder then [Rule_Flag_Tampered] else []) @ concat (map rule_errors rules)"

datatype check_error = Layer_Error layer_error | Rule_Error rule_error | Doctrine_Violated | Missing_Layers

definition check_errors :: "bool \<Rightarrow> bool \<Rightarrow> (string \<times> layer_entry) list \<Rightarrow> (string \<times> rule_entry) list \<Rightarrow> check_error list" where
  "check_errors lp rp layers rules =
     map Layer_Error (validate_layers lp layers) @ map Rule_Error (validate_rules rp rules)
     @ (if \<not> lp \<or> \<not> rp then [Doctrine_Violated] else [])
     @ (if ''SI_CORE'' \<notin> fst ` set layers \<or> ''GE_PD'' \<notin> fst ` set layers then [Missing_Layers] else [])"

definition check_main :: "bool \<Rightarrow> bool \<Rightarrow> (string \<times> layer_entry) list \<Rightarrow> (string \<times> rule_entry) list \<Rightarrow> int" where
  "check_main lp rp layers rules = (if check_errors lp rp layers rules \<noteq> [] then 1 else 0)"

section \<open>The coupons\<close>

type_synonym point = "rat \<times> rat"

datatype component = Component string "shape list"
and shape = Polygon "(rat \<times> rat) list" layer_entry | Ref component rat

definition layer :: "string \<Rightarrow> layer_entry" where
  "layer name = (case map_of LAYERS name of None \<Rightarrow> Not_Pair | Some e \<Rightarrow> e)"

abbreviation SI :: layer_entry where "SI \<equiv> layer ''SI_CORE''"
abbreviation GE :: layer_entry where "GE \<equiv> layer ''GE_PD''"
abbreviation HEATER :: layer_entry where "HEATER \<equiv> layer ''HEATER''"
abbreviation PAD :: layer_entry where "PAD \<equiv> layer ''METAL_PAD''"
abbreviation TRENCH :: layer_entry where "TRENCH \<equiv> layer ''FIBER_TRENCH''"

definition WG_W :: rat where "WG_W = 45 / 100"
definition TAPER_L :: rat where "TAPER_L = 20"
definition TAPER_W0 :: rat where "TAPER_W0 = 12 / 100"
definition MMI_W :: rat where "MMI_W = 24 / 10"
definition MMI_L :: rat where "MMI_L = 12"
definition ARM_GAP :: rat where "ARM_GAP = 3"
definition ARM_L :: rat where "ARM_L = 100"
definition GE_W :: rat where "GE_W = 3"
definition GE_L :: rat where "GE_L = 10"
definition PAD_S :: rat where "PAD_S = 60"
definition PAD_PITCH :: rat where "PAD_PITCH = 100"

lemmas dims = WG_W_def TAPER_L_def TAPER_W0_def MMI_W_def MMI_L_def ARM_GAP_def ARM_L_def GE_W_def
  GE_L_def PAD_S_def PAD_PITCH_def

definition rect :: "rat \<Rightarrow> rat \<Rightarrow> rat \<Rightarrow> rat \<Rightarrow> layer_entry \<Rightarrow> shape" where
  "rect x0 y0 x1 y1 l = Polygon [(x0, y0), (x1, y0), (x1, y1), (x0, y1)] l"

definition wg_straight :: "rat \<Rightarrow> component" where
  "wg_straight len = Component ''wg_straight'' [rect 0 (- WG_W / 2) len (WG_W / 2) SI]"

definition taper :: "string \<Rightarrow> component" where
  "taper name = Component name
     [Polygon [(0, - TAPER_W0 / 2), (TAPER_L, - WG_W / 2), (TAPER_L, WG_W / 2), (0, TAPER_W0 / 2)] SI]"

definition mmi_1x2 :: component where
  "mmi_1x2 = Component ''mmi_1x2''
     [rect 0 (- MMI_W / 2) MMI_L (MMI_W / 2) SI,
      rect (-10) (- WG_W / 2) 0 (WG_W / 2) SI,
      rect MMI_L (- WG_W / 2 - 1) (MMI_L + 10) (- 1 + WG_W / 2) SI,
      rect MMI_L (1 - WG_W / 2) (MMI_L + 10) (1 + WG_W / 2) SI]"

definition splitter_geom :: "rat \<Rightarrow> shape list" where
  "splitter_geom x0 =
     [rect x0 (- MMI_W / 2) (x0 + MMI_L) (MMI_W / 2) SI,
      rect (x0 - 10) (- WG_W / 2) x0 (WG_W / 2) SI,
      rect (x0 + MMI_L) (- WG_W / 2 - 1) (x0 + MMI_L + 10) (- 1 + WG_W / 2) SI,
      rect (x0 + MMI_L) (1 - WG_W / 2) (x0 + MMI_L + 10) (1 + WG_W / 2) SI]"

definition mzm_coupon :: component where
  "mzm_coupon =
     (let width = MMI_L + ARM_L + MMI_L in
      Component ''mzm_coupon''
       (map (\<lambda>y. rect MMI_L y (MMI_L + ARM_L) (y + WG_W) SI) [- ARM_GAP / 2 - WG_W / 2, ARM_GAP / 2 - WG_W / 2]
        @ [rect MMI_L (- ARM_GAP / 2 - WG_W / 2) (MMI_L + ARM_L) (- ARM_GAP / 2 - WG_W / 2 + 2) HEATER]
        @ concat (map splitter_geom [0, MMI_L + ARM_L])
        @ map (\<lambda>(i, y). rect (width / 2 - PAD_S / 2 + of_nat i * 0) (y - PAD_S / 2) (width / 2 + PAD_S / 2) (y + PAD_S / 2) PAD)
            (enumerate 0 [- PAD_PITCH, PAD_PITCH])))"

definition pd_coupon :: component where
  "pd_coupon = Component ''pd_coupon''
     ([rect 0 (- GE_W / 2) GE_L (GE_W / 2) GE, rect (-5) (- WG_W / 2) 0 (WG_W / 2) SI]
      @ map (\<lambda>y. rect (GE_L / 2 - PAD_S / 2) (y - PAD_S / 2) (GE_L / 2 + PAD_S / 2) (y + PAD_S / 2) PAD)
          [- PAD_PITCH / 2, PAD_PITCH / 2])"

text \<open>Each reference is placed by its bottom edge, which the trench mark then reads back.\<close>

definition coupler_array :: "nat \<Rightarrow> component" where
  "coupler_array n = Component ''coupler_array''
     (concat (map (\<lambda>i. let dymin = of_nat i * PAD_PITCH / 4 in
        [Ref (taper (''taper_'' @ [char_of (48 + i)])) dymin, rect (-30) (dymin - 5) (-10) (dymin + 5) TRENCH]) [0..<n]))"

text \<open>\<open>build_top\<close>: the coupons one above the other, 20 apart.  The height of a component is the layout
  library's, and \<open>dymax\<close> of a placed reference is its bottom plus that.\<close>

fun place_all :: "(component \<Rightarrow> rat) \<Rightarrow> rat \<Rightarrow> component list \<Rightarrow> shape list" where
  "place_all height y [] = []"
| "place_all height y (c # cs) = Ref c y # place_all height (y + height c + 20) cs"

definition coupons :: "component list" where
  "coupons = [wg_straight 50, mmi_1x2, mzm_coupon, pd_coupon, coupler_array 4]"

definition build_top :: "(component \<Rightarrow> rat) \<Rightarrow> component" where
  "build_top height = Component ''vehicle_coupons'' (place_all height 0 coupons)"

datatype cell_error = Empty_Cell string | Width_Below_Min

definition si_min_width :: rat where
  "si_min_width = (case map_of RULES ''si_min_width'' of Some (Rule v _) \<Rightarrow> v | _ \<Rightarrow> 0)"

definition validate_cells :: "(component \<Rightarrow> bool) \<Rightarrow> component \<Rightarrow> cell_error list" where
  "validate_cells is_void top_cell = (case top_cell of Component _ insts \<Rightarrow>
     concat (map (\<lambda>s. case s of Ref (Component n ss) _ \<Rightarrow> (if is_void (Component n ss) then [Empty_Cell n] else []) | _ \<Rightarrow> []) insts)
     @ (if WG_W < si_min_width \<or> TAPER_W0 < si_min_width then [Width_Below_Min] else []))"

definition cells_main :: "(component \<Rightarrow> rat) \<Rightarrow> (component \<Rightarrow> bool) \<Rightarrow> int" where
  "cells_main height is_void = (if validate_cells is_void (build_top height) \<noteq> [] then 1 else 0)"

section \<open>The self-check\<close>

definition byte_pair :: "layer_entry \<Rightarrow> bool" where
  "byte_pair e = (case e of Pair l d \<Rightarrow> 0 \<le> l \<and> l \<le> 255 \<and> 0 \<le> d \<and> d \<le> 255 | Not_Pair \<Rightarrow> False)"

definition good_rule :: "rule_entry \<Rightarrow> bool" where
  "good_rule e = (case e of Rule v _ \<Rightarrow> 0 < v | Not_Rule \<Rightarrow> False)"

lemma layer_errors_empty:
  "layer_errors seen es = [] \<longleftrightarrow>
     (\<forall>e \<in> snd ` set es. byte_pair e) \<and> distinct (map snd es) \<and> snd ` set es \<inter> fst ` set seen = {}"
proof (induction seen es rule: layer_errors.induct)
  case (2 seen name es)
  have "\<not> byte_pair Not_Pair" by (simp add: byte_pair_def)
  then show ?case by simp
next
  case (3 seen name l d es)
  have "layer_errors seen ((name, Pair l d) # es) = [] \<longleftrightarrow>
      byte_pair (Pair l d) \<and> Pair l d \<notin> fst ` set seen \<and> layer_errors ((Pair l d, name) # seen) es = []"
    by (auto simp: byte_pair_def map_of_eq_None_iff split: option.splits if_splits)
       (metis image_eqI map_of_SomeD fst_conv)+
  then show ?case using 3 by auto
qed simp

lemma rule_errors_empty: "rule_errors e = [] \<longleftrightarrow> good_rule (snd e)"
  by (cases e; cases "snd e") (auto simp: rule_errors_def good_rule_def)

text \<open>[C33] The skeleton's self-check exits 0 exactly when both placeholder flags are set, every layer
  is a pair of integers in the byte range and no two layers share one, every rule is a positive number
  with a description, and the two layers the vehicle needs are in the map; and it does exit 0 on
  the tables as they stand.\<close>

theorem check_passes_iff:
  "(check_main lp rp layers rules = 0 \<longleftrightarrow>
      lp \<and> rp \<and> list_all byte_pair (map snd layers) \<and> distinct (map snd layers)
      \<and> list_all good_rule (map snd rules) \<and> {''SI_CORE'', ''GE_PD''} \<subseteq> fst ` set layers)
   \<and> check_main PLACEHOLDER PLACEHOLDER LAYERS RULES = 0"
proof
  have rules: "concat (map rule_errors rules) = [] \<longleftrightarrow> list_all good_rule (map snd rules)"
    by (auto simp: rule_errors_empty list_all_iff)
  show "check_main lp rp layers rules = 0 \<longleftrightarrow>
      lp \<and> rp \<and> list_all byte_pair (map snd layers) \<and> distinct (map snd layers)
      \<and> list_all good_rule (map snd rules) \<and> {''SI_CORE'', ''GE_PD''} \<subseteq> fst ` set layers"
    unfolding check_main_def check_errors_def validate_layers_def validate_rules_def
    using layer_errors_empty[of "[]" layers] rules by (simp add: list_all_iff) blast
  show "check_main PLACEHOLDER PLACEHOLDER LAYERS RULES = 0" by code_simp
qed

section \<open>What the cell check says, and what it does not\<close>

definition rule_value :: "string \<Rightarrow> rat" where
  "rule_value name = (case map_of RULES name of Some (Rule v _) \<Rightarrow> v | _ \<Rightarrow> 0)"

fun shapes_of :: "component \<Rightarrow> shape list" where
  "shapes_of (Component _ ss) = ss"

text \<open>The cell check passes exactly when the layout library finds none of the five coupons empty:
  of the silicon it checks two constants, and those meet the minimum width.\<close>

lemma cells_pass_iff: "cells_main height is_void = 0 \<longleftrightarrow> list_all (\<lambda>c. \<not> is_void c) coupons"
proof -
  have widths: "\<not> (WG_W < si_min_width \<or> TAPER_W0 < si_min_width)" by code_simp
  have "concat (map (\<lambda>s. case s of Ref (Component n ss) _ \<Rightarrow> (if is_void (Component n ss) then [Empty_Cell n] else []) | _ \<Rightarrow> [])
      (place_all height y cs)) = [] \<longleftrightarrow> (\<forall>c \<in> set cs. \<not> is_void c)" for y cs
    by (induction height y cs rule: place_all.induct) (auto split: component.splits)
  then show ?thesis using widths by (simp add: cells_main_def validate_cells_def build_top_def list_all_iff)
qed

text \<open>The Mach-Zehnder coupon is not clean against the rule table: the upper arm and the upper
  output of the first splitter are two silicon rectangles over the same stretch of x, the arm's
  lower edge above the output's upper edge, closer than the minimum spacing and not touching.  The
  check passes all the same.\<close>

lemma mzm_spacing_violation:
  "(\<exists>arm out. rect MMI_L arm (MMI_L + ARM_L) (arm + WG_W) SI \<in> set (shapes_of mzm_coupon)
     \<and> rect MMI_L (out - WG_W) (MMI_L + 10) out SI \<in> set (shapes_of mzm_coupon)
     \<and> out < arm \<and> arm - out < rule_value ''si_min_space'')
   \<and> cells_main (\<lambda>_. 1) (\<lambda>_. False) = 0"
proof
  have arm: "rect MMI_L (ARM_GAP / 2 - WG_W / 2) (MMI_L + ARM_L) (ARM_GAP / 2 - WG_W / 2 + WG_W) SI \<in> set (shapes_of mzm_coupon)"
    by (simp add: mzm_coupon_def Let_def)
  have out: "rect MMI_L (1 + WG_W / 2 - WG_W) (MMI_L + 10) (1 + WG_W / 2) SI \<in> set (shapes_of mzm_coupon)"
    by (simp add: mzm_coupon_def Let_def splitter_geom_def dims rect_def)
  have gap: "1 + WG_W / 2 < ARM_GAP / 2 - WG_W / 2" "ARM_GAP / 2 - WG_W / 2 - (1 + WG_W / 2) < rule_value ''si_min_space''"
    by code_simp+
  show "\<exists>arm out. rect MMI_L arm (MMI_L + ARM_L) (arm + WG_W) SI \<in> set (shapes_of mzm_coupon)
     \<and> rect MMI_L (out - WG_W) (MMI_L + 10) out SI \<in> set (shapes_of mzm_coupon)
     \<and> out < arm \<and> arm - out < rule_value ''si_min_space''"
    using arm out gap by blast
  show "cells_main (\<lambda>_. 1) (\<lambda>_. False) = 0" by code_simp
qed

end
