(* ===== verification/Gpu_Sched.thy ===== *)
theory Gpu_Sched
  imports Bank_Policy Tw_Sweep
begin

text \<open>
  \<^verbatim>\<open>docs/designs/pta_gpu_sched.py\<close>: the three weight-set policies of a GPU cluster's tile.  The streams
  of weight sets are lists, \<open>walk\<close> is the code's bank model with its two costs.  The lemmas tie \<open>walk\<close> to
  the LRU policy of the bank study, show that below the period of a CTA's cycle the order of the
  CTAs cannot matter, and discharge every assertion of \<open>checks\<close> at the kernel the file prices, whose
  streams have a million references.
\<close>

section \<open>Configuration\<close>

definition NUM_CLUSTERS :: int where "NUM_CLUSTERS = 8"

definition GEOMETRIES :: "(int \<times> int) list" where "GEOMETRIES = [(8, 8), (32, 32), (128, 64)]"

definition POINTS :: "(string \<times> int \<times> int) list" where
  "POINTS = [(''TO-1ms'', 100000, 5), (''TO-10us'', 1000, 5), (''EO-scan'', 0, 1), (''EO-res'', MB_TW, 1)]"

record gemm_kernel =
  kM :: int
  kN :: int
  kK :: int
  kBM :: int
  kBN :: int
  kBK :: int

definition KERNEL :: gemm_kernel where
  "KERNEL = \<lparr>kM = 4096, kN = 4096, kK = 4096, kBM = 128, kBN = 128, kBK = 32\<rparr>"

definition tile_sets :: "gemm_kernel \<Rightarrow> int \<Rightarrow> int \<Rightarrow> int \<times> int \<times> int \<times> int" where
  "tile_sets k R C = (kK k div R, kN k div C, kBK k div R, kBN k div C)"

section \<open>The streams\<close>

text \<open>The body of a CTA of the n block \<open>nb\<close>: its k loop.\<close>

definition cta_block :: "gemm_kernel \<Rightarrow> int \<Rightarrow> int \<Rightarrow> int \<Rightarrow> int list" where
  "cta_block kn R C nb =
     (case tile_sets kn R C of (_, ncs, kr_per, nc_per) \<Rightarrow>
        concat (map (\<lambda>k. concat (map (\<lambda>i.
          let kr = k * kr_per + i; base = kr * ncs + nb * nc_per
          in map (\<lambda>j. base + j) (py_range nc_per)) (py_range kr_per)))
          (py_range (kK kn div kBK kn))))"

text \<open>The n blocks of the CTAs a cluster runs, in the default order: CTAs go round robin over the
  clusters.\<close>

definition natural_blocks :: "gemm_kernel \<Rightarrow> int \<Rightarrow> int list" where
  "natural_blocks kn cluster =
     (let mt = kM kn div kBM kn; nt = kN kn div kBN kn;
          grid = concat (map (\<lambda>mb. py_range nt) (py_range mt))
      in map snd (filter (\<lambda>(cta, nb). int cta mod NUM_CLUSTERS = cluster) (List.enumerate 0 grid)))"

definition stream_k_inner :: "gemm_kernel \<Rightarrow> int \<Rightarrow> int \<Rightarrow> int \<Rightarrow> int list" where
  "stream_k_inner kn R C cluster = concat (map (cta_block kn R C) (natural_blocks kn cluster))"

definition affinity_columns :: "gemm_kernel \<Rightarrow> int \<Rightarrow> int list" where
  "affinity_columns kn cluster =
     filter (\<lambda>nb. nb mod NUM_CLUSTERS = cluster) (py_range (kN kn div kBN kn))"

definition stream_affinity :: "gemm_kernel \<Rightarrow> int \<Rightarrow> int \<Rightarrow> int \<Rightarrow> int list" where
  "stream_affinity kn R C cluster =
     concat (map (\<lambda>nb. concat (map (\<lambda>mb. cta_block kn R C nb) (py_range (kM kn div kBM kn))))
       (affinity_columns kn cluster))"

definition stream_declared :: "gemm_kernel \<Rightarrow> int \<Rightarrow> int \<Rightarrow> int \<Rightarrow> int list" where
  "stream_declared kn R C cluster =
     (case tile_sets kn R C of (krs, ncs, _, _) \<Rightarrow>
        map snd (filter (\<lambda>(i, wid). int i mod NUM_CLUSTERS = cluster)
          (List.enumerate 0 (concat (map (\<lambda>kr. map (\<lambda>nc. kr * ncs + nc) (py_range ncs)) (py_range krs))))))"

section \<open>The walk and the costs\<close>

record walk_state =
  w_banks :: "int list"
  w_cur :: "int option"
  w_refs :: nat
  w_selects :: nat
  w_loads :: nat

definition walk_init :: walk_state where
  "walk_init = \<lparr>w_banks = [], w_cur = None, w_refs = 0, w_selects = 0, w_loads = 0\<rparr>"

definition walk_step :: "nat \<Rightarrow> walk_state \<Rightarrow> int \<Rightarrow> walk_state" where
  "walk_step W s wid =
     (let s' = s\<lparr>w_refs := w_refs s + 1\<rparr> in
      if Some wid = w_cur s then s'
      else if wid \<in> set (w_banks s)
      then s'\<lparr>w_banks := remove1 wid (w_banks s) @ [wid], w_selects := w_selects s + 1, w_cur := Some wid\<rparr>
      else (let banks = w_banks s @ [wid] in
            s'\<lparr>w_loads := w_loads s + 1, w_banks := if W < length banks then tl banks else banks, w_cur := Some wid\<rparr>))"

definition walk :: "int list \<Rightarrow> nat \<Rightarrow> nat \<times> nat \<times> nat" where
  "walk sets W = (let s = foldl (walk_step W) walk_init sets in (w_refs s, w_selects s, w_loads s))"

definition movement_cycles :: "int \<Rightarrow> int \<Rightarrow> int \<Rightarrow> int \<Rightarrow> int \<Rightarrow> int" where
  "movement_cycles selects loads settle R C = selects * settle + loads * (R * C + settle)"

definition shot_cycles :: "gemm_kernel \<Rightarrow> int \<Rightarrow> int \<Rightarrow> int \<Rightarrow> int" where
  "shot_cycles k R C pta_ts = (kM k * (kK k div R) * (kN k div C)) div NUM_CLUSTERS * (pta_ts + SHOT_FLOOR)"

definition period_of :: "gemm_kernel \<Rightarrow> int \<Rightarrow> int \<Rightarrow> int" where
  "period_of k R C = (case tile_sets k R C of (_, _, kr_per, nc_per) \<Rightarrow> kr_per * nc_per * (kK k div kBK k))"

text \<open>\<open>checks\<close>: its assertions in order, on the kernel and the tile it is called with.\<close>

definition gpu_checks :: "gemm_kernel \<Rightarrow> int \<times> int \<Rightarrow> py_error + unit" where
  "gpu_checks k geometry =
     (case geometry of (R, C) \<Rightarrow>
      let period = nat (period_of k R C); mt = nat (kM k div kBM k);
          natural = stream_k_inner k R C 0; affinity = stream_affinity k R C 0; declared = stream_declared k R C 0
      in case walk natural 2 of (refs, sel2, ld2) \<Rightarrow>
         case walk affinity period of (_, sel_a, ld_a) \<Rightarrow>
         case walk declared 1 of (refs_d, sel_d, ld_d) \<Rightarrow>
           assert_all
             (map (\<lambda>W. Inr (walk natural W = walk affinity W)) [1, 2, 4, 8, 16, period div 2, period - 1]
              @ [Inr (ld_a * mt = ld2),
                 Inr (walk natural (2 * period) = (refs, 0, refs)),
                 Inr (ld_d = ld_a), Inr (sel_d = 0), Inr (sel_a = refs - ld_a)]
              @ map (\<lambda>(name, settle, _).
                  Inr (movement_cycles (int sel_d) (int ld_d) settle R C \<le> movement_cycles (int sel_a) (int ld_a) settle R C)) POINTS
              @ [Inr (SHOT_FLOOR = 2 \<and> MB_TW = 1),
                 Inr (movement_cycles 1 0 MB_TW R C = 1), Inr (movement_cycles 0 1 0 R C = R * C)]))"

section \<open>The walk is the LRU policy with free repeats\<close>

text \<open>The set driving the tile is the most recently used one.\<close>

definition walk_inv :: "nat \<Rightarrow> walk_state \<Rightarrow> bool" where
  "walk_inv W s \<longleftrightarrow> lru_inv W (w_banks s) \<and>
     (case w_cur s of None \<Rightarrow> w_banks s = [] | Some c \<Rightarrow> w_banks s \<noteq> [] \<and> last (w_banks s) = c)"

lemma walk_inv_cur: "walk_inv W s \<Longrightarrow> Some c = w_cur s \<Longrightarrow> w_banks s \<noteq> [] \<and> last (w_banks s) = c \<and> distinct (w_banks s)"
  by (simp add: walk_inv_def lru_inv_def) (metis option.simps(5))

lemma lru_step_last:
  assumes "distinct banks" "banks \<noteq> []"
  shows "lru_step W banks (last banks) = banks"
proof -
  have eq: "banks = butlast banks @ [last banks]" using assms(2) by simp
  then have "last banks \<notin> set (butlast banks)" using assms(1) by (metis distinct_append disjoint_insert(1) list.set(2) inf_commute)
  then have "remove1 (last banks) banks = butlast banks" by (subst eq) (simp add: remove1_append)
  then show ?thesis using assms(2) by (simp add: lru_step_def)
qed

lemma lru_step_not_nil: "0 < W \<Longrightarrow> lru_step W banks r \<noteq> [] \<and> last (lru_step W banks r) = r"
  by (cases banks) (auto simp: lru_step_def Let_def)

lemma walk_step_banks:
  assumes "walk_inv W s"
  shows "w_banks (walk_step W s wid) = lru_step W (w_banks s) wid"
proof (cases "Some wid = w_cur s")
  case True
  then have "w_banks s \<noteq> []" "last (w_banks s) = wid" "distinct (w_banks s)"
    using walk_inv_cur[OF assms] by blast+
  then show ?thesis using True lru_step_last[of "w_banks s" W] by (simp add: walk_step_def Let_def)
qed (simp add: walk_step_def lru_step_def Let_def)

lemma walk_step_inv:
  assumes "0 < W" "walk_inv W s"
  shows "walk_inv W (walk_step W s wid)"
proof -
  have "lru_inv W (lru_step W (w_banks s) wid)"
    using demand_policy.inv_step[OF lru_policy[OF assms(1)]] assms(2) by (simp add: walk_inv_def)
  moreover have "w_cur (walk_step W s wid) = Some wid" by (simp add: walk_step_def Let_def)
  ultimately show ?thesis using walk_step_banks[OF assms(2)] lru_step_not_nil[OF assms(1)]
    by (simp add: walk_inv_def)
qed

lemma walk_step_counts:
  assumes "walk_inv W s"
  shows "w_refs (walk_step W s wid) = w_refs s + 1"
    "w_loads (walk_step W s wid) = w_loads s + (if wid \<in> set (w_banks s) then 0 else 1)"
    "w_selects (walk_step W s wid) + (if wid \<in> set (w_banks s) then 0 else 1) =
       w_selects s + (if Some wid = w_cur s then 0 else 1)"
proof -
  have "wid \<in> set (w_banks s)" if "Some wid = w_cur s"
    using walk_inv_cur[OF assms that] by auto
  then show "w_refs (walk_step W s wid) = w_refs s + 1"
    "w_loads (walk_step W s wid) = w_loads s + (if wid \<in> set (w_banks s) then 0 else 1)"
    "w_selects (walk_step W s wid) + (if wid \<in> set (w_banks s) then 0 else 1) =
       w_selects s + (if Some wid = w_cur s then 0 else 1)"
    by (auto simp: walk_step_def Let_def)
qed

lemma walk_fold:
  assumes "0 < W" "walk_inv W s"
  shows "w_refs (foldl (walk_step W) s rs) = w_refs s + length rs
    \<and> w_loads (foldl (walk_step W) s rs) = w_loads s + count_misses (lru_step W) set (w_banks s) rs
    \<and> w_selects (foldl (walk_step W) s rs) + count_misses (lru_step W) set (w_banks s) rs =
        w_selects s + changes (w_cur s) rs"
  using assms(2)
proof (induction rs arbitrary: s)
  case (Cons r rs)
  have cur: "w_cur (walk_step W s r) = Some r" by (simp add: walk_step_def Let_def)
  note IH = Cons.IH[OF walk_step_inv[OF assms(1) Cons.prems, of r]]
  show ?case using IH walk_step_counts[OF Cons.prems, of r] walk_step_banks[OF Cons.prems, of r] cur
    by auto
qed simp

lemma walk_lru:
  assumes "0 < W"
  shows "walk sets W = (length sets, changes None sets - misses_lru sets W, misses_lru sets W)"
proof -
  have "walk_inv W walk_init" by (simp add: walk_inv_def walk_init_def lru_inv_def)
  from walk_fold[OF assms this, of sets] show ?thesis
    by (auto simp: walk_def Let_def walk_init_def misses_lru_count)
qed

section \<open>Streams made of blocks\<close>

text \<open>Blocks of one length, distinct inside and disjoint from each other; if equal blocks are more than
  \<open>q\<close> apart in the order, equal references are more than \<open>(q + 1) * p - 1\<close> apart in the stream.\<close>

lemma nth_concat_blocks:
  assumes "\<And>b. b \<in> set bs \<Longrightarrow> length (B b) = p" "x < length bs * p"
  shows "concat (map B bs) ! x = B (bs ! (x div p)) ! (x mod p)"
  using assms
proof (induction bs arbitrary: x)
  case (Cons b bs)
  show ?case
  proof (cases "x < p")
    case True
    then show ?thesis using Cons.prems(1)[of b] by (simp add: nth_append)
  next
    case False
    then have "0 < p" using Cons.prems(2) by (cases p) auto
    have "concat (map B bs) ! (x - p) = B (bs ! ((x - p) div p)) ! ((x - p) mod p)"
      using Cons False by (intro Cons.IH) auto
    then show ?thesis using False \<open>0 < p\<close> Cons.prems(1)[of b]
      by (simp add: nth_append le_div_geq le_mod_geq)
  qed
qed simp

lemma length_concat_blocks: "(\<And>b. b \<in> set bs \<Longrightarrow> length (B b) = p) \<Longrightarrow> length (concat (map B bs)) = length bs * p"
  by (induction bs) auto

lemma spaced_blocks:
  fixes bs :: "int list"
  assumes len: "\<And>b. b \<in> set bs \<Longrightarrow> length (B b) = p" and dist: "\<And>b. b \<in> set bs \<Longrightarrow> distinct (B b)"
    and disj: "\<And>b c. b \<in> set bs \<Longrightarrow> c \<in> set bs \<Longrightarrow> b \<noteq> c \<Longrightarrow> set (B b) \<inter> set (B c) = {}"
    and gap: "spaced q bs" and W: "W < (q + 1) * p"
  shows "spaced W (concat (map B bs))"
  unfolding spaced_def
proof (intro allI impI notI)
  fix i j assume j: "j < length (concat (map B bs))" and ij: "i < j" "j - i \<le> W"
    and eq: "concat (map B bs) ! i = concat (map B bs) ! j"
  have lenS: "length (concat (map B bs)) = length bs * p" by (rule length_concat_blocks) (rule len)
  then have "0 < length bs * p" using j by linarith
  then have p: "0 < p" by (cases p) auto
  have bound: "j < length bs * p" "i < length bs * p" using j ij lenS by auto
  then have blk: "j div p < length bs" "i div p < length bs" by (simp_all add: less_mult_imp_div_less)
  have mem: "bs ! (j div p) \<in> set bs" "bs ! (i div p) \<in> set bs" using blk by simp_all
  have e: "B (bs ! (i div p)) ! (i mod p) = B (bs ! (j div p)) ! (j mod p)"
    using eq bound nth_concat_blocks[of bs B p] len by simp
  have lens: "length (B (bs ! (i div p))) = p" "length (B (bs ! (j div p))) = p" using len mem by blast+
  have "B (bs ! (i div p)) ! (i mod p) \<in> set (B (bs ! (i div p)))" "B (bs ! (j div p)) ! (j mod p) \<in> set (B (bs ! (j div p)))"
    using lens p by simp_all
  then have same: "bs ! (i div p) = bs ! (j div p)" using e disj[OF mem] by (metis IntI empty_iff)
  then have "i mod p = j mod p" using e dist[OF mem(1)] lens p by (simp add: nth_eq_iff_index_eq)
  then have d: "j - i = (j div p - i div p) * p"
    using ij(1) by (metis diff_mult_distrib less_imp_le minus_mod_eq_mult_div mod_eq_iff_dvd_symdiff_nat mult.commute div_mult_mod_eq add_diff_cancel_right diff_mult_distrib2)
  then have "i div p < j div p" using ij(1) by (cases "i div p < j div p") auto
  then have "\<not> j div p - i div p \<le> q" using gap blk same unfolding spaced_def by blast
  then have "(q + 1) * p \<le> (j div p - i div p) * p" by (intro mult_le_mono1) simp
  then show False using d ij(2) W by simp
qed

section \<open>The blocks of a kernel\<close>

lemma concat_map_product: "concat (map (\<lambda>x. map (f x) ys) xs) = map (\<lambda>(x, y). f x y) (List.product xs ys)"
  by (induction xs) (auto simp: comp_def)

lemma concat_concat_map: "concat (map (\<lambda>k. concat (map (g k) ys)) xs) = concat (map (\<lambda>(k, y). g k y) (List.product xs ys))"
  by (induction xs) (auto simp: comp_def)

lemma range_rows:
  assumes "0 \<le> r" "0 \<le> n"
  shows "map (\<lambda>(k, i). k * r + i) (List.product (py_range n) (py_range r)) = py_range (r * n)"
  using concat_rows_int[OF assms, of 0] by (simp add: concat_map_product map_idI)

text \<open>A kernel whose sizes are positive and whose CTA tile holds at least one weight set.\<close>

definition kernel_ok :: "gemm_kernel \<Rightarrow> int \<Rightarrow> int \<Rightarrow> bool" where
  "kernel_ok k R C \<longleftrightarrow> 0 < kM k \<and> 0 < kN k \<and> 0 < kK k \<and> 0 < kBM k \<and> 0 < R \<and> 0 < C
     \<and> R \<le> kBK k \<and> C \<le> kBN k \<and> kBK k \<le> kK k"

lemma cta_block_product:
  assumes "kernel_ok k R C"
  shows "cta_block k R C nb =
    map (\<lambda>(kr, j). kr * (kN k div C) + nb * (kBN k div C) + j)
      (List.product (py_range (kBK k div R * (kK k div kBK k))) (py_range (kBN k div C)))"
proof -
  define g where "g kr = map (\<lambda>j. kr * (kN k div C) + nb * (kBN k div C) + j) (py_range (kBN k div C))" for kr
  have pos: "0 \<le> kBK k div R" "0 \<le> kK k div kBK k"
    using assms by (auto simp: kernel_ok_def pos_imp_zdiv_nonneg_iff)
  have "cta_block k R C nb = concat (map (\<lambda>x. concat (map (\<lambda>i. g (x * (kBK k div R) + i)) (py_range (kBK k div R)))) (py_range (kK k div kBK k)))"
    by (simp add: cta_block_def tile_sets_def Let_def g_def)
  also have "\<dots> = concat (map g (map (\<lambda>(x, i). x * (kBK k div R) + i) (List.product (py_range (kK k div kBK k)) (py_range (kBK k div R)))))"
    unfolding concat_concat_map by (simp add: comp_def split_def)
  also have "\<dots> = concat (map g (py_range (kBK k div R * (kK k div kBK k))))"
    by (simp only: range_rows[OF pos])
  also have "\<dots> = map (\<lambda>(kr, j). kr * (kN k div C) + nb * (kBN k div C) + j)
      (List.product (py_range (kBK k div R * (kK k div kBK k))) (py_range (kBN k div C)))"
    unfolding g_def by (rule concat_map_product)
  finally show ?thesis .
qed

lemma length_cta_block:
  assumes "kernel_ok k R C"
  shows "length (cta_block k R C nb) = nat (period_of k R C)"
proof -
  have "0 \<le> kBK k div R * (kK k div kBK k)" "0 \<le> kBN k div C"
    using assms by (auto simp: kernel_ok_def pos_imp_zdiv_nonneg_iff)
  then show ?thesis using cta_block_product[OF assms]
    by (simp add: period_of_def tile_sets_def nat_mult_distrib[symmetric] mult_ac)
qed

lemma zdiv_mult_le: "0 < c \<Longrightarrow> x div c * c \<le> (x :: int)"
  using pos_mod_sign[of c x] div_mult_mod_eq[of x c] by linarith

text \<open>A weight set's row and column block can be read off its number.\<close>

lemma column_bound:
  assumes "kernel_ok k R C" "0 \<le> nb" "nb < kN k div kBN k" "0 \<le> j" "j < kBN k div C"
  shows "0 \<le> nb * (kBN k div C) + j" "nb * (kBN k div C) + j < kN k div C"
proof -
  let ?c = "kBN k div C"
  have C: "0 < C" "0 < kBN k" using assms(1) by (auto simp: kernel_ok_def)
  have "(nb + 1) * ?c \<le> (kN k div kBN k) * ?c" using assms(3-5) by (intro mult_right_mono) auto
  moreover have "(kN k div kBN k) * ?c \<le> kN k div C"
  proof -
    have "(kN k div kBN k) * (?c * C) \<le> (kN k div kBN k) * kBN k"
      using C assms(2,3) by (intro mult_left_mono zdiv_mult_le) auto
    also have "\<dots> \<le> kN k" using C by (intro zdiv_mult_le)
    finally show ?thesis using C zdiv_mono1[of "(kN k div kBN k) * (?c * C)" "kN k" C] by (simp add: mult_ac)
  qed
  ultimately show "nb * ?c + j < kN k div C" using assms(5) by (simp add: algebra_simps)
  show "0 \<le> nb * ?c + j" using assms(2,4,5) by simp
qed

lemma set_numbers_inj:
  fixes n :: int
  assumes "a * n + x = b * n + y" "0 \<le> x" "x < n" "0 \<le> y" "y < n"
  shows "a = b \<and> x = y"
proof -
  have "(a * n + x) div n = a" "(b * n + y) div n = b" using assms(2-5) by (simp_all add: div_pos_pos_trivial)
  then have "a = b" using assms(1) by simp
  then show ?thesis using assms(1) by simp
qed

definition in_grid :: "gemm_kernel \<Rightarrow> int \<Rightarrow> bool" where
  "in_grid k nb \<longleftrightarrow> 0 \<le> nb \<and> nb < kN k div kBN k"

lemma cta_block_distinct:
  assumes "kernel_ok k R C" "in_grid k nb"
  shows "distinct (cta_block k R C nb)"
proof -
  have "inj_on (\<lambda>(kr, j). kr * (kN k div C) + nb * (kBN k div C) + j)
      (set (List.product (py_range (kBK k div R * (kK k div kBK k))) (py_range (kBN k div C))))"
  proof (rule inj_onI)
    fix x y
    assume xy: "x \<in> set (List.product (py_range (kBK k div R * (kK k div kBK k))) (py_range (kBN k div C)))"
      "y \<in> set (List.product (py_range (kBK k div R * (kK k div kBK k))) (py_range (kBN k div C)))"
      and e: "(case x of (kr, j) \<Rightarrow> kr * (kN k div C) + nb * (kBN k div C) + j)
        = (case y of (kr, j) \<Rightarrow> kr * (kN k div C) + nb * (kBN k div C) + j)"
    obtain kr j kr' j' where p: "x = (kr, j)" "y = (kr', j')" by (cases x; cases y)
    then have j: "0 \<le> j" "j < kBN k div C" "0 \<le> j'" "j' < kBN k div C" using xy by auto
    have "kr * (kN k div C) + (nb * (kBN k div C) + j) = kr' * (kN k div C) + (nb * (kBN k div C) + j')"
      using e p by simp
    from set_numbers_inj[OF this] have "kr = kr' \<and> nb * (kBN k div C) + j = nb * (kBN k div C) + j'"
      using column_bound[OF assms(1)] assms(2) j by (simp add: in_grid_def)
    then show "x = y" using p by simp
  qed
  then show ?thesis
    by (simp add: cta_block_product[OF assms(1)] distinct_map distinct_product)
qed

lemma cta_block_disjoint:
  assumes "kernel_ok k R C" "in_grid k nb" "in_grid k nb'" "nb \<noteq> nb'"
  shows "set (cta_block k R C nb) \<inter> set (cta_block k R C nb') = {}"
proof (rule ccontr)
  assume "set (cta_block k R C nb) \<inter> set (cta_block k R C nb') \<noteq> {}"
  then obtain kr j kr' j' where
    e: "kr * (kN k div C) + (nb * (kBN k div C) + j) = kr' * (kN k div C) + (nb' * (kBN k div C) + j')"
    and j: "0 \<le> j" "j < kBN k div C" "0 \<le> j'" "j' < kBN k div C"
    by (auto simp: cta_block_product[OF assms(1)] add.assoc)
  have "nb * (kBN k div C) + j = nb' * (kBN k div C) + j'"
    using set_numbers_inj[OF e] column_bound[OF assms(1)] assms(2,3) j by (simp add: in_grid_def)
  then show False using set_numbers_inj[of nb "kBN k div C" j nb' j'] j assms(4) by blast
qed

section \<open>Below the period the order of the CTAs does not matter\<close>

lemma spaced_mono: "spaced W xs \<Longrightarrow> V \<le> W \<Longrightarrow> spaced V xs"
  by (auto simp: spaced_def)

lemma changes_all: "spaced 1 xs \<Longrightarrow> changes None xs = length xs"
  by (cases xs) (simp_all add: changes_spaced)

lemma walk_spaced:
  assumes "0 < W" "spaced W xs"
  shows "walk xs W = (length xs, 0, length xs)"
  using walk_lru[OF assms(1), of xs] lru_no_hits[OF assms(2)] changes_all spaced_mono[OF assms(2), of 1] assms(1)
  by simp

definition affinity_blocks :: "gemm_kernel \<Rightarrow> int \<Rightarrow> int list" where
  "affinity_blocks k cluster = concat (map (\<lambda>nb. replicate (nat (kM k div kBM k)) nb) (affinity_columns k cluster))"

lemma concat_replicate_blocks: "concat (map B (replicate m x)) = concat (replicate m (B x))"
  by (induction m) simp_all

lemma concat_map_concat: "concat (map B (concat xss)) = concat (map (\<lambda>xs. concat (map B xs)) xss)"
  by (induction xss) simp_all

lemma stream_affinity_columns:
  "stream_affinity k R C cluster =
    concat (map (\<lambda>nb. concat (replicate (nat (kM k div kBM k)) (cta_block k R C nb))) (affinity_columns k cluster))"
proof -
  have "concat (map (\<lambda>mb. B) (py_range m)) = concat (replicate (nat m) B)" for B :: "int list" and m
    by (simp add: py_range_def comp_def map_replicate_const)
  then show ?thesis by (simp add: stream_affinity_def)
qed

lemma stream_affinity_blocks:
  "stream_affinity k R C cluster = concat (map (cta_block k R C) (affinity_blocks k cluster))"
  by (simp add: stream_affinity_columns affinity_blocks_def concat_map_concat comp_def concat_replicate_blocks)

lemma natural_in_grid:
  assumes "nb \<in> set (natural_blocks k cluster)"
  shows "in_grid k nb"
proof -
  have "set (natural_blocks k cluster) \<subseteq> set (concat (map (\<lambda>mb. py_range (kN k div kBN k)) (py_range (kM k div kBM k))))"
    unfolding natural_blocks_def Let_def by (auto simp: in_set_enumerate_eq simp del: set_concat)
  then show ?thesis using assms by (auto simp: in_grid_def split: if_splits)
qed

lemma affinity_in_grid: "nb \<in> set (affinity_blocks k cluster) \<Longrightarrow> in_grid k nb"
  by (auto simp: affinity_blocks_def affinity_columns_def in_grid_def)

lemma block_stream_spaced:
  assumes "kernel_ok k R C" "\<And>nb. nb \<in> set bs \<Longrightarrow> in_grid k nb" "spaced q bs" "W < (q + 1) * nat (period_of k R C)"
  shows "spaced W (concat (map (cta_block k R C) bs))"
  by (rule spaced_blocks[where p = "nat (period_of k R C)" and q = q])
    (use assms length_cta_block cta_block_distinct cta_block_disjoint in blast)+

lemma spaced_0: "spaced 0 xs"
  by (simp add: spaced_def)

text \<open>[C29] Re-ordering the CTAs cannot help a bank count below the period: for every kernel and tile
  with positive sizes, every cluster and every number of banks below the number of weight sets one CTA
  goes through, each reference of the natural and of the affinity stream is a load.\<close>

theorem below_period_every_reference_loads:
  assumes "kernel_ok k R C" "0 < W" "W < nat (period_of k R C)"
  shows "walk (stream_k_inner k R C cluster) W
      = (length (stream_k_inner k R C cluster), 0, length (stream_k_inner k R C cluster))
    \<and> walk (stream_affinity k R C cluster) W
      = (length (stream_affinity k R C cluster), 0, length (stream_affinity k R C cluster))"
proof
  show "walk (stream_k_inner k R C cluster) W
      = (length (stream_k_inner k R C cluster), 0, length (stream_k_inner k R C cluster))"
    unfolding stream_k_inner_def
    by (rule walk_spaced[OF assms(2) block_stream_spaced[OF assms(1) natural_in_grid spaced_0]]) (use assms(3) in simp_all)
  show "walk (stream_affinity k R C cluster) W
      = (length (stream_affinity k R C cluster), 0, length (stream_affinity k R C cluster))"
    unfolding stream_affinity_blocks
    by (rule walk_spaced[OF assms(2) block_stream_spaced[OF assms(1) affinity_in_grid spaced_0]]) (use assms(3) in simp_all)
qed

section \<open>At the period\<close>

lemma count_misses_append:
  "count_misses step res s (xs @ ys) = count_misses step res s xs + count_misses step res (foldl step s xs) ys"
  by (induction xs arbitrary: s) auto

lemma distinct_spaced: "distinct xs \<Longrightarrow> spaced W xs"
  by (auto simp: spaced_def nth_eq_iff_index_eq)

lemma lru_spaced_state: "spaced W (pre @ rs) \<Longrightarrow> foldl (lru_step W) (last_refs W pre) rs = last_refs W (pre @ rs)"
proof (induction rs arbitrary: pre)
  case (Cons r rs)
  have "r \<notin> set (last_refs W pre)" using spaced_fresh Cons.prems by blast
  then have "lru_step W (last_refs W pre) r = last_refs W (pre @ [r])" by (simp add: lru_step_def last_refs_snoc)
  then show ?case using Cons.IH[of "pre @ [r]"] Cons.prems by simp
qed simp

lemma run_fresh:
  assumes "distinct (banks @ xs)" "length banks \<le> W" "length xs = W"
  shows "foldl (lru_step W) banks xs = xs" "count_misses (lru_step W) set banks xs = W"
proof -
  have sp: "spaced W (banks @ xs)" using assms(1) by (rule distinct_spaced)
  have b: "last_refs W banks = banks" using assms(2) by (simp add: last_refs_def)
  show "foldl (lru_step W) banks xs = xs" using lru_spaced_state[OF sp] b assms(3) by (simp add: last_refs_def)
  show "count_misses (lru_step W) set banks xs = W" using lru_spaced[OF sp] b assms(3) by simp
qed

lemma run_hits:
  "distinct (xs @ ys) \<Longrightarrow> foldl (lru_step W) (xs @ ys) xs = ys @ xs \<and> count_misses (lru_step W) set (xs @ ys) xs = 0"
proof (induction xs arbitrary: ys)
  case (Cons x xs)
  have "lru_step W ((x # xs) @ ys) x = xs @ (ys @ [x])" by (simp add: lru_step_def)
  then show ?case using Cons.IH[of "ys @ [x]"] Cons.prems by auto
qed simp

lemma run_repeats:
  assumes "distinct xs"
  shows "foldl (lru_step W) xs (concat (replicate m xs)) = xs \<and> count_misses (lru_step W) set xs (concat (replicate m xs)) = 0"
  using run_hits[of xs "[]" W] assms by (induction m) (simp_all add: count_misses_append)

lemma run_columns:
  assumes "distinct cols" "0 < m" "distinct banks" "length banks \<le> p"
    and "\<And>c. c \<in> set cols \<Longrightarrow> length (B c) = p \<and> distinct (B c) \<and> set banks \<inter> set (B c) = {}"
    and "\<And>c d. c \<in> set cols \<Longrightarrow> d \<in> set cols \<Longrightarrow> c \<noteq> d \<Longrightarrow> set (B c) \<inter> set (B d) = {}"
  shows "count_misses (lru_step p) set banks (concat (map (\<lambda>c. concat (replicate m (B c))) cols)) = length cols * p"
  using assms
proof (induction cols arbitrary: banks)
  case (Cons c cols)
  obtain m' where m: "m = Suc m'" using Cons.prems(2) by (cases m) auto
  have c: "length (B c) = p" "distinct (B c)" "distinct (banks @ B c)" using Cons.prems(3) Cons.prems(5)[of c] by auto
  note fresh = run_fresh[OF c(3) Cons.prems(4) c(1)] and again = run_repeats[OF c(2), of p m']
  have "count_misses (lru_step p) set (B c) (concat (map (\<lambda>c. concat (replicate m (B c))) cols)) = length cols * p"
  proof (rule Cons.IH)
    show "length (B d) = p \<and> distinct (B d) \<and> set (B c) \<inter> set (B d) = {}" if "d \<in> set cols" for d
      using Cons.prems(1) Cons.prems(5)[of d] Cons.prems(6)[of c d] that by auto
    show "set (B d) \<inter> set (B e) = {}" if "d \<in> set cols" "e \<in> set cols" "d \<noteq> e" for d e
      using Cons.prems(6)[of d e] that by simp
  qed (use Cons.prems c in auto)
  then show ?case using fresh again by (simp add: m count_misses_append)
qed simp

section \<open>The assertions of the file\<close>

lemma enumerate_range:
  "map snd (filter (\<lambda>(i, x). P i) (List.enumerate 0 (py_range n))) = filter (\<lambda>x. P (nat x)) (py_range n)"
proof -
  have "List.enumerate 0 (py_range n) = map (\<lambda>i. (nat i, i)) (py_range n)"
    by (rule nth_equalityI) (simp_all add: nth_enumerate_eq py_range_def)
  then show ?thesis by (simp add: filter_map comp_def)
qed

lemma stream_declared_filter:
  assumes "kernel_ok k R C"
  shows "stream_declared k R C cluster =
    filter (\<lambda>wid. wid mod NUM_CLUSTERS = cluster) (py_range ((kK k div R) * (kN k div C)))"
proof -
  have pos: "0 \<le> kK k div R" "0 \<le> kN k div C"
    using assms by (auto simp: kernel_ok_def pos_imp_zdiv_nonneg_iff)
  have "concat (map (\<lambda>kr. map (\<lambda>nc. kr * (kN k div C) + nc) (py_range (kN k div C))) (py_range (kK k div R)))
      = py_range ((kK k div R) * (kN k div C))"
    using range_rows[OF pos(2,1)] by (simp add: concat_map_product mult.commute)
  then have "stream_declared k R C cluster =
      filter (\<lambda>wid. int (nat wid) mod NUM_CLUSTERS = cluster) (py_range ((kK k div R) * (kN k div C)))"
    using enumerate_range[of "\<lambda>i. int i mod NUM_CLUSTERS = cluster"] by (simp add: stream_declared_def tile_sets_def)
  also have "\<dots> = filter (\<lambda>wid. wid mod NUM_CLUSTERS = cluster) (py_range ((kK k div R) * (kN k div C)))"
    by (rule filter_cong) auto
  finally show ?thesis .
qed

lemma declared_spaced: "kernel_ok k R C \<Longrightarrow> spaced W (stream_declared k R C cluster)"
  by (rule distinct_spaced) (simp add: stream_declared_filter distinct_filter)

lemma length_every: "0 < d \<Longrightarrow> length (filter (\<lambda>i. i mod d = 0) [0..<d * n]) = n"
proof (induction n)
  case (Suc n)
  have "[0..<d * Suc n] = [0..<d * n] @ [d * n..<d * n + d]"
    using upt_add_eq_append[of 0 "d * n" d] by (simp add: add.commute)
  moreover have "filter (\<lambda>i. i mod d = 0) [d * n..<d * n + d] = [d * n]"
  proof -
    have "[d * n..<d * n + d] = d * n # [Suc (d * n)..<d * n + d]" using Suc.prems by (simp add: upt_rec)
    moreover have "i mod d \<noteq> 0" if "Suc (d * n) \<le> i" "i < d * n + d" for i
    proof -
      have "i = d * n + (i - d * n)" "0 < i - d * n" "i - d * n < d" using that by auto
      then show ?thesis by (metis less_not_refl mod_less mod_mult_self2 add.commute)
    qed
    ultimately show ?thesis by (simp add: filter_empty_conv)
  qed
  ultimately show ?case using Suc by simp
qed simp

lemma kernel8: "kernel_ok KERNEL 8 8" "period_of KERNEL 8 8 = 8192"
  by (simp_all add: kernel_ok_def KERNEL_def period_of_def tile_sets_def)

lemma rows_shift:
  fixes d :: nat
  assumes "d dvd s"
  shows "map snd (filter (\<lambda>(i, x). i mod d = c) (List.enumerate s xs)) = map snd (filter (\<lambda>(i, x). i mod d = c) (List.enumerate 0 xs))"
proof -
  have "List.enumerate s xs = map (\<lambda>(i, x). (s + i, x)) (List.enumerate 0 xs)"
    by (rule nth_equalityI) (simp_all add: nth_enumerate_eq)
  moreover have "(s + i) mod d = i mod d" for i using assms by (metis dvd_imp_mod_0 mod_add_left_eq add_0)
  ultimately show ?thesis by (simp add: filter_map comp_def split_def)
qed

lemma rows_repeat:
  fixes d :: nat
  assumes "d dvd s" "d dvd length xs"
  shows "map snd (filter (\<lambda>(i, x). i mod d = c) (List.enumerate s (concat (replicate m xs))))
    = concat (replicate m (map snd (filter (\<lambda>(i, x). i mod d = c) (List.enumerate 0 xs))))"
  using assms(1)
proof (induction m arbitrary: s)
  case (Suc m)
  have "d dvd s + length xs" using Suc.prems assms(2) by simp
  from Suc.IH[OF this] show ?case using rows_shift[OF Suc.prems, of c xs] by (simp add: enumerate_append_eq)
qed simp

text \<open>When the clusters divide the columns of the grid, a cluster's CTAs cycle through its columns.\<close>

lemma natural_cycles:
  assumes "NUM_CLUSTERS dvd kN k div kBN k" "0 \<le> kN k div kBN k" "0 \<le> cluster"
  shows "natural_blocks k cluster = concat (replicate (nat (kM k div kBM k)) (affinity_columns k cluster))"
proof -
  let ?row = "py_range (kN k div kBN k)" and ?m = "nat (kM k div kBM k)"
  have d: "8 dvd length ?row" using assms(1,2) by (simp add: NUM_CLUSTERS_def nat_dvd_iff[of _ 8, simplified] flip: int_dvd_int_iff)
  have "int i mod 8 = cluster \<longleftrightarrow> i mod 8 = nat cluster" for i
  proof -
    have "int i mod 8 = int (i mod 8)" by (simp add: zmod_int)
    then show ?thesis using assms(3) by auto
  qed
  then have P: "(\<lambda>(i, nb). int i mod NUM_CLUSTERS = cluster) = (\<lambda>(i :: nat, nb :: int). i mod 8 = nat cluster)"
    by (simp add: fun_eq_iff NUM_CLUSTERS_def)
  have "concat (map (\<lambda>mb. ?row) (py_range (kM k div kBM k))) = concat (replicate ?m ?row)"
    by (simp add: py_range_def comp_def map_replicate_const)
  then have "natural_blocks k cluster =
      concat (replicate ?m (map snd (filter (\<lambda>(i, x). i mod 8 = nat cluster) (List.enumerate 0 ?row))))"
    using rows_repeat[of 8 0 ?row "nat cluster" ?m] d by (simp add: natural_blocks_def Let_def P)
  also have "map snd (filter (\<lambda>(i, x). i mod 8 = nat cluster) (List.enumerate 0 ?row)) = affinity_columns k cluster"
    unfolding enumerate_range affinity_columns_def
  proof (rule filter_cong)
    fix x assume "x \<in> set ?row"
    then have "nat x mod 8 = nat (x mod 8)" by (simp add: nat_mod_distrib)
    then show "nat x mod 8 = nat cluster \<longleftrightarrow> x mod NUM_CLUSTERS = cluster"
      using assms(3) by (auto simp: NUM_CLUSTERS_def)
  qed simp
  finally show ?thesis .
qed

lemma affinity8: "affinity_columns KERNEL 0 = [0, 8, 16, 24]"
  by code_simp

lemma natural8: "natural_blocks KERNEL 0 = concat (replicate 32 [0, 8, 16, 24])"
  using natural_cycles[of KERNEL 0] affinity8 by (simp add: KERNEL_def NUM_CLUSTERS_def)

lemma length_every_int: "0 < d \<Longrightarrow> length (filter (\<lambda>w. w mod int d = 0) (py_range (int (d * n)))) = n"
  using length_every[of d n] by (simp add: py_range_def filter_map comp_def nat_mult_distrib flip: zmod_int)

lemma declared8: "length (stream_declared KERNEL 8 8 0) = 32768"
  using length_every_int[of 8 32768] unfolding stream_declared_filter[OF kernel8(1)] by (simp add: KERNEL_def NUM_CLUSTERS_def)

lemma natural8_loads:
  assumes "0 < W" "W \<le> 2 * 8192"
  shows "walk (stream_k_inner KERNEL 8 8 0) W = (1048576, 0, 1048576)"
proof -
  have "spaced W (stream_k_inner KERNEL 8 8 0)"
    unfolding stream_k_inner_def
  proof (rule block_stream_spaced[OF kernel8(1)])
    show "spaced 3 (natural_blocks KERNEL 0)" unfolding natural8 by (rule spaced_cyclic) simp_all
  qed (use assms(2) kernel8(2) natural_in_grid[of _ KERNEL 0] in simp_all)
  moreover have "length (stream_k_inner KERNEL 8 8 0) = 1048576"
    using length_concat_blocks[of "natural_blocks KERNEL 0" "cta_block KERNEL 8 8" 8192]
      length_cta_block[OF kernel8(1)] kernel8(2)
    by (simp add: stream_k_inner_def natural8 length_concat sum_list_replicate)
  ultimately show ?thesis using walk_spaced[OF assms(1)] by simp
qed

lemma affinity8_length: "length (stream_affinity KERNEL 8 8 0) = 1048576"
  using length_cta_block[OF kernel8(1)] kernel8(2)
  by (simp add: stream_affinity_columns affinity8 length_concat sum_list_replicate) (simp add: KERNEL_def)

lemma affinity8_below:
  assumes "0 < W" "W < 8192"
  shows "walk (stream_affinity KERNEL 8 8 0) W = (1048576, 0, 1048576)"
proof -
  have "spaced W (stream_affinity KERNEL 8 8 0)"
    unfolding stream_affinity_blocks
    by (rule block_stream_spaced[OF kernel8(1) affinity_in_grid spaced_0]) (use assms(2) kernel8(2) in simp_all)
  then show ?thesis using walk_spaced[OF assms(1)] affinity8_length by simp
qed

lemma affinity8_misses: "misses_lru (stream_affinity KERNEL 8 8 0) 8192 = 32768"
proof -
  have "count_misses (lru_step 8192) set []
      (concat (map (\<lambda>c. concat (replicate 32 (cta_block KERNEL 8 8 c))) [0, 8, 16, 24])) = length [0, 8, 16, 24 :: int] * 8192"
  proof (rule run_columns)
    fix c assume "c \<in> set [0, 8, 16, 24 :: int]"
    then have c: "in_grid KERNEL c" by (auto simp: in_grid_def KERNEL_def)
    then show "length (cta_block KERNEL 8 8 c) = 8192 \<and> distinct (cta_block KERNEL 8 8 c) \<and> set [] \<inter> set (cta_block KERNEL 8 8 c) = {}"
      using length_cta_block[OF kernel8(1)] kernel8(2) cta_block_distinct[OF kernel8(1)] by simp
    fix d assume "d \<in> set [0, 8, 16, 24 :: int]" "c \<noteq> d"
    then have "in_grid KERNEL d" by (auto simp: in_grid_def KERNEL_def)
    then show "set (cta_block KERNEL 8 8 c) \<inter> set (cta_block KERNEL 8 8 d) = {}"
      using cta_block_disjoint[OF kernel8(1) c] \<open>c \<noteq> d\<close> by blast
  qed simp_all
  moreover have "nat (kM KERNEL div kBM KERNEL) = 32" by (simp add: KERNEL_def)
  ultimately show ?thesis by (simp add: misses_lru_count stream_affinity_columns affinity8)
qed

lemma affinity8_at: "walk (stream_affinity KERNEL 8 8 0) 8192 = (1048576, 1015808, 32768)"
proof -
  have "spaced 1 (stream_affinity KERNEL 8 8 0)"
    unfolding stream_affinity_blocks
    by (rule block_stream_spaced[OF kernel8(1) affinity_in_grid spaced_0]) (use kernel8(2) in simp_all)
  then show ?thesis using walk_lru[of 8192 "stream_affinity KERNEL 8 8 0"] changes_all affinity8_misses affinity8_length by simp
qed

lemma declared8_one: "walk (stream_declared KERNEL 8 8 0) 1 = (32768, 0, 32768)"
  using walk_spaced[OF _ declared_spaced[OF kernel8(1)], of 1 0] declared8 by simp

text \<open>Every assertion the file makes about its three policies holds at the kernel and the
  tile it prices: affinity equals the natural order at every bank count tried below the period, at the
  period it divides the loads by the row blocks, the natural order gets nothing from twice the period, and
  the declared order reaches the same loads with one bank and never costs more at any point.\<close>

lemma gpu_checks_pass: "gpu_checks KERNEL (hd GEOMETRIES) = Inr ()"
proof -
  have mt: "nat (kM KERNEL div kBM KERNEL) = 32" by (simp add: KERNEL_def)
  show ?thesis
    by (simp add: gpu_checks_def GEOMETRIES_def Let_def kernel8(2) mt natural8_loads affinity8_below affinity8_at
        declared8_one[unfolded One_nat_def] POINTS_def movement_cycles_def SHOT_FLOOR_def MB_TW_def)
qed

theorem below_period_every_reference_loads_witness:
  "walk (stream_k_inner \<lparr>kM = 4, kN = 32, kK = 8, kBM = 2, kBN = 4, kBK = 4\<rparr> 2 2 1) 7 = (16, 0, 16)
   \<and> walk (stream_affinity \<lparr>kM = 4, kN = 32, kK = 8, kBM = 2, kBN = 4, kBK = 4\<rparr> 2 2 1) 7 = (16, 0, 16)"
proof -
  let ?k = "\<lparr>kM = 4, kN = 32, kK = 8, kBM = 2, kBN = 4, kBK = 4\<rparr>"
  have "length (stream_k_inner ?k 2 2 1) = 16" "length (stream_affinity ?k 2 2 1) = 16" by code_simp+
  moreover have "kernel_ok ?k 2 2" "7 < nat (period_of ?k 2 2)" by code_simp+
  ultimately show ?thesis using below_period_every_reference_loads[of ?k 2 2 7 1] by simp
qed

end
