(* ===== verification/Transport_Slot.thy ===== *)
theory Transport_Slot
  imports Prelude Complex_Main "HOL-Library.Word"
begin

text \<open>
  \<^verbatim>\<open>docs/designs/pta_board_transport.py\<close>, sections 1 to 5 and the two pure functions of section 6:
  the descriptor's layout and its \<open>struct\<close> encoding, the queue's registers, what a job moves, what the link
  carries, a job's crossings, and the GEMM with its seed.  Addresses, sizes and register values are naturals,
  bytes are 8-bit words, rates are exact rationals.  The lemmas are the round trips of the encodings
  and the assertions of the five sections.
\<close>

unbundle bit_operations_syntax

type_synonym byte = "8 word"
type_synonym bytes = "byte list"

section \<open>Constants\<close>

definition LINE :: nat where "LINE = 64"
definition SLOT :: nat where "SLOT = 2 * LINE"
definition LANES :: rat where "LANES = 16"
definition GT_S :: rat where "GT_S = 32"
definition ENCODING :: rat where "ENCODING = 128 / 130"
definition FLIT :: rat where "FLIT = 64 / 68"
definition TILE :: "nat \<times> nat" where "TILE = (128, 64)"
definition CANARY :: "nat \<times> nat \<times> nat" where "CANARY = (1000, 64, 16)"
definition A_BYTES :: nat where "A_BYTES = 1"
definition W_BYTES :: nat where "W_BYTES = 1"
definition R_BYTES :: nat where "R_BYTES = 4"
definition CODE_BYTES :: nat where "CODE_BYTES = 1"
definition BANKS :: nat where "BANKS = 2"
definition M32 :: nat where "M32 = 2 ^ 32 - 1"

text \<open>\<open>-(-nbytes // LINE)\<close>.\<close>

definition lines :: "nat \<Rightarrow> nat" where
  "lines nbytes = nat (- ((- int nbytes) div int LINE))"

section \<open>Encodings: \<open>struct\<close>, little-endian\<close>

text \<open>An unsigned field of \<open>n\<close> bytes, and the two signed ones the operands and results use.\<close>

fun le_pack :: "nat \<Rightarrow> nat \<Rightarrow> bytes" where
  "le_pack 0 v = []"
| "le_pack (Suc n) v = word_of_nat v # le_pack n (v div 256)"

fun le_unpack :: "bytes \<Rightarrow> nat" where
  "le_unpack [] = 0"
| "le_unpack (b # bs) = unat b + 256 * le_unpack bs"

definition int8_pack :: "int \<Rightarrow> bytes" where
  "int8_pack v = [word_of_int v]"

definition int8_unpack :: "bytes \<Rightarrow> int" where
  "int8_unpack bs = (case bs of [] \<Rightarrow> 0 | b # _ \<Rightarrow> sint b)"

definition int32_pack :: "int \<Rightarrow> bytes" where
  "int32_pack v = le_pack 4 (nat (v mod 2 ^ 32))"

definition int32_unpack :: "bytes \<Rightarrow> int" where
  "int32_unpack bs = (let v = int (le_unpack bs) in if v < 2 ^ 31 then v else v - 2 ^ 32)"

definition int8_ok :: "int \<Rightarrow> bool" where "int8_ok v \<longleftrightarrow> - 128 \<le> v \<and> v \<le> 127"
definition int32_ok :: "int \<Rightarrow> bool" where "int32_ok v \<longleftrightarrow> - (2 ^ 31) \<le> v \<and> v < 2 ^ 31"

text \<open>\<open>struct.pack\<close> and \<open>struct.unpack_from\<close> with a repeat count.\<close>

definition pack_array :: "('a \<Rightarrow> bool) \<Rightarrow> ('a \<Rightarrow> bytes) \<Rightarrow> 'a list \<Rightarrow> py_error + bytes" where
  "pack_array ok enc vs = (if list_all ok vs then Inr (concat (map enc vs)) else Inl StructError)"

definition unpack_array :: "nat \<Rightarrow> (bytes \<Rightarrow> 'a) \<Rightarrow> nat \<Rightarrow> bytes \<Rightarrow> py_error + 'a list" where
  "unpack_array width dec n d =
     (if length d < n * width then Inl StructError
      else Inr (map (\<lambda>i. dec (take width (drop (i * width) d))) [0..<n]))"

section \<open>The slot\<close>

datatype writer = By_Host | By_Module

text \<open>Offset, bytes, name, writer, and the descriptor version that adds the field.\<close>

definition FIELDS :: "(nat \<times> nat \<times> string \<times> writer \<times> nat) list" where
  "FIELDS =
    [(0x00, 4, ''size_version'', By_Host, 1), (0x04, 4, ''target'', By_Host, 1), (0x08, 4, ''format'', By_Host, 1),
     (0x0C, 4, ''M'', By_Host, 1), (0x10, 4, ''K'', By_Host, 1), (0x14, 4, ''N'', By_Host, 1),
     (0x18, 8, ''act_addr'', By_Host, 1), (0x20, 8, ''wgt_addr'', By_Host, 1), (0x28, 8, ''out_addr'', By_Host, 1),
     (0x30, 4, ''status'', By_Module, 1), (0x34, 4, ''gemm_index'', By_Module, 1), (0x38, 8, ''saturations'', By_Module, 1),
     (0x40, 4, ''act'', By_Host, 2), (0x44, 4, ''clips'', By_Module, 2), (0x48, 8, ''bias_addr'', By_Host, 2)]"

text \<open>\<open>struct.Struct("<IIIIIIQQQIIQ")\<close>: the sizes of its twelve fields.\<close>

definition DESC :: "nat list" where "DESC = [4, 4, 4, 4, 4, 4, 8, 8, 8, 4, 4, 8]"

definition DESC_size :: nat where "DESC_size = sum_list DESC"

fun fields_pack :: "nat list \<Rightarrow> nat list \<Rightarrow> py_error + bytes" where
  "fields_pack [] [] = Inr []"
| "fields_pack (n # ns) (v # vs) =
     (if v < 256 ^ n then bindE (fields_pack ns vs) (\<lambda>d. Inr (le_pack n v @ d)) else Inl StructError)"
| "fields_pack _ _ = Inl StructError"

fun fields_unpack :: "nat list \<Rightarrow> bytes \<Rightarrow> py_error + nat list" where
  "fields_unpack [] d = (if d = [] then Inr [] else Inl StructError)"
| "fields_unpack (n # ns) d =
     (if length d < n then Inl StructError
      else bindE (fields_unpack ns (drop n d)) (\<lambda>vs. Inr (le_unpack (take n d) # vs)))"

definition DESC_pack :: "nat list \<Rightarrow> py_error + bytes" where "DESC_pack = fields_pack DESC"
definition DESC_unpack :: "bytes \<Rightarrow> py_error + nat list" where "DESC_unpack = fields_unpack DESC"

text \<open>The assertions of \<open>slot_layout\<close>.  The running offset \<open>at\<close> is the sum of the sizes so far.\<close>

fun layout_asserts :: "nat \<Rightarrow> nat \<Rightarrow> (nat \<times> nat \<times> string \<times> writer \<times> nat) list \<Rightarrow> (py_error + bool) list \<times> nat" where
  "layout_asserts version pos [] = ([], pos)"
| "layout_asserts version pos ((off, n, name, who, since) # fs) =
     (if version < since then layout_asserts version pos fs
      else case layout_asserts version (pos + n) fs of (as, end) \<Rightarrow> (Inr (off = pos) # Inr (off mod n = 0) # as, end))"

definition slot_layout :: "py_error + unit" where
  "slot_layout = assert_all
     (concat (map (\<lambda>(version, size). case layout_asserts version 0 FIELDS of (as, end) \<Rightarrow> as @ [Inr (end = size)]) [(1, 64), (2, 80)])
      @ [Inr (DESC_size = 64),
         Inr (set (map (\<lambda>(off, _). off div LINE) (filter (\<lambda>(_, _, _, who, _). who = By_Module) FIELDS)) = {0, 1}),
         (case filter (\<lambda>(_, _, name, _). name = ''status'') FIELDS of [] \<Rightarrow> Inl IndexError | f # _ \<Rightarrow> Inr (fst f div LINE = 0)),
         Inr (80 \<le> SLOT \<and> SLOT mod LINE = 0)])"

section \<open>The registers\<close>

datatype access = R | RW

definition REGS :: "(nat \<times> string \<times> access) list" where
  "REGS =
    [(0x000, ''PTQ_ID'', R), (0x004, ''PTQ_CAPS'', R), (0x008, ''PTQ_CTRL'', RW), (0x00C, ''PTQ_STATUS'', R),
     (0x010, ''PTQ_BASE_LO'', RW), (0x014, ''PTQ_BASE_HI'', RW), (0x018, ''PTQ_SIZE'', RW), (0x020, ''PTQ_TAIL'', RW),
     (0x024, ''PTQ_HEAD'', R), (0x028, ''PTQ_IRQ_AT'', RW), (0x02C, ''PTQ_FAULT_AT'', R)]"

definition PTQ :: nat where "PTQ = 0x1000"
definition PTQ_CTRL :: nat where "PTQ_CTRL = PTQ + 0x008"
definition PTQ_STATUS :: nat where "PTQ_STATUS = PTQ + 0x00C"
definition PTQ_BASE_LO :: nat where "PTQ_BASE_LO = PTQ + 0x010"
definition PTQ_BASE_HI :: nat where "PTQ_BASE_HI = PTQ + 0x014"
definition PTQ_SIZE :: nat where "PTQ_SIZE = PTQ + 0x018"
definition PTQ_TAIL :: nat where "PTQ_TAIL = PTQ + 0x020"
definition PTQ_HEAD :: nat where "PTQ_HEAD = PTQ + 0x024"
definition PTQ_IRQ_AT :: nat where "PTQ_IRQ_AT = PTQ + 0x028"
definition PTA_SEED :: nat where "PTA_SEED = 0x050"
definition HALT_DOORBELL :: nat where "HALT_DOORBELL = 1"

lemmas reg_defs = PTQ_def PTQ_CTRL_def PTQ_STATUS_def PTQ_BASE_LO_def PTQ_BASE_HI_def PTQ_SIZE_def PTQ_TAIL_def
  PTQ_HEAD_def PTQ_IRQ_AT_def PTA_SEED_def

definition registers :: "py_error + unit" where
  "registers = assert_all
     [Inr (distinct (map fst REGS) \<and> list_all (\<lambda>(off, _). off mod 4 = 0 \<and> off < 0x1000) REGS),
      Inr (le_unpack (rev (map (\<lambda>c. word_of_nat (of_char c)) ''PTQ'')) = 0x505451),
      Inr (map (\<lambda>(_, name, _). name) (filter (\<lambda>(off, _). off \<in> {0x008, 0x00C, 0x020, 0x024}) REGS)
           = [''PTQ_CTRL'', ''PTQ_STATUS'', ''PTQ_TAIL'', ''PTQ_HEAD''])]"

section \<open>One job, the link, the crossings\<close>

record to_module = descriptor :: nat  weights :: nat  activations :: nat
record to_host = results :: nat  record_lines :: nat

definition job :: "nat \<Rightarrow> nat \<Rightarrow> nat \<Rightarrow> nat \<Rightarrow> nat \<Rightarrow> bool \<Rightarrow> to_module \<times> to_host" where
  "job M K N out_bytes version with_weights =
     (\<lparr>descriptor = version, weights = if with_weights then lines (K * N * W_BYTES) else 0, activations = lines (M * K * A_BYTES)\<rparr>,
      \<lparr>results = lines (M * N * out_bytes), record_lines = version\<rparr>)"

definition job_totals :: "nat \<Rightarrow> nat \<Rightarrow> nat \<Rightarrow> nat \<Rightarrow> nat \<times> nat" where
  "job_totals M K N ob =
     (case job M K N ob 1 True of (a, b) \<Rightarrow> (descriptor a + weights a + activations a, results b + record_lines b))"

definition jobs :: "py_error + (nat \<times> nat) list" where
  "jobs =
     (case CANARY of (cM, cK, cN) \<Rightarrow> case TILE of (tK, tN) \<Rightarrow>
      let out = [job_totals 1 cK cN R_BYTES, job_totals cM cK cN R_BYTES, job_totals 1000 tK tN R_BYTES, job_totals 1000 tK tN CODE_BYTES]
      in bindE (assert_all [Inr (out ! 0 = (1 + 16 + 1, 1 + 1)), Inr (out ! 1 = (1 + 16 + 1000, 1000 + 1))]) (\<lambda>_. Inr out))"

definition bound_gbs :: "rat \<Rightarrow> rat" where
  "bound_gbs lanes = lanes * GT_S / 8 * ENCODING * FLIT"

definition shot_rate :: "rat \<Rightarrow> nat \<Rightarrow> nat \<Rightarrow> nat \<Rightarrow> rat" where
  "shot_rate lanes K N out_bytes = bound_gbs lanes * 10 ^ 9 / of_nat (max (K * A_BYTES) (N * out_bytes))"

definition link_rates :: "rat \<Rightarrow> rat \<times> rat \<times> rat" where
  "link_rates lanes =
     (case CANARY of (_, cK, cN) \<Rightarrow> case TILE of (tK, tN) \<Rightarrow>
       (shot_rate lanes cK cN R_BYTES, shot_rate lanes tK tN R_BYTES, shot_rate lanes tK tN CODE_BYTES))"

definition link :: "py_error + unit" where
  "link = (case link_rates 16 of (r0, r1, r2) \<Rightarrow> assert_all
     [Inr (LANES * GT_S / 8 = 64), Inr (\<bar>r0 / 10 ^ 9 - 927 / 1000\<bar> < 1 / 1000), Inr (r1 < r2 \<and> r2 < r0)])"

datatype hidden = Rung_While_Running | Reads_Ahead | Likewise | The_Work | Not_Hidden

definition CROSSINGS :: "(nat \<times> hidden) list" where
  "CROSSINGS = [(1, Rung_While_Running), (2, Reads_Ahead), (2, Likewise), (0, The_Work), (2, Not_Hidden), (3, Not_Hidden)]"

definition crossings :: "py_error + unit" where
  "crossings = assert_all
     [Inr ((sum_list (map fst CROSSINGS), sum_list (map fst (filter (\<lambda>(_, h). h = Not_Hidden) CROSSINGS))) = (10, 5))]"

section \<open>The GEMM and its seed\<close>

text \<open>SplitMix64: the products and the first sum are cut to 64 bits, as in the words of the source.\<close>

definition gemm_seed :: "nat \<Rightarrow> nat \<Rightarrow> nat" where
  "gemm_seed seed i =
     (let z0 = (word_of_nat (push_bit 32 (take_bit 32 seed) OR take_bit 32 i) :: 64 word) + 0x9E3779B97F4A7C15;
          z1 = (z0 XOR drop_bit 30 z0) * 0xBF58476D1CE4E5B9;
          z2 = (z1 XOR drop_bit 27 z1) * 0x94D049BB133111EB
      in take_bit 32 (unat (drop_bit 32 (z2 XOR drop_bit 31 z2))))"

text \<open>The module's result: the exact sums and an error drawn from the GEMM's seed.\<close>

definition gemm_at :: "int list \<Rightarrow> int list \<Rightarrow> nat \<Rightarrow> nat \<Rightarrow> nat \<Rightarrow> nat \<Rightarrow> nat \<Rightarrow> int" where
  "gemm_at A W K N s m n =
     sum_list (map (\<lambda>k. A ! (m * K + k) * W ! (k * N + n)) [0..<K]) + int (drop_bit ((m * N + n) mod 30) s mod 4) - 1"

definition gemm :: "int list \<Rightarrow> int list \<Rightarrow> nat \<Rightarrow> nat \<Rightarrow> nat \<Rightarrow> nat \<Rightarrow> int list" where
  "gemm A W M K N s = concat (map (\<lambda>m. map (\<lambda>n. gemm_at A W K N s m n) [0..<N]) [0..<M])"

definition seed_pins :: "py_error + unit" where
  "seed_pins = assert_all [Inr (gemm_seed 1 0 = 3291240986 \<and> gemm_seed 0xC0FFEE 7 = 1993064625 \<and> gemm_seed 0 M32 = 1940994978)]"

section \<open>Round trips\<close>

lemma length_le_pack [simp]: "length (le_pack n v) = n"
  by (induction n arbitrary: v) auto

lemma le_unpack_pack: "le_unpack (le_pack n v) = v mod 256 ^ n"
proof (induction n arbitrary: v)
  case (Suc n)
  have "unat (word_of_nat v :: byte) = v mod 256" by (simp add: unat_of_nat)
  then show ?case using Suc[of "v div 256"] by (simp add: mod_mult2_eq)
qed simp

lemma fields_unpack_pack: "fields_pack ns vs = Inr d \<Longrightarrow> fields_unpack ns d = Inr vs \<and> length d = sum_list ns"
  by (induction ns vs arbitrary: d rule: fields_pack.induct)
    (auto simp: bindE_Inr le_unpack_pack split: if_splits)

text \<open>A codec of fixed width: what \<open>struct\<close> promises of one format character.  An array packed with
  it can be read back, also when other bytes follow.\<close>

locale codec =
  fixes enc :: "'a \<Rightarrow> bytes" and dec :: "bytes \<Rightarrow> 'a" and ok :: "'a \<Rightarrow> bool" and width :: nat
  assumes enc_width: "ok v \<Longrightarrow> length (enc v) = width"
    and dec_enc: "ok v \<Longrightarrow> dec (enc v) = v"
begin

lemma length_packed: "list_all ok vs \<Longrightarrow> length (concat (map enc vs)) = length vs * width"
  by (induction vs) (auto simp: enc_width)

lemma take_packed:
  assumes "list_all ok vs" "i < length vs"
  shows "take width (drop (i * width) (concat (map enc vs) @ rest)) = enc (vs ! i)"
  using assms
proof (induction vs arbitrary: i)
  case (Cons v vs)
  then have v: "length (enc v) = width" by (simp add: enc_width)
  show ?case
  proof (cases i)
    case (Suc j)
    then have "drop (i * width) (concat (map enc (v # vs)) @ rest) = drop (j * width) (concat (map enc vs) @ rest)"
      using v by simp
    then show ?thesis using Cons Suc by simp
  qed (use v in simp)
qed simp

lemma unpack_packed:
  assumes "pack_array ok enc vs = Inr d"
  shows "unpack_array width dec (length vs) (d @ rest) = Inr vs"
proof -
  have ok: "list_all ok vs" and d: "d = concat (map enc vs)"
    using assms by (auto simp: pack_array_def split: if_splits)
  have "map (\<lambda>i. dec (take width (drop (i * width) (d @ rest)))) [0..<length vs] = vs"
  proof (rule nth_equalityI)
    fix i assume "i < length (map (\<lambda>i. dec (take width (drop (i * width) (d @ rest)))) [0..<length vs])"
    then have "i < length vs" by simp
    moreover from this ok have "ok (vs ! i)" by (simp add: list_all_length)
    ultimately show "map (\<lambda>i. dec (take width (drop (i * width) (d @ rest)))) [0..<length vs] ! i = vs ! i"
      using take_packed[OF ok] d by (simp add: dec_enc)
  qed simp
  moreover have "length vs * width \<le> length (d @ rest)" using length_packed[OF ok] d by simp
  ultimately show ?thesis by (simp add: unpack_array_def)
qed

end

interpretation int8: codec int8_pack int8_unpack int8_ok 1
proof
  fix v assume "int8_ok v"
  then have "signed_take_bit 7 v = v" by (simp add: int8_ok_def signed_take_bit_int_eq_self_iff)
  then show "int8_unpack (int8_pack v) = v" by (simp add: int8_pack_def int8_unpack_def sint_sbintrunc')
qed (simp add: int8_pack_def)

interpretation int32: codec int32_pack int32_unpack int32_ok 4
proof
  fix v assume "int32_ok v"
  then have v: "- (2 ^ 31) \<le> v" "v < 2 ^ 31" by (simp_all add: int32_ok_def)
  have "int (le_unpack (int32_pack v)) = v mod 2 ^ 32"
    by (simp add: int32_pack_def le_unpack_pack zmod_int[symmetric] nat_mod_distrib[symmetric])
  also have "\<dots> = (if 0 \<le> v then v else v + 2 ^ 32)"
  proof (cases "0 \<le> v")
    case False
    have "v mod 2 ^ 32 = (v + 2 ^ 32) mod 2 ^ 32" by simp
    also have "\<dots> = v + 2 ^ 32" using v False by (intro mod_pos_pos_trivial) simp_all
    finally show ?thesis using False by simp
  qed (use v in simp)
  finally show "int32_unpack (int32_pack v) = v" using v by (auto simp: int32_unpack_def Let_def)
qed (simp add: int32_pack_def)

section \<open>The assertions\<close>

text \<open>The assertions of sections 1 to 5 hold: every field of both descriptor versions is
  contiguous and naturally aligned, the registers are distinct words of their page, the canary's jobs move the
  lines stated, the link's rates order as stated, ten crossings of which five at the end, and the three
  pinned GEMM seeds.\<close>

lemma transport_checks_pass:
  "seed_pins = Inr () \<and> slot_layout = Inr () \<and> registers = Inr ()
   \<and> jobs = Inr [(18, 2), (1017, 1001), (2129, 4001), (2129, 1001)] \<and> link = Inr () \<and> crossings = Inr ()"
proof (intro conjI)
  show "seed_pins = Inr ()" by (simp add: seed_pins_def gemm_seed_def M32_def Let_def)
  show "slot_layout = Inr ()" by code_simp
  show "registers = Inr ()" by (simp add: registers_def REGS_def)
  show "jobs = Inr [(18, 2), (1017, 1001), (2129, 4001), (2129, 1001)]"
    by (simp add: jobs_def CANARY_def TILE_def job_totals_def job_def lines_def LINE_def A_BYTES_def W_BYTES_def R_BYTES_def CODE_BYTES_def)
  show "link = Inr ()" by code_simp
  show "crossings = Inr ()" by code_simp
qed

lemma length_gemm: "length (gemm A W M K N s) = M * N"
  by (simp add: gemm_def length_concat comp_def sum_list_triv)

lemma lines_bounds: "nbytes \<le> lines nbytes * LINE" "lines nbytes * LINE < nbytes + LINE"
  by (simp_all add: lines_def LINE_def)

end
