(* ===== verification/Transport_Sim.thy ===== *)
theory Transport_Sim
  imports Transport_Slot "HOL-Library.Product_Lexorder"
begin

text \<open>
  \<^verbatim>\<open>docs/designs/pta_board_transport.py\<close>, section 6: the protocol's simulation.  \<open>sim\<close> is the object \<open>Sim\<close> with
  its \<open>Module\<close> and \<open>Host\<close>; the heap of pending calls is a list sorted by (time, priority, sequence number),
  and a pending call is a value of \<open>event\<close>.  The closures of the code become records reached by a
  number: a read in progress, a GEMM's shots, a box a register read fills.  The host's generators become a
  stack of frames, one per place a generator can be suspended at or called from.  Every fault the code
  can plant is a branch here.  The draws of \<open>random\<close> are the values of a function of the draw's number.
\<close>

section \<open>Constants\<close>

definition L :: nat where "L = 4"
definition JITTER :: nat where "JITTER = 6"
definition T_WAIT :: nat where "T_WAIT = 400"
definition T_QUIESCE :: nat where "T_QUIESCE = 60"
definition RING_LOG2 :: nat where "RING_LOG2 = 3"
definition RING :: nat where "RING = 0x10000"
definition BUF :: nat where "BUF = 0x20000"
definition SENTINEL :: byte where "SENTINEL = 0xA5"
definition PENDING :: nat where "PENDING = 0"
definition DONE :: nat where "DONE = 1"
definition REFUSED :: nat where "REFUSED = 2"
definition LOST :: nat where "LOST = 3"
definition NOT_ISSUED :: nat where "NOT_ISSUED = 4"
definition NOT_RUN :: nat where "NOT_RUN = 5"
definition NO_INDEX :: nat where "NO_INDEX = M32"
definition AFTER_SUCCESS :: nat where "AFTER_SUCCESS = 2 ^ 16"

lemmas status_defs = PENDING_def DONE_def REFUSED_def LOST_def NOT_ISSUED_def NOT_RUN_def

datatype check_id = C1 | C2 | C3 | C4 | C5 | C6 | C7 | C8 | C9 | C10 | C11 | C12

datatype fault =
    Status_Before_Results | Results_One_Line_Short | Refused_Writes_Results | Pad_On_Refusal | Refusal_As_Done
  | Index_On_Refusal | Head_Before_Status | Irq_Before_Status | Doorbell_Before_Stores | Slot_Reuse
  | Run_After_Failure | Disable_Before_Drain | Lost_Left_Pending | Config_While_Queued

text \<open>A fault, who has it, and the check written for it.\<close>

definition FAULTS :: "(fault \<times> writer \<times> check_id) list" where
  "FAULTS =
    [(Status_Before_Results, By_Module, C1), (Results_One_Line_Short, By_Module, C1), (Refused_Writes_Results, By_Module, C2),
     (Pad_On_Refusal, By_Module, C2), (Refusal_As_Done, By_Module, C3), (Index_On_Refusal, By_Module, C4),
     (Head_Before_Status, By_Module, C5), (Irq_Before_Status, By_Module, C6), (Doorbell_Before_Stores, By_Host, C7),
     (Slot_Reuse, By_Host, C8), (Run_After_Failure, By_Module, C3), (Disable_Before_Drain, By_Module, C9),
     (Lost_Left_Pending, By_Host, C10), (Config_While_Queued, By_Host, C11)]"

section \<open>State\<close>

record module_state =
  gen :: nat
  wedge_at :: "nat option"
  resets :: nat
  job_no :: nat
  enable :: bool
  enabled :: bool
  irq_en :: bool
  base :: nat
  size_log2 :: nat
  tail :: nat
  head :: nat
  irq_at :: nat
  seed :: nat
  gemm_ct :: nat
  busy :: bool
  inflight :: nat
  prev :: "nat option"
  halted :: nat
  wedged :: bool
  draining :: bool
  ghost :: bool

text \<open>A command as the script draws it, and as it is once published.\<close>

record cmd =
  cM :: nat
  cK :: nat
  cN :: nat
  bank :: nat
  cflags :: nat
  cfmt :: nat
  cexpect :: nat
  teardown_cmd :: bool
  cA :: "int list"
  cW :: "int list"

record posted = cmd +
  cout :: nat
  out_lines :: nat
  cseed :: nat
  cdesc :: bytes

text \<open>What a read's lines are for, and what the module does when it learns a line is ordered.\<close>

datatype read_then =
    Got_Descriptor nat
  | Shots (sh_idx: nat) (sh_d: bytes) (sh_M: nat) (sh_K: nat) (sh_N: nat) (sh_out: nat) (sh_index: nat) (sh_seed: nat) (sh_nw: nat) (sh_status: nat)

datatype write_then =
    No_Then
  | Ordered nat
  | Record nat nat bytes nat
  | Ended nat nat nat

record read_rec =
  rd_job :: nat
  rd_gen :: nat
  rd_addrs :: "nat list"
  rd_got :: "(nat \<times> bytes) list"
  rd_then :: read_then

text \<open>The variables \<open>shots\<close> shares with its two inner functions.\<close>

record shots_rec =
  st_job :: nat
  st_sent :: nat
  st_ordered :: nat
  st_need :: nat
  st_n :: nat
  st_early :: bool
  st_raw :: bytes
  st_idx :: nat
  st_d :: bytes
  st_M :: nat
  st_N :: nat
  st_out :: nat
  st_status :: nat
  st_index :: nat

datatype event =
    Ev_Write nat nat
  | Ev_Read nat nat
  | Ev_Box nat nat
  | Ev_Reset
  | Ev_At_Host nat nat
  | Ev_Back nat nat bytes
  | Ev_Land nat bytes
  | Ev_Go nat write_then
  | Ev_Shot nat nat
  | Ev_Msi

datatype frame =
    Fr_Publish cmd | Fr_Ring | Fr_Set_Seed nat | Fr_Write nat nat | Fr_Restart_Queue | Fr_Yield nat
  | Fr_Drain | Fr_Drain_Loop nat | Fr_Fence_Victim | Fr_Irq_At_Next | Fr_Wedge_Next
  | Fr_Await_Irq | Fr_Await_Loop nat nat
  | Fr_Teardown | Fr_Poll_Status nat | Fr_Got_Status nat nat | Fr_Read_Head | Fr_Got_Head nat
  | Fr_Reset | Fr_Reset_Resume

record host_state =
  nxt :: nat
  hhead :: nat
  origin :: nat
  cmds :: "nat \<rightharpoonup> posted"
  slot_of :: "nat \<rightharpoonup> nat"
  owner :: "nat \<rightharpoonup> nat"
  stale :: "nat \<rightharpoonup> bytes"
  h_ended :: "nat set"
  alloc :: nat
  h_seed :: nat
  last_index :: "nat option"
  restart :: bool
  slack :: bool
  msis :: nat
  timeouts :: nat
  teardowns :: nat
  h_irq_at :: nat
  ctrl :: nat
  fence_victim :: "nat option"
  ends :: "nat list"
  frames :: "frame list"

type_synonym queued = "(nat \<times> nat \<times> nat) \<times> event"

record sim =
  planted_fault :: "fault option"
  rng :: "nat \<Rightarrow> nat"
  draws :: nat
  now :: nat
  q :: "queued list"
  seqno :: nat
  mem :: "nat \<rightharpoonup> bytes"
  fired :: "(check_id \<times> nat) list"
  raised :: "py_error option"
  fresh :: nat
  reads :: "nat \<rightharpoonup> read_rec"
  gemms :: "nat \<rightharpoonup> shots_rec"
  boxes :: "nat \<Rightarrow> nat list"
  modul :: module_state
  host :: host_state

definition upd_m :: "(module_state \<Rightarrow> module_state) \<Rightarrow> sim \<Rightarrow> sim" where
  "upd_m f s = s\<lparr>modul := f (modul s)\<rparr>"

definition upd_h :: "(host_state \<Rightarrow> host_state) \<Rightarrow> sim \<Rightarrow> sim" where
  "upd_h f s = s\<lparr>host := f (host s)\<rparr>"

definition faulty :: "sim \<Rightarrow> fault \<Rightarrow> bool" where
  "faulty s f \<longleftrightarrow> planted_fault s = Some f"

section \<open>The simulator\<close>

text \<open>\<open>at\<close> (\<open>sched\<close>): the heap is kept sorted; sequence numbers make the keys distinct.\<close>

definition sched :: "nat \<Rightarrow> nat \<Rightarrow> event \<Rightarrow> sim \<Rightarrow> sim" where
  "sched dt prio ev s =
     s\<lparr>seqno := seqno s + 1, q := insort_key fst ((now s + dt, prio, seqno s + 1), ev) (q s)\<rparr>"

definition fail :: "check_id \<Rightarrow> sim \<Rightarrow> sim" where
  "fail c s = (if c \<in> fst ` set (fired s) then s else s\<lparr>fired := fired s @ [(c, now s)]\<rparr>)"

definition raise_err :: "py_error \<Rightarrow> sim \<Rightarrow> sim" where
  "raise_err e s = s\<lparr>raised := Some e\<rparr>"

definition line :: "sim \<Rightarrow> nat \<Rightarrow> bytes" where
  "line s addr = (case mem s addr of None \<Rightarrow> replicate LINE 0 | Some d \<Rightarrow> d)"

definition store :: "nat \<Rightarrow> bytes \<Rightarrow> sim \<Rightarrow> sim" where
  "store addr data s = (if length data = LINE then s\<lparr>mem := (mem s)(addr \<mapsto> data)\<rparr> else raise_err AssertionError s)"

text \<open>\<open>rng.randint(0, JITTER)\<close>.\<close>

definition jitter :: "sim \<Rightarrow> nat" where
  "jitter s = rng s (draws s) mod (JITTER + 1)"

definition drawn :: "sim \<Rightarrow> sim" where
  "drawn s = s\<lparr>draws := draws s + 1\<rparr>"

section \<open>The module\<close>

definition module_init :: module_state where
  "module_init =
    \<lparr>gen = 0, wedge_at = None, resets = 0, job_no = 0, enable = False, enabled = False, irq_en = False,
     base = 0, size_log2 = 0, tail = 0, head = 0, irq_at = 0, seed = 0, gemm_ct = 0,
     busy = False, inflight = 0, prev = None, halted = 0, wedged = False, draining = False, ghost = False\<rparr>"

definition reset :: "module_state \<Rightarrow> module_state" where
  "reset m = m\<lparr>gen := gen m + 1, resets := resets m + 1, job_no := 0,
     enable := False, enabled := False, irq_en := False, base := 0, size_log2 := 0,
     tail := 0, head := 0, irq_at := 0, seed := 0, gemm_ct := 0,
     busy := False, inflight := 0, prev := None,
     halted := 0, wedged := False, draining := False, ghost := False\<rparr>"

definition mmio_write :: "nat \<Rightarrow> nat \<Rightarrow> sim \<Rightarrow> sim" where
  "mmio_write off val = sched L 1 (Ev_Write off val)"

definition mmio_read :: "nat \<Rightarrow> nat \<Rightarrow> sim \<Rightarrow> sim" where
  "mmio_read off box = sched L 1 (Ev_Read off box)"

definition status_reg :: "module_state \<Rightarrow> nat" where
  "status_reg m = of_bool (enabled m) OR push_bit 1 (of_bool (halted m \<noteq> 0)) OR push_bit 8 (halted m)"

definition on_read :: "nat \<Rightarrow> nat \<Rightarrow> sim \<Rightarrow> sim" where
  "on_read off box s =
     (let v = (if off = PTQ_STATUS then status_reg (modul s) else if off = PTQ_HEAD then head (modul s) else 0)
      in sched L 2 (Ev_Box box v) s)"

definition settle :: "sim \<Rightarrow> sim" where
  "settle s = (if draining (modul s) \<and> inflight (modul s) = 0
     then upd_m (\<lambda>m. m\<lparr>enabled := False, draining := False\<rparr>) s else s)"

definition slot :: "module_state \<Rightarrow> nat \<Rightarrow> nat" where
  "slot m idx = base m + take_bit (size_log2 m) idx * SLOT"

text \<open>\<open>read_lines\<close>: the read's record, and a request a line, each with its own draw.\<close>

definition request_line :: "nat \<Rightarrow> nat \<Rightarrow> sim \<Rightarrow> sim" where
  "request_line rid a s = drawn (sched (L + jitter s) 1 (Ev_At_Host rid a) s)"

definition read_lines :: "nat list \<Rightarrow> read_then \<Rightarrow> sim \<Rightarrow> sim" where
  "read_lines addrs thn s =
     (let rid = fresh s;
          r = \<lparr>rd_job = job_no (modul s), rd_gen = gen (modul s), rd_addrs = addrs, rd_got = [], rd_then = thn\<rparr>
      in fold (request_line rid) addrs (s\<lparr>fresh := rid + 1, reads := (reads s)(rid \<mapsto> r)\<rparr>))"

definition kick :: "sim \<Rightarrow> sim" where
  "kick s =
     (let m = modul s in
      if enable m \<and> \<not> (busy m \<or> halted m \<noteq> 0 \<or> wedged m) \<and> head m \<noteq> tail m
      then read_lines [slot m (head m)] (Got_Descriptor (head m)) (upd_m (\<lambda>m. m\<lparr>busy := True\<rparr>) s)
      else s)"

text \<open>\<open>(a - b) & M32\<close>.\<close>

definition sub32 :: "nat \<Rightarrow> nat \<Rightarrow> nat" where
  "sub32 a b = nat ((int a - int b) mod 2 ^ 32)"

definition write_ctrl :: "nat \<Rightarrow> sim \<Rightarrow> sim" where
  "write_ctrl val s =
     (let en = bit val 0; was = enable (modul s); s1 = upd_m (\<lambda>m. m\<lparr>irq_en := bit val 1\<rparr>) s in
      if en \<and> \<not> was
      then kick (upd_m (\<lambda>m. m\<lparr>enable := True, enabled := True, head := tail m, prev := None, halted := 0\<rparr>) s1)
      else if \<not> en \<and> was
      then (let s2 = upd_m (\<lambda>m. m\<lparr>enable := False\<rparr>) s1 in
            if faulty s Disable_Before_Drain \<and> busy (modul s)
            then upd_m (\<lambda>m. m\<lparr>enabled := False, ghost := True\<rparr>) s2
            else settle (upd_m (\<lambda>m. m\<lparr>job_no := job_no m + 1, busy := False, draining := True\<rparr>) s2))
      else s1)"

definition write_tail :: "nat \<Rightarrow> sim \<Rightarrow> sim" where
  "write_tail val s =
     (let m = modul s in
      if \<not> enable m then upd_m (\<lambda>m. m\<lparr>tail := val\<rparr>) s
      else if sub32 val (head m) > 2 ^ size_log2 m \<or> sub32 val (tail m) > 2 ^ 31
      then upd_m (\<lambda>m. m\<lparr>halted := HALT_DOORBELL\<rparr>) s
      else kick (upd_m (\<lambda>m. m\<lparr>tail := val\<rparr>) s))"

definition write_seed :: "nat \<Rightarrow> sim \<Rightarrow> sim" where
  "write_seed val s =
     (let m = modul s; s1 = (if head m \<noteq> tail m \<or> busy m then fail C11 s else s)
      in upd_m (\<lambda>m. m\<lparr>seed := val, gemm_ct := 0\<rparr>) s1)"

definition on_write :: "nat \<Rightarrow> nat \<Rightarrow> sim \<Rightarrow> sim" where
  "on_write off val s =
     (if wedged (modul s) then s
      else if off = PTQ_CTRL then write_ctrl val s
      else if off = PTQ_BASE_LO then
        (if enable (modul s) then s else upd_m (\<lambda>m. m\<lparr>base := push_bit 32 (drop_bit 32 (base m)) OR val\<rparr>) s)
      else if off = PTQ_BASE_HI then
        (if enable (modul s) then s else upd_m (\<lambda>m. m\<lparr>base := take_bit 32 (base m) OR push_bit 32 val\<rparr>) s)
      else if off = PTQ_SIZE then
        (if enable (modul s) then s else upd_m (\<lambda>m. m\<lparr>size_log2 := val\<rparr>) s)
      else if off = PTQ_TAIL then write_tail val s
      else if off = PTQ_IRQ_AT then upd_m (\<lambda>m. m\<lparr>irq_at := val\<rparr>) s
      else if off = PTA_SEED then write_seed val s
      else s)"

definition write_line :: "nat \<Rightarrow> bytes \<Rightarrow> write_then \<Rightarrow> sim \<Rightarrow> sim" where
  "write_line addr data thn s =
     (let lag = L + jitter s; s1 = drawn (upd_m (\<lambda>m. m\<lparr>inflight := inflight m + 1\<rparr>) s)
      in sched (lag + L) 1 (Ev_Go (gen (modul s)) thn) (sched lag 0 (Ev_Land addr data) s1))"

definition irq :: "nat \<Rightarrow> sim \<Rightarrow> sim" where
  "irq newhead s = (if irq_en (modul s) \<and> newhead = irq_at (modul s) then sched L 2 Ev_Msi s else s)"

definition ended :: "nat \<Rightarrow> nat \<Rightarrow> nat \<Rightarrow> sim \<Rightarrow> sim" where
  "ended idx status jb s =
     (let s1 = upd_m (\<lambda>m. m\<lparr>busy := False\<rparr>) s in
      if jb \<noteq> job_no (modul s) \<or> \<not> enable (modul s) then s1
      else let s2 = upd_m (\<lambda>m. m\<lparr>head := take_bit 32 (idx + 1), prev := Some status\<rparr>) s1;
               s3 = (if \<not> faulty s Irq_Before_Status then irq (head (modul s2)) s2 else s2)
           in kick s3)"

definition record_write :: "nat \<Rightarrow> nat \<Rightarrow> bytes \<Rightarrow> nat \<Rightarrow> sim \<Rightarrow> sim" where
  "record_write idx status rec jb s =
     (let s1 = (if faulty s Irq_Before_Status then irq (idx + 1) s else s) in
      if faulty s Head_Before_Status
      then (let s2 = ended idx status jb s1 in write_line (slot (modul s2) idx) rec No_Then s2)
      else write_line (slot (modul s1) idx) rec (Ended idx status jb) s1)"

text \<open>\<open>d[:0x30] + struct.pack("<IIQ", status, index, 0)\<close>; an index that does not fit raises.\<close>

definition rec_of :: "bytes \<Rightarrow> nat \<Rightarrow> nat \<Rightarrow> py_error + bytes" where
  "rec_of d status index = bindE (fields_pack [4, 4, 8] [status, index, 0]) (\<lambda>r. Inr (take 0x30 d @ r))"

definition end_cmd :: "nat \<Rightarrow> bytes \<Rightarrow> nat \<Rightarrow> nat \<Rightarrow> sim \<Rightarrow> sim" where
  "end_cmd idx d status index s =
     (case rec_of d status index of
        Inl e \<Rightarrow> raise_err e s
      | Inr rec \<Rightarrow>
          (let jb = job_no (modul s) in
           if faulty s Disable_Before_Drain \<and> ghost (modul s)
           then kick (upd_m (\<lambda>m. m\<lparr>ghost := False, busy := False\<rparr>) s)
           else if faulty s Pad_On_Refusal \<and> status = REFUSED
           then (case DESC_unpack d of
                   Inl e \<Rightarrow> raise_err e s
                 | Inr v \<Rightarrow> write_line (v ! 8 + (lines (v ! 3 * v ! 5 * R_BYTES) - 1) * LINE) (replicate LINE 0)
                     (Record idx status rec jb) s)
           else record_write idx status rec jb s))"

definition full_lines :: "shots_rec \<Rightarrow> nat \<Rightarrow> nat" where
  "full_lines g m = min (st_need g) (if m = st_M g - 1 then st_n g else (m + 1) * st_N g * R_BYTES div LINE)"

text \<open>The inner function \<open>ordered\<close>.\<close>

definition ordered :: "nat \<Rightarrow> sim \<Rightarrow> sim" where
  "ordered sid s =
     (case gemms s sid of
        None \<Rightarrow> s
      | Some g \<Rightarrow>
          (let g' = g\<lparr>st_ordered := st_ordered g + 1\<rparr>; s1 = s\<lparr>gemms := (gemms s)(sid \<mapsto> g')\<rparr> in
           if st_ordered g' = st_need g \<and> \<not> st_early g \<and> st_job g = job_no (modul s)
           then end_cmd (st_idx g) (st_d g) (st_status g) (st_index g) s1 else s1))"

definition send_line :: "nat \<Rightarrow> shots_rec \<Rightarrow> nat \<Rightarrow> sim \<Rightarrow> sim" where
  "send_line sid g i = write_line (st_out g + i * LINE) (take LINE (drop (i * LINE) (st_raw g))) (Ordered sid)"

text \<open>The inner function \<open>shot\<close>: the lines that are full go, one after the other.\<close>

definition shot :: "nat \<Rightarrow> nat \<Rightarrow> sim \<Rightarrow> sim" where
  "shot sid m s =
     (case gemms s sid of
        None \<Rightarrow> s
      | Some g \<Rightarrow>
          if st_job g \<noteq> job_no (modul s) then s
          else let full = full_lines g m;
                   s1 = s\<lparr>gemms := (gemms s)(sid \<mapsto> g\<lparr>st_sent := max (st_sent g) full\<rparr>)\<rparr>;
                   s2 = fold (send_line sid g) [st_sent g..<full] s1
               in if m + 1 < st_M g then sched 1 1 (Ev_Shot sid (m + 1)) s2
                  else if st_early g then end_cmd (st_idx g) (st_d g) (st_status g) (st_index g) s2
                  else s2)"

definition shots :: "bytes list \<Rightarrow> nat \<Rightarrow> bytes \<Rightarrow> nat \<Rightarrow> nat \<Rightarrow> nat \<Rightarrow> nat \<Rightarrow> nat \<Rightarrow> nat \<Rightarrow> nat \<Rightarrow> nat \<Rightarrow> sim \<Rightarrow> sim" where
  "shots datas idx d M K N out index sd nw status s =
     (case bindE (unpack_array 1 int8_unpack (K * N) (take (K * N) (concat (take nw datas)))) (\<lambda>W.
           bindE (unpack_array 1 int8_unpack (M * K) (take (M * K) (concat (drop nw datas)))) (\<lambda>A.
           pack_array int32_ok int32_pack (gemm A W M K N (gemm_seed sd index)))) of
        Inl e \<Rightarrow> raise_err e s
      | Inr raw0 \<Rightarrow>
          (let n = lines (length raw0);
               raw = raw0 @ replicate (n * LINE - length raw0) 0;
               sid = fresh s;
               g = \<lparr>st_job = job_no (modul s), st_sent = 0, st_ordered = 0,
                    st_need = (if faulty s Results_One_Line_Short \<and> n > 1 then n - 1 else n), st_n = n,
                    st_early = faulty s Status_Before_Results, st_raw = raw, st_idx = idx, st_d = d, st_M = M, st_N = N,
                    st_out = out, st_status = status, st_index = index\<rparr>
           in sched 1 1 (Ev_Shot sid 0) (s\<lparr>fresh := sid + 1, gemms := (gemms s)(sid \<mapsto> g)\<rparr>)))"

definition start :: "nat \<Rightarrow> bytes \<Rightarrow> nat \<Rightarrow> nat \<Rightarrow> nat \<Rightarrow> nat \<Rightarrow> nat \<Rightarrow> nat \<Rightarrow> nat \<Rightarrow> sim \<Rightarrow> sim" where
  "start idx d M K N act wgt out status s =
     (let index = gemm_ct (modul s);
          s1 = upd_m (\<lambda>m. m\<lparr>gemm_ct := gemm_ct m + 1\<rparr>) s;
          wl = map (\<lambda>i. wgt + i * LINE) [0..<lines (K * N * W_BYTES)];
          al = map (\<lambda>i. act + i * LINE) [0..<lines (M * K * A_BYTES)]
      in read_lines (wl @ al) (Shots idx d M K N out index (seed (modul s)) (length wl) status) s1)"

text \<open>What the module makes of a descriptor's nine host fields.\<close>

definition usable :: "nat list \<Rightarrow> bool" where
  "usable v \<longleftrightarrow> v ! 0 = (2 ^ 16 OR 64) \<and> v ! 2 = 0 \<and> v ! 3 \<noteq> 0 \<and> v ! 4 \<noteq> 0 \<and> v ! 5 \<noteq> 0
     \<and> (v ! 6 OR v ! 7 OR v ! 8) mod LINE = 0 \<and> unset_bit 16 (push_bit 16 (drop_bit 16 (v ! 1))) = 0"

definition target_bank :: "nat list \<Rightarrow> nat" where
  "target_bank v = take_bit 8 (drop_bit 8 (v ! 1))"

definition after_success :: "nat list \<Rightarrow> bool" where
  "after_success v \<longleftrightarrow> bit (v ! 1) 16"

definition got_descriptor :: "bytes list \<Rightarrow> nat \<Rightarrow> sim \<Rightarrow> sim" where
  "got_descriptor datas idx s =
     (if Some idx = wedge_at (modul s) then upd_m (\<lambda>m. m\<lparr>wedged := True\<rparr>) s
      else let d = hd datas in
        case DESC_unpack d of
          Inl e \<Rightarrow> raise_err e s
        | Inr v \<Rightarrow>
            if \<not> usable v then end_cmd idx d NOT_ISSUED NO_INDEX s
            else if BANKS \<le> target_bank v
            then (let s1 = (if faulty s Index_On_Refusal then upd_m (\<lambda>m. m\<lparr>gemm_ct := gemm_ct m + 1\<rparr>) s else s) in
                  if faulty s Refused_Writes_Results then start idx d (v ! 3) (v ! 4) (v ! 5) (v ! 6) (v ! 7) (v ! 8) REFUSED s1
                  else end_cmd idx d (if faulty s Refusal_As_Done then DONE else REFUSED) NO_INDEX s1)
            else if after_success v \<and> prev (modul s) \<notin> {None, Some DONE} \<and> \<not> faulty s Run_After_Failure
            then end_cmd idx d NOT_RUN NO_INDEX s
            else start idx d (v ! 3) (v ! 4) (v ! 5) (v ! 6) (v ! 7) (v ! 8) DONE s)"

section \<open>The host\<close>

abbreviation ring_size :: nat where "ring_size \<equiv> 2 ^ RING_LOG2"

definition host_init :: host_state where
  "host_init =
    \<lparr>nxt = 0, hhead = 0, origin = 0, cmds = Map.empty, slot_of = Map.empty, owner = Map.empty, stale = Map.empty,
     h_ended = {}, alloc = BUF, h_seed = 0, last_index = None, restart = True, slack = False,
     msis = 0, timeouts = 0, teardowns = 0, h_irq_at = 0, ctrl = 1, fence_victim = None,
     ends = replicate 6 0, frames = []\<rparr>"

definition addr :: "nat \<Rightarrow> nat" where
  "addr idx = RING + take_bit RING_LOG2 idx * SLOT"

text \<open>\<open>struct.unpack_from("<I", line, at)\<close>.\<close>

definition word_at :: "nat \<Rightarrow> bytes \<Rightarrow> nat" where
  "word_at pos d = le_unpack (take 4 (drop pos d))"

definition status :: "sim \<Rightarrow> nat \<Rightarrow> nat" where
  "status s idx = word_at 0x30 (line s (addr idx))"

definition host_write :: "nat \<Rightarrow> nat \<Rightarrow> sim \<Rightarrow> sim" where
  "host_write off val s = mmio_write off val (if off = PTQ_CTRL then upd_h (\<lambda>h. h\<lparr>ctrl := val\<rparr>) s else s)"

definition set_seed :: "nat \<Rightarrow> sim \<Rightarrow> sim" where
  "set_seed sd s = upd_h (\<lambda>h. h\<lparr>h_seed := sd, restart := True\<rparr>) (host_write PTA_SEED sd s)"

definition ring :: "sim \<Rightarrow> sim" where
  "ring s = host_write PTQ_TAIL (nxt (host s)) s"

text \<open>\<open>take\<close>: a buffer's lines, filled; the address and the number of lines.\<close>

definition take_buf :: "nat \<Rightarrow> byte \<Rightarrow> bytes \<Rightarrow> sim \<Rightarrow> (nat \<times> nat) \<times> sim" where
  "take_buf nbytes fill data s =
     (let a = alloc (host s); n = lines nbytes;
          raw = data @ replicate (n * LINE - length data) fill;
          s1 = fold (\<lambda>i. store (a + i * LINE) (take LINE (drop (i * LINE) raw))) [0..<n] s
      in ((a, n), upd_h (\<lambda>h. h\<lparr>alloc := a + n * LINE\<rparr>) s1))"

definition room :: "sim \<Rightarrow> int" where
  "room s = int ring_size - (int (nxt (host s)) - int (hhead (host s))) + of_bool (faulty s Slot_Reuse)"

text \<open>The body of \<open>publish\<close> after its wait for room.\<close>

definition publish_values :: "cmd \<Rightarrow> nat \<Rightarrow> nat \<Rightarrow> nat \<Rightarrow> nat list" where
  "publish_values c act wgt out =
     [2 ^ 16 OR 64, push_bit 8 (bank c) OR cflags c, cfmt c, cM c, cK c, cN c, act, wgt, out, 0, 0, 0]"

definition publish_slot :: "posted \<Rightarrow> sim \<Rightarrow> sim" where
  "publish_slot c s =
     (let idx = nxt (host s); sl = take_bit RING_LOG2 idx;
          s1 = (case slot_of (host s) sl of Some p \<Rightarrow> if p \<notin> h_ended (host s) then fail C8 s else s | None \<Rightarrow> s);
          s2 = (if faulty s Doorbell_Before_Stores \<and> Some idx = fence_victim (host s)
                then upd_h (\<lambda>h. h\<lparr>stale := (stale h)(addr idx \<mapsto> line s (addr idx))\<rparr>) s1 else s1)
      in upd_h (\<lambda>h. h\<lparr>slot_of := (slot_of h)(sl \<mapsto> idx), cmds := (cmds h)(idx \<mapsto> c), nxt := idx + 1\<rparr>)
           (store (addr idx) (cdesc c) s2))"

definition publish_body :: "cmd \<Rightarrow> sim \<Rightarrow> sim" where
  "publish_body c s =
     (case (pack_array int8_ok int8_pack (cA c), pack_array int8_ok int8_pack (cW c)) of
        (Inr a_data, Inr w_data) \<Rightarrow>
          (let M = cM c; K = cK c; N = cN c; idx = nxt (host s) in
           case take_buf (M * K) 0 a_data s of ((act, _), s1) \<Rightarrow>
           case take_buf (K * N) 0 w_data s1 of ((wgt, _), s2) \<Rightarrow>
           case take_buf (M * N * R_BYTES) SENTINEL [] s2 of ((out, n), s3) \<Rightarrow>
           let s4 = upd_h (\<lambda>h. h\<lparr>owner := fold (\<lambda>i ow. ow(out + i * LINE \<mapsto> idx)) [0..<n] (owner h)\<rparr>) s3 in
           case DESC_pack (publish_values c act wgt out) of
             Inl e \<Rightarrow> raise_err e s4
           | Inr desc \<Rightarrow>
               publish_slot (cmd.extend c (posted.fields out n (h_seed (host s4)) desc)) s4)
      | (Inl e, _) \<Rightarrow> raise_err e s
      | (_, Inl e) \<Rightarrow> raise_err e s)"

definition as_read_by_module :: "nat \<Rightarrow> sim \<Rightarrow> bytes \<times> sim" where
  "as_read_by_module a s =
     (case stale (host s) a of
        Some d \<Rightarrow> (d, upd_h (\<lambda>h. h\<lparr>stale := (stale h)(a := None)\<rparr>) s)
      | None \<Rightarrow> (line s a, s))"

text \<open>\<open>complete\<close>, its checks one after the other; the end of the function moves the host's head.\<close>

definition out_bytes :: "posted \<Rightarrow> sim \<Rightarrow> bytes" where
  "out_bytes c s = concat (map (\<lambda>i. line s (cout c + i * LINE)) [0..<out_lines c])"

definition expected_index :: "host_state \<Rightarrow> nat \<Rightarrow> py_error + bool" where
  "expected_index h index =
     (if restart h then Inr (index = 0)
      else case last_index h of
             None \<Rightarrow> Inl TypeError
           | Some l \<Rightarrow> Inr (if slack h then index = l + 1 \<or> index = l + 2 else index = l + 1))"

definition check_done :: "posted \<Rightarrow> nat \<Rightarrow> sim \<Rightarrow> sim" where
  "check_done c index s =
     (let want = gemm (cA c) (cW c) (cM c) (cK c) (cN c) (gemm_seed (cseed c) index) in
      case unpack_array 4 int32_unpack (cM c * cN c) (out_bytes c s) of
        Inl e \<Rightarrow> raise_err e s
      | Inr got \<Rightarrow>
          (let s1 = (if got \<noteq> want then fail C1 s else s) in
           case expected_index (host s) index of
             Inl e \<Rightarrow> raise_err e s1
           | Inr ok \<Rightarrow>
               upd_h (\<lambda>h. h\<lparr>last_index := Some index, restart := False, slack := False\<rparr>) (if ok then s1 else fail C4 s1)))"

definition check_not_run :: "posted \<Rightarrow> nat \<Rightarrow> sim \<Rightarrow> sim" where
  "check_not_run c index s =
     (let out = out_bytes c s;
          s1 = (if out \<noteq> replicate (length out) SENTINEL then fail C2 s else s)
      in if index \<noteq> NO_INDEX then fail C4 s1 else s1)"

definition check_fields :: "posted \<Rightarrow> bytes \<Rightarrow> sim \<Rightarrow> sim" where
  "check_fields c rec s = (if take 0x30 rec \<noteq> take 0x30 (cdesc c) then fail C7 s else s)"

definition check_status :: "posted \<Rightarrow> nat \<Rightarrow> sim \<Rightarrow> sim" where
  "check_status c st s = (if st = cexpect c \<or> (teardown_cmd c \<and> st = LOST) then s else fail C3 s)"

definition check_outcome :: "posted \<Rightarrow> nat \<Rightarrow> nat \<Rightarrow> sim \<Rightarrow> sim" where
  "check_outcome c st index s =
     (if st = DONE then check_done c index s
      else if st \<in> {REFUSED, NOT_ISSUED, NOT_RUN} then check_not_run c index s else s)"

definition complete :: "nat \<Rightarrow> bytes \<Rightarrow> sim \<Rightarrow> sim" where
  "complete idx rec s =
     (case cmds (host s) idx of
        None \<Rightarrow> raise_err KeyError s
      | Some c \<Rightarrow>
          (let st = word_at 0x30 rec; index = word_at 0x34 rec;
               s3 = check_outcome c st index (check_status c st (check_fields c rec s))
           in if raised s3 \<noteq> None then s3
              else upd_h (\<lambda>h. h\<lparr>ends := (ends h)[min st 5 := ends h ! min st 5 + 1],
                               h_ended := insert idx (h_ended h), hhead := idx + 1\<rparr>) s3))"

definition try_end :: "sim \<Rightarrow> bool \<times> sim" where
  "try_end s =
     (let i = hhead (host s) in
      if i = nxt (host s) \<or> status s i = PENDING then (False, s)
      else (True, complete i (line s (addr i)) s))"

text \<open>C5, every tick; C9, at every landing; C6, at every interrupt.\<close>

definition watch :: "sim \<Rightarrow> sim" where
  "watch s =
     (let m = modul s; h = host s in
      if \<not> enable m then s
      else fold (\<lambda>idx s. if slot_of h (take_bit RING_LOG2 idx) = Some idx \<and> idx \<notin> h_ended h \<and> status s idx = PENDING
                         then fail C5 s else s) [max (origin h) (head m - ring_size)..<head m] s)"

definition landing :: "nat \<Rightarrow> sim \<Rightarrow> sim" where
  "landing a s =
     (let h = host s;
          s1 = (case owner h a of Some idx \<Rightarrow> if idx \<in> h_ended h then fail C9 s else s | None \<Rightarrow> s)
      in if RING \<le> a \<and> a < RING + ring_size * SLOT
         then (case slot_of h ((a - RING) div SLOT) of Some idx \<Rightarrow> if idx \<in> h_ended h then fail C9 s1 else s1 | None \<Rightarrow> s1)
         else s1)"

definition land :: "nat \<Rightarrow> bytes \<Rightarrow> sim \<Rightarrow> sim" where
  "land a data s = (landing a s)\<lparr>mem := (mem s)(a \<mapsto> data)\<rparr>"

definition msi :: "sim \<Rightarrow> sim" where
  "msi s =
     (let h = host s in
      fold (\<lambda>idx s. if idx \<notin> h_ended h \<and> status s idx = PENDING then fail C6 s else s) [hhead h..<h_irq_at h]
        (upd_h (\<lambda>h. h\<lparr>msis := msis h + 1\<rparr>) s))"

text \<open>\<open>end_lost\<close>: the two loops of the code.\<close>

definition mark_lost :: "nat \<Rightarrow> sim \<Rightarrow> sim" where
  "mark_lost idx s = (let d = line s (addr idx) in store (addr idx) (take 0x30 d @ le_pack 4 LOST @ drop 0x34 d) s)"

definition end_one_lost :: "nat \<Rightarrow> sim \<Rightarrow> sim" where
  "end_one_lost idx s =
     (if raised s \<noteq> None then s
      else if status s idx = PENDING
      then upd_h (\<lambda>h. h\<lparr>h_ended := insert idx (h_ended h), hhead := idx + 1\<rparr>) (fail C10 s)
      else complete idx (line s (addr idx)) s)"

definition end_lost :: "sim \<Rightarrow> sim" where
  "end_lost s =
     (let h = host s;
          s1 = fold mark_lost [hhead h..<nxt h - of_bool (faulty s Lost_Left_Pending)] s
      in upd_h (\<lambda>h. h\<lparr>slack := True\<rparr>) (fold end_one_lost [hhead h..<nxt h] s1))"

definition restart_queue :: "sim \<Rightarrow> sim" where
  "restart_queue s =
     (let s1 = host_write PTQ_TAIL (nxt (host s)) s;
          s2 = host_write PTQ_CTRL (ctrl (host s1) OR 1) s1
      in upd_h (\<lambda>h. h\<lparr>origin := nxt h\<rparr>) s2)"

definition setup_ring :: "sim \<Rightarrow> sim" where
  "setup_ring s = fold (\<lambda>(off, val). host_write off val) [(PTQ_BASE_LO, RING), (PTQ_BASE_HI, 0), (PTQ_SIZE, RING_LOG2)] s"

definition finish :: "sim \<Rightarrow> sim" where
  "finish s =
     (let s1 = (if hhead (host s) \<noteq> nxt (host s) then fail C12 s else s)
      in if timeouts (host s) \<noteq> 1 then fail C12 s1 else s1)"

section \<open>The host's generators\<close>

text \<open>One piece of the host's program: what it does up to its next suspension or call.  The frames it leaves
  in its place come first in the list; \<open>Some dt\<close> is a \<open>yield\<close>.\<close>

definition new_box :: "nat \<Rightarrow> sim \<Rightarrow> nat \<times> sim" where
  "new_box off s = (let b = fresh s in (b, mmio_read off b (s\<lparr>fresh := b + 1, boxes := (boxes s)(b := [])\<rparr>)))"

fun frame_step :: "frame \<Rightarrow> sim \<Rightarrow> (frame list \<times> nat option) \<times> sim" where
  "frame_step (Fr_Publish c) s =
     (if room s \<le> 0
      then (case try_end s of (ok, s') \<Rightarrow> (([Fr_Publish c], if ok then None else Some 1), s'))
      else (([], None), publish_body c s))"
| "frame_step Fr_Ring s = (([], None), ring s)"
| "frame_step (Fr_Set_Seed sd) s = (([], None), set_seed sd s)"
| "frame_step (Fr_Write off val) s = (([], None), host_write off val s)"
| "frame_step Fr_Restart_Queue s = (([], None), restart_queue s)"
| "frame_step (Fr_Yield dt) s = (([], Some dt), s)"
| "frame_step Fr_Fence_Victim s = (([], None), upd_h (\<lambda>h. h\<lparr>fence_victim := Some (nxt h)\<rparr>) s)"
| "frame_step Fr_Irq_At_Next s =
     (([], None), host_write PTQ_IRQ_AT (nxt (host s)) (upd_h (\<lambda>h. h\<lparr>h_irq_at := nxt h\<rparr>) s))"
| "frame_step Fr_Wedge_Next s = (([], None), upd_m (\<lambda>m. m\<lparr>wedge_at := Some (nxt (host s) + 1)\<rparr>) s)"
| "frame_step Fr_Drain s = (([Fr_Drain_Loop (now s)], None), s)"
| "frame_step (Fr_Drain_Loop quiet) s =
     (if hhead (host s) < nxt (host s)
      then (case try_end s of (ok, s') \<Rightarrow>
              if ok then (([Fr_Drain_Loop (now s)], None), s')
              else if now s - quiet > T_WAIT
              then (([Fr_Teardown, Fr_Drain], None), upd_h (\<lambda>h. h\<lparr>timeouts := timeouts h + 1\<rparr>) s')
              else (([Fr_Drain_Loop quiet], Some 1), s'))
      else (([], None), s))"
| "frame_step Fr_Await_Irq s = (([Fr_Await_Loop (msis (host s) + 1) (now s)], None), s)"
| "frame_step (Fr_Await_Loop n quiet) s =
     (if msis (host s) < n \<and> now s - quiet \<le> T_WAIT then (([Fr_Await_Loop n quiet], Some 1), s)
      else (([Fr_Drain], None), s))"
| "frame_step Fr_Teardown s =
     (([Fr_Poll_Status (now s)], None),
      host_write PTQ_CTRL (unset_bit 0 (ctrl (host s))) (upd_h (\<lambda>h. h\<lparr>teardowns := teardowns h + 1\<rparr>) s))"
| "frame_step (Fr_Poll_Status t0) s = (case new_box PTQ_STATUS s of (b, s') \<Rightarrow> (([Fr_Got_Status t0 b], None), s'))"
| "frame_step (Fr_Got_Status t0 b) s =
     (case boxes s b of
        [] \<Rightarrow> (([Fr_Got_Status t0 b], Some 1), s)
      | v # _ \<Rightarrow> if bit v 0
          then (if now s - t0 > T_QUIESCE then (([Fr_Reset], None), s) else (([Fr_Poll_Status t0], None), s))
          else (([Fr_Read_Head], None), s))"
| "frame_step Fr_Read_Head s = (case new_box PTQ_HEAD s of (b, s') \<Rightarrow> (([Fr_Got_Head b], None), s'))"
| "frame_step (Fr_Got_Head b) s =
     (case boxes s b of
        [] \<Rightarrow> (([Fr_Got_Head b], Some 1), s)
      | v # _ \<Rightarrow> if hhead (host s) < v \<and> fst (try_end s) then (([Fr_Got_Head b], None), snd (try_end s))
          else (([], None), restart_queue (end_lost s)))"
| "frame_step Fr_Reset s = (([Fr_Reset_Resume], Some (2 * L)), sched L 1 Ev_Reset s)"
| "frame_step Fr_Reset_Resume s =
     (([], Some 1),
      restart_queue (upd_h (\<lambda>h. h\<lparr>restart := True\<rparr>) (end_lost (set_seed (h_seed (host s)) (setup_ring s)))))"

text \<open>A resumption of the script: pieces run until one yields, an exception stops it, or none is left.\<close>

definition resume_step :: "sim \<Rightarrow> nat option \<times> sim" where
  "resume_step s =
     (case frames (host s) of
        [] \<Rightarrow> (None, s)
      | f # fs \<Rightarrow> (case frame_step f s of ((new, y), s') \<Rightarrow> (y, upd_h (\<lambda>h. h\<lparr>frames := new @ fs\<rparr>) s')))"

partial_function (option) resume :: "sim \<Rightarrow> (nat option \<times> sim) option" where
  "resume s =
     (if frames (host s) = [] \<or> raised s \<noteq> None then Some (None, s)
      else case resume_step s of (Some dt, s') \<Rightarrow> Some (if raised s' = None then Some dt else None, s') | (None, s') \<Rightarrow> resume s')"

section \<open>The run\<close>

text \<open>What a pending call does when it is due.\<close>

definition on_at_host :: "nat \<Rightarrow> nat \<Rightarrow> sim \<Rightarrow> sim" where
  "on_at_host rid a s = (case as_read_by_module a s of (d, s1) \<Rightarrow> sched L 1 (Ev_Back rid a d) s1)"

definition dict_put :: "nat \<Rightarrow> bytes \<Rightarrow> (nat \<times> bytes) list \<Rightarrow> (nat \<times> bytes) list" where
  "dict_put a d got = (a, d) # filter (\<lambda>x. fst x \<noteq> a) got"

definition got_lines :: "read_rec \<Rightarrow> bytes list" where
  "got_lines r = map (\<lambda>a. the (map_of (rd_got r) a)) (rd_addrs r)"

fun then_read :: "read_then \<Rightarrow> bytes list \<Rightarrow> sim \<Rightarrow> sim" where
  "then_read (Got_Descriptor idx) datas s = got_descriptor datas idx s"
| "then_read (Shots idx d M K N out index sd nw st) datas s = shots datas idx d M K N out index sd nw st s"

definition on_back :: "nat \<Rightarrow> nat \<Rightarrow> bytes \<Rightarrow> sim \<Rightarrow> sim" where
  "on_back rid a d s =
     (case reads s rid of
        None \<Rightarrow> s
      | Some r \<Rightarrow>
          if rd_job r \<noteq> job_no (modul s) \<or> rd_gen r \<noteq> gen (modul s) then s
          else let r' = r\<lparr>rd_got := dict_put a d (rd_got r)\<rparr>; s1 = s\<lparr>reads := (reads s)(rid \<mapsto> r')\<rparr> in
               if length (rd_got r') = length (rd_addrs r) then then_read (rd_then r) (got_lines r') s1 else s1)"

fun then_go :: "write_then \<Rightarrow> sim \<Rightarrow> sim" where
  "then_go No_Then s = s"
| "then_go (Ordered sid) s = ordered sid s"
| "then_go (Record idx st rec jb) s = record_write idx st rec jb s"
| "then_go (Ended idx st jb) s = ended idx st jb s"

definition on_go :: "nat \<Rightarrow> write_then \<Rightarrow> sim \<Rightarrow> sim" where
  "on_go g thn s =
     (if g \<noteq> gen (modul s) then s
      else let s1 = then_go thn (upd_m (\<lambda>m. m\<lparr>inflight := inflight m - 1\<rparr>) s)
           in if raised s1 \<noteq> None then s1 else settle s1)"

fun dispatch :: "event \<Rightarrow> sim \<Rightarrow> sim" where
  "dispatch (Ev_Write off val) s = on_write off val s"
| "dispatch (Ev_Read off b) s = on_read off b s"
| "dispatch (Ev_Box b v) s = s\<lparr>boxes := (boxes s)(b := boxes s b @ [v])\<rparr>"
| "dispatch Ev_Reset s = upd_m reset s"
| "dispatch (Ev_At_Host rid a) s = on_at_host rid a s"
| "dispatch (Ev_Back rid a d) s = on_back rid a d s"
| "dispatch (Ev_Land a d) s = land a d s"
| "dispatch (Ev_Go g thn) s = on_go g thn s"
| "dispatch (Ev_Shot sid m) s = shot sid m s"
| "dispatch Ev_Msi s = msi s"

definition pop :: "sim \<Rightarrow> sim" where
  "pop s = (case q s of [] \<Rightarrow> s | e # es \<Rightarrow> dispatch (snd e) (s\<lparr>q := es\<rparr>))"

definition due :: "sim \<Rightarrow> bool" where
  "due s \<longleftrightarrow> q s \<noteq> [] \<and> fst (fst (hd (q s))) \<le> now s"

text \<open>The draws of \<open>random.Random(7)\<close>, and the commands of the script in the order it draws them.\<close>

definition randint :: "int \<Rightarrow> int \<Rightarrow> nat \<Rightarrow> int" where
  "randint lo hi raw = lo + int raw mod (hi - lo + 1)"

text \<open>\<open>cmd(rng, M, K, N, bank, flags, fmt, expect, teardown)\<close>: a zero size and an absent bank are drawn; the
  second component is the number of the next draw.\<close>

definition draw_size :: "(nat \<Rightarrow> nat) \<Rightarrow> nat \<Rightarrow> nat \<Rightarrow> int \<Rightarrow> nat \<times> nat" where
  "draw_size raw given k hi = (if given \<noteq> 0 then (given, k) else (nat (randint 1 hi (raw k)), k + 1))"

definition make_cmd ::
  "(nat \<Rightarrow> nat) \<Rightarrow> nat \<Rightarrow> nat \<Rightarrow> nat \<Rightarrow> nat option \<Rightarrow> nat \<Rightarrow> nat \<Rightarrow> nat \<Rightarrow> bool \<Rightarrow> nat \<Rightarrow> cmd \<times> nat" where
  "make_cmd raw M0 K0 N0 bk fl fm ex td k0 =
     (case draw_size raw M0 k0 4 of (M, k1) \<Rightarrow>
      case draw_size raw K0 k1 8 of (K, k2) \<Rightarrow>
      case draw_size raw N0 k2 4 of (N, k3) \<Rightarrow>
      case (case bk of Some b \<Rightarrow> (b, k3) | None \<Rightarrow> (nat (randint 0 1 (raw k3)), k3 + 1)) of (b, k4) \<Rightarrow>
      (\<lparr>cM = M, cK = K, cN = N, bank = b, cflags = fl, cfmt = fm, cexpect = ex, teardown_cmd = td,
        cA = map (\<lambda>i. randint (-128) 127 (raw (k4 + i))) [0..<M * K],
        cW = map (\<lambda>i. randint (-128) 127 (raw (k4 + M * K + i))) [0..<K * N]\<rparr>, k4 + M * K + K * N))"

text \<open>What the script asks for, one entry a command: plain, of a given shape, or with other arguments.\<close>

record wanted =
  wM :: nat
  wK :: nat
  wN :: nat
  wbank :: "nat option"
  wflags :: nat
  wfmt :: nat
  wexpect :: nat
  wteardown :: bool

definition plain :: wanted where
  "plain = \<lparr>wM = 0, wK = 0, wN = 0, wbank = None, wflags = 0, wfmt = 0, wexpect = DONE, wteardown = False\<rparr>"

fun make_cmds :: "(nat \<Rightarrow> nat) \<Rightarrow> nat \<Rightarrow> wanted list \<Rightarrow> cmd list" where
  "make_cmds raw k [] = []"
| "make_cmds raw k (w # ws) =
     (case make_cmd raw (wM w) (wK w) (wN w) (wbank w) (wflags w) (wfmt w) (wexpect w) (wteardown w) k of
        (c, k') \<Rightarrow> c # make_cmds raw k' ws)"

definition part1 :: "wanted list" where
  "part1 = map (\<lambda>i. if i \<in> {1, 4} then plain\<lparr>wM := 8, wN := 16\<rparr> else plain) [0..<6]"

definition part2 :: "wanted list" where
  "part2 = [plain\<lparr>wM := 8, wN := 16, wbank := Some 3, wexpect := REFUSED\<rparr>,
     plain\<lparr>wflags := AFTER_SUCCESS, wexpect := NOT_RUN\<rparr>, plain\<lparr>wfmt := 7, wexpect := NOT_ISSUED\<rparr>,
     plain, plain\<lparr>wflags := AFTER_SUCCESS\<rparr>]"

definition part5 :: "wanted list" where
  "part5 = plain\<lparr>wM := 40, wK := 8, wN := 16, wteardown := True\<rparr> # replicate 3 (plain\<lparr>wteardown := True\<rparr>)"

definition part6 :: "wanted list" where
  "part6 = [plain, plain\<lparr>wteardown := True\<rparr>, plain\<lparr>wteardown := True\<rparr>]"

definition all_wanted :: "wanted list" where
  "all_wanted = part1 @ part2 @ replicate 14 plain @ replicate 6 plain @ part5 @ part6 @ replicate 4 plain"

text \<open>The script: its pieces in order.\<close>

definition script :: "fault option \<Rightarrow> (nat \<Rightarrow> nat) \<Rightarrow> frame list" where
  "script f raw =
     (let cs = make_cmds raw 0 all_wanted; part = (\<lambda>i n. take n (drop i cs)) in
      [Fr_Write PTQ_BASE_LO RING, Fr_Write PTQ_BASE_HI 0, Fr_Write PTQ_SIZE RING_LOG2, Fr_Set_Seed 20261015,
       Fr_Restart_Queue, Fr_Yield 1]
      @ concat (map (\<lambda>c. [Fr_Publish c, Fr_Ring, Fr_Drain]) (part 0 6))
      @ map Fr_Publish (part 6 5) @ [Fr_Ring, Fr_Drain]
      @ concat (map (\<lambda>(i, c). (if i = 9 then [Fr_Fence_Victim] else []) @ [Fr_Publish c, Fr_Ring]) (List.enumerate 0 (part 11 14)))
      @ (if f = Some Config_While_Queued then [Fr_Set_Seed 20261016] else [])
      @ [Fr_Drain]
      @ (if f \<noteq> Some Config_While_Queued then [Fr_Set_Seed 20261016] else [])
      @ [Fr_Write PTQ_CTRL 3]
      @ concat (map (\<lambda>c. [Fr_Publish c, Fr_Irq_At_Next, Fr_Ring, Fr_Await_Irq]) (part 25 6))
      @ [Fr_Write PTQ_CTRL 1]
      @ map Fr_Publish (part 31 4) @ [Fr_Ring, Fr_Yield (9 * L), Fr_Teardown]
      @ [Fr_Wedge_Next] @ map Fr_Publish (part 35 3) @ [Fr_Ring, Fr_Drain]
      @ map Fr_Publish (part 38 4) @ [Fr_Ring, Fr_Drain])"

definition new_sim :: "fault option \<Rightarrow> (nat \<Rightarrow> nat) \<Rightarrow> host_state \<Rightarrow> sim" where
  "new_sim f link_raw h =
     \<lparr>planted_fault = f, rng = link_raw, draws = 0, now = 0, q = [], seqno = 0, mem = Map.empty, fired = [], raised = None,
      fresh = 0, reads = Map.empty, gemms = Map.empty, boxes = (\<lambda>_. []), modul = reset module_init, host = h\<rparr>"

definition sim_init :: "fault option \<Rightarrow> (nat \<Rightarrow> nat) \<Rightarrow> (nat \<Rightarrow> nat) \<Rightarrow> sim" where
  "sim_init f link_raw cmd_raw = new_sim f link_raw (host_init\<lparr>frames := script f cmd_raw\<rparr>)"

end
