(* ===== verification/Transport_Run.thy ===== *)
theory Transport_Run
  imports Transport_Sim
begin

text \<open>
  \<open>Sim.run\<close>.  Every call a handler schedules is later than the tick it is made in, so the calls due in a
  tick are finitely many and the inner loop of the run ends; the script of the host reaches its next
  \<open>yield\<close> from every state in which its head is not past its tail.  The run ends at its limit.
\<close>

section \<open>Scheduled calls are later\<close>

definition later :: "sim \<Rightarrow> sim \<Rightarrow> bool" where
  "later s s' \<longleftrightarrow> now s' = now s \<and> filter (\<lambda>e. fst (fst e) \<le> now s) (q s') = filter (\<lambda>e. fst (fst e) \<le> now s) (q s)"

lemma later_refl: "later s s"
  by (simp add: later_def)

lemma later_eq: "later s0 s \<Longrightarrow> now s' = now s \<Longrightarrow> q s' = q s \<Longrightarrow> later s0 s'"
  by (simp add: later_def)

lemma upd_m_simps [simp]:
  "now (upd_m f s) = now s" "q (upd_m f s) = q s" "mem (upd_m f s) = mem s" "reads (upd_m f s) = reads s"
  "gemms (upd_m f s) = gemms s" "fresh (upd_m f s) = fresh s" "host (upd_m f s) = host s" "raised (upd_m f s) = raised s"
  "planted_fault (upd_m f s) = planted_fault s" "modul (upd_m f s) = f (modul s)" "boxes (upd_m f s) = boxes s"
  "fired (upd_m f s) = fired s" "draws (upd_m f s) = draws s" "rng (upd_m f s) = rng s" "seqno (upd_m f s) = seqno s"
  by (simp_all add: upd_m_def)

lemma upd_h_simps [simp]:
  "now (upd_h f s) = now s" "q (upd_h f s) = q s" "mem (upd_h f s) = mem s" "reads (upd_h f s) = reads s"
  "gemms (upd_h f s) = gemms s" "fresh (upd_h f s) = fresh s" "modul (upd_h f s) = modul s" "raised (upd_h f s) = raised s"
  "planted_fault (upd_h f s) = planted_fault s" "host (upd_h f s) = f (host s)" "boxes (upd_h f s) = boxes s"
  "fired (upd_h f s) = fired s" "draws (upd_h f s) = draws s" "rng (upd_h f s) = rng s" "seqno (upd_h f s) = seqno s"
  by (simp_all add: upd_h_def)

lemma fail_simps [simp]:
  "now (fail c s) = now s" "q (fail c s) = q s" "mem (fail c s) = mem s" "reads (fail c s) = reads s"
  "gemms (fail c s) = gemms s" "fresh (fail c s) = fresh s" "modul (fail c s) = modul s" "raised (fail c s) = raised s"
  "planted_fault (fail c s) = planted_fault s" "host (fail c s) = host s" "boxes (fail c s) = boxes s"
  by (simp_all add: fail_def)

lemma raise_simps [simp]:
  "now (raise_err e s) = now s" "q (raise_err e s) = q s" "mem (raise_err e s) = mem s" "reads (raise_err e s) = reads s"
  "gemms (raise_err e s) = gemms s" "fresh (raise_err e s) = fresh s" "modul (raise_err e s) = modul s" "raised (raise_err e s) = Some e"
  "planted_fault (raise_err e s) = planted_fault s" "host (raise_err e s) = host s" "boxes (raise_err e s) = boxes s"
  "fired (raise_err e s) = fired s"
  by (simp_all add: raise_err_def)

lemma sched_simps [simp]:
  "now (sched dt p e s) = now s" "mem (sched dt p e s) = mem s" "reads (sched dt p e s) = reads s"
  "gemms (sched dt p e s) = gemms s" "fresh (sched dt p e s) = fresh s" "modul (sched dt p e s) = modul s"
  "raised (sched dt p e s) = raised s" "planted_fault (sched dt p e s) = planted_fault s" "host (sched dt p e s) = host s"
  "boxes (sched dt p e s) = boxes s" "fired (sched dt p e s) = fired s"
  "q (sched dt p e s) = insort_key fst ((now s + dt, p, seqno s + 1), e) (q s)"
  by (simp_all add: sched_def)

lemma drawn_simps [simp]:
  "now (drawn s) = now s" "q (drawn s) = q s" "mem (drawn s) = mem s" "reads (drawn s) = reads s"
  "gemms (drawn s) = gemms s" "fresh (drawn s) = fresh s" "modul (drawn s) = modul s" "raised (drawn s) = raised s"
  "planted_fault (drawn s) = planted_fault s" "host (drawn s) = host s" "boxes (drawn s) = boxes s" "fired (drawn s) = fired s"
  by (simp_all add: drawn_def)

lemma later_sched:
  assumes "later s0 s" "0 < dt"
  shows "later s0 (sched dt p e s)"
proof -
  have "\<not> now s + dt \<le> now s0" using assms by (simp add: later_def)
  then show ?thesis using assms(1) by (simp add: later_def filter_insort_triv)
qed

lemma later_upd:
  "later s0 s \<Longrightarrow> later s0 (upd_m f s)" "later s0 s \<Longrightarrow> later s0 (upd_h g s)" "later s0 s \<Longrightarrow> later s0 (fail c s)"
  "later s0 s \<Longrightarrow> later s0 (raise_err e s)" "later s0 s \<Longrightarrow> later s0 (drawn s)"
  "later s0 s \<Longrightarrow> later s0 (s\<lparr>gemms := G\<rparr>)" "later s0 s \<Longrightarrow> later s0 (s\<lparr>reads := Rd\<rparr>)"
  "later s0 s \<Longrightarrow> later s0 (s\<lparr>mem := Mm\<rparr>)" "later s0 s \<Longrightarrow> later s0 (s\<lparr>boxes := B\<rparr>)"
  "later s0 s \<Longrightarrow> later s0 (s\<lparr>fresh := n\<rparr>)"
  by (simp_all add: later_def)

lemma L_pos [simp]: "0 < L" "L \<noteq> 0"
  by (simp_all add: L_def)

section \<open>What every handler of the module does to the simulation\<close>

text \<open>A property of the simulation that the elementary steps of the module keep is kept by all of its handlers: the
  module schedules calls for a later tick, changes its own registers and records, reports checks C5, C6, C9 and
  C11, stores lines, and of the host's variables touches the count of interrupts and the lines read early.\<close>

named_theorems kept_intros

locale module_kept =
  fixes P :: "sim \<Rightarrow> bool"
  assumes kept_sched: "P s \<Longrightarrow> 0 < dt \<Longrightarrow> P (sched dt p e s)"
    and kept_upd_m: "P s \<Longrightarrow> P (upd_m f s)"
    and kept_fail: "P s \<Longrightarrow> c \<in> {C5, C6, C9, C11} \<Longrightarrow> P (fail c s)"
    and kept_raise: "P s \<Longrightarrow> P (raise_err x s)"
    and kept_drawn: "P s \<Longrightarrow> P (drawn s)"
    and kept_gemms: "P s \<Longrightarrow> P (s\<lparr>gemms := G\<rparr>)"
    and kept_reads: "P s \<Longrightarrow> P (s\<lparr>reads := Rd\<rparr>)"
    and kept_mem: "P s \<Longrightarrow> P (s\<lparr>mem := Mm\<rparr>)"
    and kept_boxes: "P s \<Longrightarrow> P (s\<lparr>boxes := B\<rparr>)"
    and kept_fresh: "P s \<Longrightarrow> P (s\<lparr>fresh := n\<rparr>)"
    and kept_stale: "P s \<Longrightarrow> P (upd_h (\<lambda>h. h\<lparr>stale := S h\<rparr>) s)"
    and kept_msis: "P s \<Longrightarrow> P (upd_h (\<lambda>h. h\<lparr>msis := N h\<rparr>) s)"
begin

lemmas kept_basic [kept_intros] =
  kept_sched kept_upd_m kept_fail kept_raise kept_drawn kept_gemms kept_reads kept_mem kept_boxes kept_stale kept_msis

lemma kept_fresh_reads [kept_intros]: "P s \<Longrightarrow> P (s\<lparr>fresh := n, reads := Rd\<rparr>)"
  using kept_reads[OF kept_fresh] by simp

lemma kept_fresh_gemms [kept_intros]: "P s \<Longrightarrow> P (s\<lparr>fresh := n, gemms := G\<rparr>)"
  using kept_gemms[OF kept_fresh] by simp

lemma kept_if [kept_intros]: "P s \<Longrightarrow> P s' \<Longrightarrow> P (if b then s else s')"
  by simp

lemma kept_option [kept_intros]: "P s \<Longrightarrow> (\<And>x. P (f x)) \<Longrightarrow> P (case y of None \<Rightarrow> s | Some x \<Rightarrow> f x)"
  by (cases y) simp_all

lemma kept_sum [kept_intros]: "(\<And>x. P (f x)) \<Longrightarrow> (\<And>x. P (g x)) \<Longrightarrow> P (case y of Inl x \<Rightarrow> f x | Inr x \<Rightarrow> g x)"
  by (cases y) simp_all

lemma kept_fold [kept_intros]: "P s \<Longrightarrow> (\<And>x s. P s \<Longrightarrow> P (f x s)) \<Longrightarrow> P (fold f xs s)"
  by (induction xs arbitrary: s) simp_all

lemma kept_settle [kept_intros]: "P s \<Longrightarrow> P (settle s)"
  unfolding settle_def by (intro kept_intros)

lemma kept_read_lines [kept_intros]: "P s \<Longrightarrow> P (read_lines as thn s)"
  unfolding read_lines_def request_line_def Let_def by (intro kept_intros) simp_all

lemma kept_kick [kept_intros]: "P s \<Longrightarrow> P (kick s)"
  unfolding kick_def Let_def by (intro kept_intros)

lemma kept_write_line [kept_intros]: "P s \<Longrightarrow> P (write_line a d thn s)"
  unfolding write_line_def Let_def by (intro kept_intros) simp_all

lemma kept_irq [kept_intros]: "P s \<Longrightarrow> P (irq h s)"
  unfolding irq_def by (intro kept_intros) simp_all

lemma kept_ended [kept_intros]: "P s \<Longrightarrow> P (ended i st jb s)"
  unfolding ended_def Let_def by (intro kept_intros)

lemma kept_record_write [kept_intros]: "P s \<Longrightarrow> P (record_write i st r jb s)"
  unfolding record_write_def Let_def by (intro kept_intros)

lemma kept_end_cmd [kept_intros]: "P s \<Longrightarrow> P (end_cmd i d st ix s)"
  unfolding end_cmd_def Let_def by (intro kept_intros)

lemma kept_ordered [kept_intros]: "P s \<Longrightarrow> P (ordered sid s)"
  unfolding ordered_def Let_def by (intro kept_intros)

lemma kept_shot [kept_intros]: "P s \<Longrightarrow> P (shot sid m s)"
  unfolding shot_def send_line_def Let_def by (intro kept_intros) simp_all

lemma kept_shots [kept_intros]: "P s \<Longrightarrow> P (shots datas i d M K N out ix sd nw st s)"
  unfolding shots_def Let_def by (intro kept_intros) simp_all

lemma kept_start [kept_intros]: "P s \<Longrightarrow> P (start i d M K N a w out st s)"
  unfolding start_def Let_def by (intro kept_intros)

lemma kept_got_descriptor [kept_intros]: "P s \<Longrightarrow> P (got_descriptor datas i s)"
  unfolding got_descriptor_def Let_def by (intro kept_intros)

lemma kept_on_write [kept_intros]: "P s \<Longrightarrow> P (on_write off val s)"
  unfolding on_write_def write_ctrl_def write_tail_def write_seed_def Let_def by (intro kept_intros) simp_all

lemma kept_on_read [kept_intros]: "P s \<Longrightarrow> P (on_read off b s)"
  unfolding on_read_def Let_def by (intro kept_intros) simp_all

lemma kept_on_at_host [kept_intros]: "P s \<Longrightarrow> P (on_at_host rid a s)"
  unfolding on_at_host_def as_read_by_module_def by (cases "stale (host s) a"; simp) (intro kept_intros; simp)+

lemma kept_then_read [kept_intros]: "P s \<Longrightarrow> P (then_read t ds s)"
  by (cases t) (simp_all add: kept_intros)

lemma kept_on_back [kept_intros]: "P s \<Longrightarrow> P (on_back rid a d s)"
  unfolding on_back_def Let_def by (intro kept_intros)

lemma kept_then_go [kept_intros]: "P s \<Longrightarrow> P (then_go t s)"
  by (cases t) (simp_all add: kept_intros)

lemma kept_on_go [kept_intros]: "P s \<Longrightarrow> P (on_go g t s)"
  unfolding on_go_def Let_def by (intro kept_intros)

lemma kept_land [kept_intros]: "P s \<Longrightarrow> P (land a d s)"
  unfolding land_def landing_def Let_def by (intro kept_intros) simp_all

lemma kept_msi [kept_intros]: "P s \<Longrightarrow> P (msi s)"
  unfolding msi_def Let_def by (intro kept_intros) simp_all

lemma kept_dispatch: "P s \<Longrightarrow> P (dispatch e s)"
  by (cases e) (simp_all add: kept_intros)

lemma kept_watch: "P s \<Longrightarrow> P (watch s)"
  unfolding watch_def Let_def by (intro kept_intros) simp_all

end

interpretation late: module_kept "later s0" for s0
  by unfold_locales (simp_all add: later_sched later_upd)

lemma later_dispatch: "later s (dispatch e s)"
  by (rule late.kept_dispatch) (rule later_refl)

definition due_count :: "sim \<Rightarrow> nat" where
  "due_count s = length (filter (\<lambda>e. fst (fst e) \<le> now s) (q s))"

lemma due_count_pop: "due s \<Longrightarrow> due_count (pop s) < due_count s"
proof -
  assume "due s"
  then obtain e es where q: "q s = e # es" "fst (fst e) \<le> now s" by (cases "q s") (auto simp: due_def)
  have "later (s\<lparr>q := es\<rparr>) (pop s)" using later_dispatch by (simp add: pop_def q)
  then show ?thesis using q by (simp add: later_def due_count_def)
qed

text \<open>The calls due in a tick, in order; an exception ends the run.\<close>

function drain_due :: "sim \<Rightarrow> sim" where
  "drain_due s = (if due s \<and> raised s = None then drain_due (pop s) else s)"
  by auto

termination by (relation "measure due_count") (simp_all add: due_count_pop)

declare drain_due.simps [simp del]

section \<open>What the module's handlers leave to the host\<close>

lemma fold_same: "(\<And>x s. g (f x s) = g s) \<Longrightarrow> g (fold f xs s) = g s"
  by (induction xs arbitrary: s) simp_all

text \<open>What the host has published and ended, and the checks other than the module's four, stay as they are.\<close>

abbreviation checks_fired :: "sim \<Rightarrow> check_id set" where
  "checks_fired s \<equiv> fst ` set (fired s)"

definition leaves :: "sim \<Rightarrow> sim \<Rightarrow> bool" where
  "leaves s0 s \<longleftrightarrow> planted_fault s = planted_fault s0 \<and> nxt (host s) = nxt (host s0) \<and> hhead (host s) = hhead (host s0)
     \<and> h_ended (host s) = h_ended (host s0) \<and> slot_of (host s) = slot_of (host s0)
     \<and> checks_fired s \<subseteq> checks_fired s0 \<union> {C5, C6, C9, C11}"

lemma fired_fail [simp]: "checks_fired (fail c s) = insert c (checks_fired s)"
  by (auto simp: fail_def)

interpretation left: module_kept "leaves s0" for s0
  by unfold_locales (auto simp: leaves_def drawn_def)

lemma leaves_refl: "leaves s s"
  by (auto simp: leaves_def)

lemma leaves_pop: "leaves s0 s \<Longrightarrow> leaves s0 (pop s)"
proof (cases "q s")
  case (Cons e es)
  assume "leaves s0 s"
  then have "leaves s0 (s\<lparr>q := es\<rparr>)" by (simp add: leaves_def)
  then show ?thesis using left.kept_dispatch by (simp add: pop_def Cons)
qed (simp add: pop_def)

lemma leaves_drain_due: "leaves s0 s \<Longrightarrow> leaves s0 (drain_due s)"
proof (induction s rule: drain_due.induct)
  case (1 s)
  then show ?case using leaves_pop by (subst drain_due.simps) auto
qed

lemma drain_due_now: "now (drain_due s) = now s"
proof (induction s rule: drain_due.induct)
  case (1 s)
  have "now (pop s) = now s" using later_dispatch by (simp add: pop_def later_def split: list.split)
  then show ?case using 1 by (subst drain_due.simps) auto
qed

lemma drain_due_indices:
  "nxt (host (drain_due s)) = nxt (host s) \<and> hhead (host (drain_due s)) = hhead (host s) \<and> now (drain_due s) = now s"
  using leaves_drain_due[OF leaves_refl, of s] drain_due_now by (simp add: leaves_def)

section \<open>The script reaches its next yield\<close>

text \<open>The host's operations other than \<open>publish\<close> move neither the clock, the boxes nor its tail.\<close>

definition steady :: "sim \<Rightarrow> sim \<Rightarrow> bool" where
  "steady s0 s \<longleftrightarrow> now s = now s0 \<and> boxes s = boxes s0 \<and> nxt (host s) = nxt (host s0)"

named_theorems steady_intros

lemma steady_basic [steady_intros]:
  "steady s s" "steady s0 s \<Longrightarrow> steady s0 (fail c s)" "steady s0 s \<Longrightarrow> steady s0 (raise_err e s)"
  "steady s0 s \<Longrightarrow> steady s0 (sched dt p e' s)" "steady s0 s \<Longrightarrow> steady s0 (upd_m f s)"
  "steady s0 s \<Longrightarrow> (\<And>h. nxt (g h) = nxt h) \<Longrightarrow> steady s0 (upd_h g s)"
  by (simp_all add: steady_def)

lemma steady_store [steady_intros]: "steady s0 s \<Longrightarrow> steady s0 (store a d s)"
  by (simp add: store_def steady_def raise_err_def)

lemma steady_fold [steady_intros]:
  assumes "steady s0 s" "\<And>x s. steady s0 s \<Longrightarrow> steady s0 (f x s)"
  shows "steady s0 (fold f xs s)"
  using assms(1) by (induction xs arbitrary: s) (auto intro: assms(2))

lemma steady_host_write [steady_intros]: "steady s0 s \<Longrightarrow> steady s0 (host_write off val s)"
  by (auto simp: host_write_def mmio_write_def intro!: steady_intros)

lemma steady_set_seed [steady_intros]: "steady s0 s \<Longrightarrow> steady s0 (set_seed sd s)"
  by (auto simp: set_seed_def intro!: steady_intros)

lemma steady_setup_ring [steady_intros]: "steady s0 s \<Longrightarrow> steady s0 (setup_ring s)"
  by (auto simp: setup_ring_def intro!: steady_intros)

lemma steady_restart_queue [steady_intros]: "steady s0 s \<Longrightarrow> steady s0 (restart_queue s)"
  by (auto simp: restart_queue_def Let_def intro!: steady_intros)

lemma steady_check_done [steady_intros]: "steady s0 s \<Longrightarrow> steady s0 (check_done c ix s)"
  by (auto simp: check_done_def Let_def split: sum.split intro!: steady_intros)

lemma steady_check_not_run [steady_intros]: "steady s0 s \<Longrightarrow> steady s0 (check_not_run c ix s)"
  by (auto simp: check_not_run_def Let_def intro!: steady_intros)

lemma steady_checks [steady_intros]:
  "steady s0 s \<Longrightarrow> steady s0 (check_fields c r s)" "steady s0 s \<Longrightarrow> steady s0 (check_status c st s)"
  "steady s0 s \<Longrightarrow> steady s0 (check_outcome c st ix s)"
  by (auto simp: check_fields_def check_status_def check_outcome_def intro!: steady_intros)

lemma steady_complete [steady_intros]: "steady s0 s \<Longrightarrow> steady s0 (complete i r s)"
  by (cases "cmds (host s) i") (auto simp: complete_def Let_def intro!: steady_intros)

lemma steady_end_one_lost [steady_intros]: "steady s0 s \<Longrightarrow> steady s0 (end_one_lost i s)"
  by (auto simp: end_one_lost_def intro!: steady_intros)

lemma steady_end_lost [steady_intros]: "steady s0 s \<Longrightarrow> steady s0 (end_lost s)"
  by (auto simp: end_lost_def mark_lost_def Let_def intro!: steady_intros)

lemma steady_take_buf [steady_intros]: "steady s0 s \<Longrightarrow> steady s0 (snd (take_buf n f d s))"
  by (auto simp: take_buf_def Let_def intro!: steady_intros)

text \<open>The host's head after its operations.\<close>

lemma hhead_host_write [simp]: "hhead (host (host_write off val s)) = hhead (host s)"
  by (simp add: host_write_def mmio_write_def)

lemma hhead_set_seed [simp]: "hhead (host (set_seed sd s)) = hhead (host s)"
  by (simp add: set_seed_def)

lemma hhead_setup_ring [simp]: "hhead (host (setup_ring s)) = hhead (host s)"
  by (simp add: setup_ring_def)

lemma hhead_restart_queue [simp]: "hhead (host (restart_queue s)) = hhead (host s)"
  by (simp add: restart_queue_def Let_def)

lemma host_store [simp]: "host (store a d s) = host s"
  by (simp add: store_def)

lemma complete_hhead: "raised s = None \<Longrightarrow> raised (complete i r s) = None \<Longrightarrow> hhead (host (complete i r s)) = i + 1"
  by (cases "cmds (host s) i") (auto simp: complete_def Let_def)

lemma try_end_effect:
  assumes "try_end s = (True, s')" "hhead (host s) \<le> nxt (host s)" "raised s' = None" "raised s = None"
  shows "steady s s'" "hhead (host s') = hhead (host s) + 1" "hhead (host s') \<le> nxt (host s')"
proof -
  have c: "s' = complete (hhead (host s)) (line s (addr (hhead (host s)))) s" and lt: "hhead (host s) < nxt (host s)"
    using assms(1,2) by (auto simp: try_end_def Let_def split: if_splits)
  show st: "steady s s'" unfolding c by (intro steady_intros)
  show h: "hhead (host s') = hhead (host s) + 1" using complete_hhead[OF assms(4)] assms(3) c by simp
  show "hhead (host s') \<le> nxt (host s')" using st h lt by (simp add: steady_def)
qed

lemma try_end_False: "try_end s = (False, s') \<Longrightarrow> s' = s"
  by (auto simp: try_end_def Let_def split: if_splits)

lemma raised_end_one_lost: "raised s \<noteq> None \<Longrightarrow> fold end_one_lost xs s = s"
  by (induction xs) (simp_all add: end_one_lost_def)

lemma fold_end_one_lost_hhead:
  assumes "raised s = None" "raised (fold end_one_lost [a..<b] s) = None" "a < b"
  shows "hhead (host (fold end_one_lost [a..<b] s)) = b"
proof -
  define s1 where "s1 = fold end_one_lost [a..<b - 1] s"
  have e: "fold end_one_lost [a..<b] s = end_one_lost (b - 1) s1"
    using assms(3) upt_Suc_append[of a "b - 1"] by (simp add: s1_def)
  then have "raised s1 = None" using assms(2) by (auto simp: end_one_lost_def split: if_splits)
  then show ?thesis using assms(2,3) e complete_hhead by (auto simp: end_one_lost_def)
qed

lemma mark_lost_raised [simp]: "raised (fold mark_lost xs s) = None \<Longrightarrow> raised s = None"
proof (induction xs arbitrary: s)
  case (Cons x xs)
  then have "raised (mark_lost x s) = None" by simp
  then show ?case by (simp add: mark_lost_def store_def Let_def split: if_splits)
qed simp

lemma host_fold_mark_lost [simp]: "host (fold mark_lost xs s) = host s"
  by (rule fold_same) (simp add: mark_lost_def Let_def)

lemma end_lost_hhead:
  assumes "raised (end_lost s) = None" "hhead (host s) \<le> nxt (host s)"
  shows "hhead (host (end_lost s)) = nxt (host s)"
proof (cases "hhead (host s) < nxt (host s)")
  case True
  define s1 where "s1 = fold mark_lost [hhead (host s)..<nxt (host s) - of_bool (faulty s Lost_Left_Pending)] s"
  define s2 where "s2 = fold end_one_lost [hhead (host s)..<nxt (host s)] s1"
  have e: "end_lost s = upd_h (\<lambda>h. h\<lparr>slack := True\<rparr>) s2"
    by (simp only: end_lost_def Let_def s1_def s2_def)
  then have r: "raised s2 = None" using assms(1) by simp
  then have "raised s1 = None" using raised_end_one_lost unfolding s2_def by metis
  then have "hhead (host s2) = nxt (host s)" using fold_end_one_lost_hhead[OF _ r[unfolded s2_def] True] by (simp only: s2_def)
  then show ?thesis unfolding e by simp
next
  case False
  then show ?thesis using assms(2) by (simp only: end_lost_def Let_def) simp
qed

lemma raised_host_write [simp]: "raised (host_write off val s) = raised s"
  by (simp add: host_write_def mmio_write_def)

lemma raised_restart_queue [simp]: "raised (restart_queue s) = raised s"
  by (simp add: restart_queue_def Let_def)

lemma publish_slot_effect:
  "now (publish_slot c s) = now s" "boxes (publish_slot c s) = boxes s" "nxt (host (publish_slot c s)) = nxt (host s) + 1"
  "hhead (host (publish_slot c s)) = hhead (host s)"
proof -
  define s1 where "s1 = (case slot_of (host s) (take_bit RING_LOG2 (nxt (host s))) of
      Some p \<Rightarrow> if p \<notin> h_ended (host s) then fail C8 s else s | None \<Rightarrow> s)"
  have s1: "now s1 = now s" "boxes s1 = boxes s" "host s1 = host s"
    by (auto simp: s1_def split: option.split)
  show "now (publish_slot c s) = now s" "boxes (publish_slot c s) = boxes s"
    "nxt (host (publish_slot c s)) = nxt (host s) + 1" "hhead (host (publish_slot c s)) = hhead (host s)"
    unfolding publish_slot_def Let_def s1_def[symmetric] by (auto simp: store_def s1)
qed

lemma leaves_host [simp]:
  "leaves s0 s \<Longrightarrow> leaves s0 (upd_h (\<lambda>h. h\<lparr>owner := w h\<rparr>) s)" "leaves s0 s \<Longrightarrow> leaves s0 (upd_h (\<lambda>h. h\<lparr>alloc := a h\<rparr>) s)"
  by (simp_all add: leaves_def)

lemma leaves_take_buf: "leaves s0 s \<Longrightarrow> leaves s0 (snd (take_buf n f d s))"
  by (auto simp: take_buf_def store_def Let_def intro!: leaves_host left.kept_fold left.kept_if left.kept_mem left.kept_raise)

text \<open>\<open>publish\<close> up to the slot: the buffers and the descriptor, or an exception.\<close>

lemma publish_body_slot:
  obtains (slot) p s4 where "publish_body c s = publish_slot p s4" "steady s s4" "leaves s s4"
    | (raise) "leaves s (publish_body c s)" "raised (publish_body c s) \<noteq> None"
proof (cases "pack_array int8_ok int8_pack (cA c)")
  case (Inl e)
  then show thesis by (intro raise) (simp_all add: publish_body_def leaves_refl left.kept_raise)
next
  case a: (Inr a)
  show thesis
  proof (cases "pack_array int8_ok int8_pack (cW c)")
    case (Inl e)
    then show thesis by (intro raise) (simp_all add: publish_body_def a leaves_refl left.kept_raise)
  next
    case w: (Inr w)
    obtain act na s1 where s1: "take_buf (cM c * cK c) 0 a s = ((act, na), s1)" by (metis prod.exhaust)
    obtain wgt nw s2 where s2: "take_buf (cK c * cN c) 0 w s1 = ((wgt, nw), s2)" by (metis prod.exhaust)
    obtain out n s3 where s3: "take_buf (cM c * cN c * R_BYTES) SENTINEL [] s2 = ((out, n), s3)" by (metis prod.exhaust)
    define s4 where "s4 = upd_h (\<lambda>h. h\<lparr>owner := fold (\<lambda>i ow. ow(out + i * LINE \<mapsto> nxt (host s))) [0..<n] (owner h)\<rparr>) s3"
    have "steady s s1" "steady s s2" "steady s s3" using steady_take_buf steady_basic(1) s1 s2 s3 by (metis snd_conv)+
    then have st: "steady s s4" by (simp add: s4_def steady_def)
    have "leaves s s1" "leaves s s2" "leaves s s3" using leaves_take_buf leaves_refl s1 s2 s3 by (metis snd_conv)+
    then have lv: "leaves s s4" by (simp add: s4_def)
    show thesis
    proof (cases "DESC_pack (publish_values c act wgt out)")
      case (Inl e)
      have "publish_body c s = raise_err e s4" by (simp add: publish_body_def a w s1 s2 s3 Inl s4_def Let_def)
      then show thesis using raise lv left.kept_raise by simp
    next
      case (Inr desc)
      have "publish_body c s = publish_slot (cmd.extend c (posted.fields out n (h_seed (host s4)) desc)) s4"
        by (simp add: publish_body_def a w s1 s2 s3 Inr s4_def Let_def)
      then show thesis using slot st lv by blast
    qed
  qed
qed

lemma publish_body_effect:
  assumes "raised (publish_body c s) = None"
  shows "now (publish_body c s) = now s \<and> boxes (publish_body c s) = boxes s
    \<and> nxt (host (publish_body c s)) = nxt (host s) + 1 \<and> hhead (host (publish_body c s)) = hhead (host s)"
  by (rule publish_body_slot[of c s]) (use assms publish_slot_effect in \<open>auto simp: steady_def leaves_def\<close>)

text \<open>What is left to do before the next yield.\<close>

fun weight :: "sim \<Rightarrow> frame \<Rightarrow> nat" where
  "weight s (Fr_Publish c) = 3"
| "weight s (Fr_Drain_Loop quiet) = (if now s - quiet > T_WAIT then 20 else 1)"
| "weight s Fr_Drain = 2"
| "weight s Fr_Await_Irq = 4"
| "weight s (Fr_Await_Loop n quiet) = 3"
| "weight s Fr_Teardown = 3"
| "weight s (Fr_Poll_Status t0) = 2"
| "weight s (Fr_Got_Status t0 b) = (if boxes s b = [] then 1 else 7)"
| "weight s Fr_Read_Head = 2"
| "weight s _ = 1"

definition work :: "sim \<Rightarrow> frame list \<Rightarrow> nat" where
  "work s fs = sum_list (map (weight s) fs) + (nxt (host s) - hhead (host s))"

lemma new_box_effect:
  "now (snd (new_box off s)) = now s" "nxt (host (snd (new_box off s))) = nxt (host s)"
  "hhead (host (snd (new_box off s))) = hhead (host s)" "boxes (snd (new_box off s)) (fst (new_box off s)) = []"
  "boxes (snd (new_box off s)) b = boxes s b \<or> boxes (snd (new_box off s)) b = []"
  by (simp_all add: new_box_def mmio_read_def Let_def)

text \<open>A piece that does not yield moves neither the clock nor other boxes, and leaves less work.\<close>

definition advances :: "frame \<Rightarrow> sim \<Rightarrow> frame list \<Rightarrow> sim \<Rightarrow> bool" where
  "advances f s fs s' \<longleftrightarrow> raised s' \<noteq> None \<or>
     (now s' = now s \<and> (\<forall>b. boxes s' b = boxes s b \<or> boxes s' b = []) \<and> hhead (host s') \<le> nxt (host s')
      \<and> work s' fs < work s [f])"

lemma advances_steady:
  assumes "steady s s'" "hhead (host s') = hhead (host s)" "hhead (host s) \<le> nxt (host s)"
    "sum_list (map (weight s') fs) < weight s f"
  shows "advances f s fs s'"
  using assms by (auto simp: advances_def steady_def work_def)

lemma advances_try_end:
  assumes "try_end s = (True, s')" "hhead (host s) \<le> nxt (host s)" "raised s = None" "weight s' f' \<le> weight s f"
  shows "advances f s [f'] s'"
proof (cases "raised s' = None")
  case True
  note e = try_end_effect[OF assms(1,2) True assms(3)]
  then have "nxt (host s) - hhead (host s) = Suc (nxt (host s') - hhead (host s'))" by (auto simp: steady_def)
  then show ?thesis using e assms(4) by (auto simp: advances_def work_def steady_def)
qed (simp add: advances_def)

lemma frame_advances:
  assumes "frame_step f s = ((fs, None), s')" "hhead (host s) \<le> nxt (host s)" "raised s = None"
  shows "advances f s fs s'"
proof (cases f)
  case (Fr_Publish c)
  show ?thesis
  proof (cases "room s \<le> 0")
    case True
    then obtain ok where t: "try_end s = (ok, s')" "fs = [f]" "ok"
      using assms(1) Fr_Publish by (cases "try_end s") (auto split: if_splits)
    then show ?thesis using advances_try_end[of s s' f f] assms(2,3) Fr_Publish by simp
  next
    case False
    then have p: "s' = publish_body c s" "fs = []" using assms(1) Fr_Publish by auto
    show ?thesis
    proof (cases "raised s' = None")
      case True
      then show ?thesis using publish_body_effect[of c s] p assms(2,3) Fr_Publish by (simp add: advances_def work_def)
    qed (simp add: advances_def)
  qed
next
  case (Fr_Drain_Loop quiet)
  show ?thesis
  proof (cases "hhead (host s) < nxt (host s)")
    case True
    obtain ok s1 where t: "try_end s = (ok, s1)" by force
    show ?thesis
    proof (cases ok)
      case True
      then have "fs = [Fr_Drain_Loop (now s)]" "s' = s1" "try_end s = (True, s')"
        using assms(1) Fr_Drain_Loop t \<open>hhead (host s) < nxt (host s)\<close> by auto
      moreover have "weight s' (Fr_Drain_Loop (now s)) \<le> weight s f" if "raised s' = None"
        using try_end_effect(1)[OF \<open>try_end s = (True, s')\<close> assms(2) that assms(3)] Fr_Drain_Loop by (simp add: steady_def)
      ultimately show ?thesis using advances_try_end[of s s' "Fr_Drain_Loop (now s)" f] assms(2,3)
        by (cases "raised s' = None") (auto simp: advances_def)
    next
      case False
      then have e: "fs = [Fr_Teardown, Fr_Drain]" "s' = upd_h (\<lambda>h. h\<lparr>timeouts := timeouts h + 1\<rparr>) s" "now s - quiet > T_WAIT"
        using assms(1) Fr_Drain_Loop t \<open>hhead (host s) < nxt (host s)\<close> try_end_False[of s s1] by (auto split: if_splits)
      show ?thesis unfolding e(2) by (rule advances_steady) (use e assms(2) Fr_Drain_Loop in \<open>auto intro!: steady_intros\<close>)
    qed
  next
    case False
    then show ?thesis using assms Fr_Drain_Loop by (auto intro!: advances_steady steady_intros)
  qed
next
  case (Fr_Got_Head b)
  obtain v vs where b: "boxes s b = v # vs" using assms(1) Fr_Got_Head by (cases "boxes s b") auto
  show ?thesis
  proof (cases "hhead (host s) < v \<and> fst (try_end s)")
    case True
    then have "fs = [f]" "try_end s = (True, s')" using assms(1) Fr_Got_Head b by (auto simp: prod_eq_iff)
    then show ?thesis using advances_try_end[of s s' f f] assms(2,3) Fr_Got_Head by simp
  next
    case False
    then have e: "fs = []" "s' = restart_queue (end_lost s)" using assms(1) Fr_Got_Head b by auto
    have st: "steady s s'" unfolding e(2) by (intro steady_intros)
    show ?thesis
    proof (cases "raised s' = None")
      case True
      then have "raised (end_lost s) = None" using e(2) by simp
      then show ?thesis using end_lost_hhead[OF _ assms(2)] e st Fr_Got_Head by (auto simp: advances_def steady_def work_def)
    qed (simp add: advances_def)
  qed
next
  case (Fr_Poll_Status t0)
  then show ?thesis using assms new_box_effect[of PTQ_STATUS s] by (cases "new_box PTQ_STATUS s") (auto simp: advances_def work_def)
next
  case Fr_Read_Head
  then show ?thesis using assms new_box_effect[of PTQ_HEAD s] by (cases "new_box PTQ_HEAD s") (auto simp: advances_def work_def)
next
  case (Fr_Got_Status t0 b)
  then show ?thesis using assms by (cases "boxes s b") (auto simp: ring_def split: if_splits intro!: advances_steady steady_intros)
next
  case (Fr_Await_Loop n quiet)
  then show ?thesis using assms by (auto split: if_splits intro!: advances_steady steady_intros)
qed (use assms in \<open>auto simp: ring_def intro!: advances_steady steady_intros\<close>)

lemma frame_yields:
  assumes "frame_step f s = ((fs, Some dt), s')" "hhead (host s) \<le> nxt (host s)" "raised s = None"
  shows "raised s' \<noteq> None \<or> hhead (host s') \<le> nxt (host s') \<and> now s' = now s"
proof (cases f)
  case Fr_Reset_Resume
  let ?s1 = "set_seed (h_seed (host s)) (setup_ring s)"
  have e: "s' = restart_queue (upd_h (\<lambda>h. h\<lparr>restart := True\<rparr>) (end_lost ?s1))" using assms(1) Fr_Reset_Resume by simp
  have "steady s ?s1" by (intro steady_intros)
  moreover have "steady s s'" unfolding e by (intro steady_intros) simp
  moreover have "raised s' = raised (end_lost ?s1)" "hhead (host s') = hhead (host (end_lost ?s1))" unfolding e by simp_all
  ultimately show ?thesis using end_lost_hhead[of ?s1] assms(2) by (cases "raised s' = None") (auto simp: steady_def)
next
  case (Fr_Publish c)
  then show ?thesis using assms try_end_False[of s s'] by (cases "try_end s") (auto split: if_splits)
next
  case (Fr_Drain_Loop quiet)
  then show ?thesis using assms try_end_False[of s s'] by (cases "try_end s") (auto split: if_splits)
next
  case (Fr_Got_Head b)
  then show ?thesis using assms by (cases "boxes s b") (auto split: if_splits)
next
  case (Fr_Got_Status t0 b)
  then show ?thesis using assms by (cases "boxes s b") (auto split: if_splits)
next
  case (Fr_Poll_Status t0)
  then show ?thesis using assms by (cases "new_box PTQ_STATUS s") auto
next
  case Fr_Read_Head
  then show ?thesis using assms by (cases "new_box PTQ_HEAD s") auto
qed (use assms in \<open>auto split: if_splits\<close>)

lemma weight_mono:
  assumes "now s' = now s" "\<forall>b. boxes s' b = boxes s b \<or> boxes s' b = []"
  shows "sum_list (map (weight s') fs) \<le> sum_list (map (weight s) fs)"
proof (rule sum_list_mono)
  fix f
  show "weight s' f \<le> weight s f" using assms assms(2)[THEN spec] by (cases f) (auto, metis)
qed

lemma resume_total:
  assumes "hhead (host s) \<le> nxt (host s)"
  shows "\<exists>y s'. resume s = Some (y, s') \<and> (y \<noteq> None \<longrightarrow> raised s' = None)
    \<and> (raised s' \<noteq> None \<or> hhead (host s') \<le> nxt (host s') \<and> now s' = now s)"
  using assms
proof (induction "work s (frames (host s))" arbitrary: s rule: less_induct)
  case less
  show ?case
  proof (cases "frames (host s) = [] \<or> raised s \<noteq> None")
    case True
    then show ?thesis using less.prems by (subst resume.simps) auto
  next
    case False
    then obtain f fs where f: "frames (host s) = f # fs" and r: "raised s = None" by (cases "frames (host s)") auto
    obtain new y s1 where st: "frame_step f s = ((new, y), s1)" by (metis prod.exhaust)
    let ?s2 = "upd_h (\<lambda>h. h\<lparr>frames := new @ fs\<rparr>) s1"
    have step: "resume_step s = (y, ?s2)" by (simp add: resume_step_def f st)
    show ?thesis
    proof (cases y)
      case (Some dt)
      then show ?thesis using frame_yields[of f s new dt s1] st less.prems r step False
        by (subst resume.simps) auto
    next
      case None
      have adv: "advances f s new s1" using frame_advances[of f s new s1] st None less.prems r by simp
      show ?thesis
      proof (cases "raised s1 = None")
        case True
        have a: "now s1 = now s" "\<forall>b. boxes s1 b = boxes s b \<or> boxes s1 b = []" "hhead (host s1) \<le> nxt (host s1)" "work s1 new < work s [f]"
          using adv True by (auto simp: advances_def)
        have "sum_list (map (weight s1) fs) \<le> sum_list (map (weight s) fs)" by (rule weight_mono[OF a(1,2)])
        moreover have "weight ?s2 = weight s1" by (rule ext) (rename_tac x, case_tac x; simp)
        ultimately have "work ?s2 (frames (host ?s2)) < work s (frames (host s))"
          using a(4) by (simp add: work_def f)
        from less.hyps[OF this] have "\<exists>y s'. resume ?s2 = Some (y, s') \<and> (y \<noteq> None \<longrightarrow> raised s' = None) \<and> (raised s' \<noteq> None \<or> hhead (host s') \<le> nxt (host s') \<and> now s' = now ?s2)"
          using a(3) by simp
        then show ?thesis using False step None a(1) by (subst resume.simps) simp
      next
        case False
        then have "resume ?s2 = Some (None, ?s2)" by (subst resume.simps) simp
        then show ?thesis using step None False f r by (subst resume.simps) simp
      qed
    qed
  qed
qed

section \<open>The run\<close>

text \<open>\<open>run(limit)\<close>: the calls due, the tick's check, the script when its wait is over, the limit.\<close>

partial_function (option) run_loop :: "nat \<Rightarrow> nat \<Rightarrow> sim \<Rightarrow> sim option" where
  "run_loop limit wake s =
     (let s1 = drain_due s in
      if raised s1 \<noteq> None then Some s1
      else let s2 = watch s1 in
        case (if wake \<le> now s2 then resume s2 else Some (Some (wake - now s2), s2)) of
          None \<Rightarrow> None
        | Some (None, s3) \<Rightarrow> Some (if raised s3 \<noteq> None then s3 else finish s3)
        | Some (Some dt, s3) \<Rightarrow>
            if limit < now s3 then Some (finish (fail C12 s3))
            else run_loop limit (now s3 + dt) (s3\<lparr>now := now s3 + 1\<rparr>))"

definition run :: "fault option \<Rightarrow> (nat \<Rightarrow> nat) \<Rightarrow> (nat \<Rightarrow> nat) \<Rightarrow> sim option" where
  "run f link_raw cmd_raw = run_loop 60000 0 (sim_init f link_raw cmd_raw)"

lemma fold_fail_same:
  "host (fold (\<lambda>idx s. if P idx s then fail c s else s) xs s) = host s"
  "now (fold (\<lambda>idx s. if P idx s then fail c s else s) xs s) = now s"
  "raised (fold (\<lambda>idx s. if P idx s then fail c s else s) xs s) = raised s"
  by (rule fold_same, simp)+

lemma watch_same: "host (watch s) = host s" "now (watch s) = now s" "raised (watch s) = raised s"
  unfolding watch_def Let_def by (simp_all only: fold_fail_same split: if_split) simp_all

lemma run_loop_total:
  assumes "hhead (host s) \<le> nxt (host s)"
  shows "\<exists>s'. run_loop limit wake s = Some s'"
  using assms
proof (induction "Suc limit - now s" arbitrary: s wake rule: less_induct)
  case less
  define s2 where "s2 = watch (drain_due s)"
  have s2: "hhead (host s2) \<le> nxt (host s2)" "now s2 = now s"
    using drain_due_indices[of s] less.prems by (simp_all add: s2_def watch_same)
  obtain y s3 where y: "(if wake \<le> now s2 then resume s2 else Some (Some (wake - now s2), s2)) = Some (y, s3)"
    and s3: "y \<noteq> None \<Longrightarrow> hhead (host s3) \<le> nxt (host s3) \<and> now s3 = now s2"
  proof (cases "wake \<le> now s2")
    case True
    then show ?thesis using that resume_total[OF s2(1)] by fastforce
  qed (use that s2 in auto)
  show ?case
  proof (cases "raised (drain_due s) = None")
    case r: True
    show ?thesis
    proof (cases y)
      case None
      then show ?thesis using r y by (subst run_loop.simps) (simp add: Let_def s2_def[symmetric])
    next
      case (Some dt)
      have "\<exists>s'. run_loop limit (now s3 + dt) (s3\<lparr>now := now s3 + 1\<rparr>) = Some s'" if "\<not> limit < now s3"
        by (rule less.hyps) (use that s3 s2 Some in auto)
      then show ?thesis using r y Some
        by (subst run_loop.simps) (auto simp: Let_def s2_def[symmetric])
    qed
  next
    case False
    then show ?thesis by (subst run_loop.simps) (simp add: Let_def)
  qed
qed

text \<open>[C5] The simulation ends: with any planted fault or none, any delays on the link and any drawn
  commands, the run returns.\<close>

theorem run_returns: "\<exists>s. run f link_raw cmd_raw = Some s"
  unfolding run_def by (rule run_loop_total) (simp add: sim_init_def new_sim_def host_init_def)

end
