(* ===== verification/Transport_Module.thy ===== *)
theory Transport_Module
  imports Transport_Run
begin

text \<open>
  The module's side of the protocol, with nothing planted.  \<open>mstep\<close> lets the environment do what a host
  can: access registers, write memory the module does not own, let time pass; and it lets the link
  deliver in any order the delays give.  Two things are asked of the host: it enables the queue only
  when the module has drained, and it does not reset the module.  The invariant follows the one
  command the module works on through its phases.
\<close>

section \<open>Steps\<close>

definition chunk :: "shots_rec \<Rightarrow> nat \<Rightarrow> bytes" where
  "chunk g i = take LINE (drop (i * LINE) (st_raw g))"

text \<open>The memory the module owns: the slot it works on, and the results of its GEMM.\<close>

definition owned :: "sim \<Rightarrow> nat \<Rightarrow> bool" where
  "owned s a \<longleftrightarrow> (busy (modul s) \<and> a = slot (modul s) (head (modul s)))
     \<or> (\<exists>sid g i. gemms s sid = Some g \<and> st_job g = job_no (modul s) \<and> i < st_n g \<and> a = st_out g + i * LINE)"

text \<open>The registers' widths: a doorbell is 32 bits, a ring has at most \<open>2 ^ 30\<close> slots.\<close>

fun reg_ok :: "event \<Rightarrow> bool" where
  "reg_ok (Ev_Write off val) = ((off = PTQ_TAIL \<longrightarrow> val < 2 ^ 32) \<and> (off = PTQ_SIZE \<longrightarrow> val \<le> 30))"
| "reg_ok (Ev_Read off b) = True"
| "reg_ok _ = False"

text \<open>The call about to be made does not enable a queue that is still draining.\<close>

definition polite :: "sim \<Rightarrow> bool" where
  "polite s \<longleftrightarrow> (case q s of [] \<Rightarrow> True
     | (_, Ev_Write off val) # _ \<Rightarrow> off = PTQ_CTRL \<and> bit val 0 \<longrightarrow> \<not> draining (modul s)
     | _ \<Rightarrow> True)"

inductive mstep :: "sim \<Rightarrow> sim \<Rightarrow> bool" where
  deliver: "due s \<Longrightarrow> polite s \<Longrightarrow> raised s = None \<Longrightarrow> mstep s (pop s)"
| tick: "\<not> due s \<Longrightarrow> mstep s (s\<lparr>now := now s + 1\<rparr>)"
| access: "reg_ok e \<Longrightarrow> mstep s (sched dt prio e s)"
| host_store: "\<not> owned s a \<Longrightarrow> mstep s (s\<lparr>mem := (mem s)(a \<mapsto> d)\<rparr>)"
| host_vars: "mstep s (s\<lparr>host := h, boxes := b, fired := f\<rparr>)"
| wedge: "mstep s (upd_m (\<lambda>m. m\<lparr>wedge_at := w\<rparr>) s)"

definition powered_on :: "(nat \<Rightarrow> nat) \<Rightarrow> sim" where
  "powered_on link_raw = new_sim None link_raw host_init"

inductive reached :: "sim \<Rightarrow> bool" where
  power: "reached (powered_on link_raw)"
| step: "reached s \<Longrightarrow> mstep s s' \<Longrightarrow> reached s'"

section \<open>The invariant\<close>

datatype phase = Quiet | Drain | Reading nat | Shooting nat | Ending nat

definition nev :: "(event \<Rightarrow> bool) \<Rightarrow> queued list \<Rightarrow> nat" where
  "nev P es = length (filter (\<lambda>x. P (snd x)) es)"

fun is_go :: "event \<Rightarrow> bool" where
  "is_go (Ev_Go _ _) = True"
| "is_go _ = False"

fun reads_for :: "nat \<Rightarrow> event \<Rightarrow> bool" where
  "reads_for rid (Ev_At_Host r _) = (r = rid)"
| "reads_for rid (Ev_Back r _ _) = (r = rid)"
| "reads_for rid _ = False"

fun orders_for :: "nat \<Rightarrow> event \<Rightarrow> bool" where
  "orders_for sid (Ev_Go _ (Ordered i)) = (i = sid)"
| "orders_for sid _ = False"

fun ev_ok :: "nat \<Rightarrow> nat \<Rightarrow> event \<Rightarrow> bool" where
  "ev_ok n g (Ev_Go g' t) = (g' = g \<and> (case t of Ordered sid \<Rightarrow> sid < n | Ended _ _ _ \<Rightarrow> True | _ \<Rightarrow> False))"
| "ev_ok n g (Ev_At_Host r _) = (r < n)"
| "ev_ok n g (Ev_Back r _ _) = (r < n)"
| "ev_ok n g (Ev_Write off val) = reg_ok (Ev_Write off val)"
| "ev_ok n g Ev_Reset = False"
| "ev_ok n g _ = True"

definition paired :: "queued list \<Rightarrow> bool" where
  "paired es \<longleftrightarrow> (\<forall>k a d. (k, Ev_Land a d) \<in> set es \<longrightarrow> (\<exists>k' g t. (k', Ev_Go g t) \<in> set es \<and> k < k'))"

definition regs_ok :: "module_state \<Rightarrow> bool" where
  "regs_ok m \<longleftrightarrow> tail m < 2 ^ 32 \<and> head m < 2 ^ 32 \<and> size_log2 m \<le> 30 \<and> (busy m \<longrightarrow> enable m \<and> head m \<noteq> tail m)
     \<and> (enable m \<longrightarrow> sub32 (tail m) (head m) \<le> 2 ^ size_log2 m)"

definition core :: "sim \<Rightarrow> bool" where
  "core s \<longleftrightarrow> planted_fault s = None \<and> raised s = None \<and> sorted (map fst (q s))
     \<and> inflight (modul s) = nev is_go (q s) \<and> paired (q s)
     \<and> (\<forall>x \<in> set (q s). ev_ok (fresh s) (gen (modul s)) (snd x))
     \<and> (\<forall>i. reads s i \<noteq> None \<or> gemms s i \<noteq> None \<longrightarrow> i < fresh s) \<and> regs_ok (modul s)"

fun then_idx :: "read_then \<Rightarrow> nat" where
  "then_idx (Got_Descriptor i) = i"
| "then_idx (Shots i _ _ _ _ _ _ _ _ _) = i"

fun then_ok :: "read_then \<Rightarrow> bool" where
  "then_ok (Got_Descriptor i) = True"
| "then_ok (Shots i d M K N out ix sd nw st) = (length d = LINE \<and> st = DONE \<and> 0 < M \<and> 0 < N)"

definition read_ok :: "phase \<Rightarrow> nat \<Rightarrow> queued list \<Rightarrow> nat \<Rightarrow> read_rec \<Rightarrow> bool" where
  "read_ok ph jb es rid r \<longleftrightarrow> rd_job r \<le> jb \<and> length (rd_got r) + nev (reads_for rid) es \<le> length (rd_addrs r)
     \<and> (rd_job r = jb \<and> length (rd_got r) < length (rd_addrs r) \<longrightarrow> ph = Reading rid)"

definition gemm_ok :: "phase \<Rightarrow> nat \<Rightarrow> queued list \<Rightarrow> nat \<Rightarrow> shots_rec \<Rightarrow> bool" where
  "gemm_ok ph jb es sid g \<longleftrightarrow> st_job g \<le> jb \<and> st_ordered g + nev (orders_for sid) es = st_sent g \<and> st_sent g \<le> st_need g
     \<and> st_need g = st_n g \<and> \<not> st_early g \<and> (st_job g = jb \<and> st_ordered g < st_need g \<longrightarrow> ph = Shooting sid)"

definition final :: "nat \<Rightarrow> bool" where
  "final st \<longleftrightarrow> st \<in> {DONE, REFUSED, NOT_ISSUED, NOT_RUN}"

definition reading :: "sim \<Rightarrow> nat \<Rightarrow> bool" where
  "reading s rid \<longleftrightarrow> (\<exists>r. reads s rid = Some r \<and> rd_job r = job_no (modul s) \<and> length (rd_got r) < length (rd_addrs r)
     \<and> then_idx (rd_then r) = head (modul s) \<and> then_ok (rd_then r))"

definition shooting :: "sim \<Rightarrow> nat \<Rightarrow> bool" where
  "shooting s sid \<longleftrightarrow> (\<exists>g. gemms s sid = Some g \<and> st_job g = job_no (modul s) \<and> st_ordered g < st_need g
     \<and> st_idx g = head (modul s) \<and> st_status g = DONE \<and> length (st_d g) = LINE
     \<and> (\<forall>k g' t. (k, Ev_Go g' t) \<in> set (q s) \<longrightarrow> t = Ordered sid)
     \<and> (\<forall>k a d. (k, Ev_Land a d) \<in> set (q s) \<longrightarrow> (\<exists>i < st_sent g. a = st_out g + i * LINE \<and> d = chunk g i))
     \<and> (\<forall>i < st_sent g. mem s (st_out g + i * LINE) = Some (chunk g i)
           \<or> (\<exists>k. (k, Ev_Land (st_out g + i * LINE) (chunk g i)) \<in> set (q s))))"

definition ending :: "sim \<Rightarrow> nat \<Rightarrow> bool" where
  "ending s st \<longleftrightarrow> final st \<and> nev is_go (q s) = 1
     \<and> (\<exists>k g. (k, Ev_Go g (Ended (head (modul s)) st (job_no (modul s)))) \<in> set (q s))
     \<and> (\<exists>rec. word_at 0x30 rec = st
          \<and> (\<forall>k a d. (k, Ev_Land a d) \<in> set (q s) \<longrightarrow> a = slot (modul s) (head (modul s)) \<and> d = rec)
          \<and> (mem s (slot (modul s) (head (modul s))) = Some rec
             \<or> (\<exists>k. (k, Ev_Land (slot (modul s) (head (modul s))) rec) \<in> set (q s))))"

definition dead_go :: "sim \<Rightarrow> write_then \<Rightarrow> bool" where
  "dead_go s t = (case t of
     Ordered sid \<Rightarrow> (\<forall>g. gemms s sid = Some g \<longrightarrow> st_job g \<noteq> job_no (modul s))
   | Ended _ _ jb \<Rightarrow> jb \<noteq> job_no (modul s)
   | _ \<Rightarrow> False)"

definition running :: "module_state \<Rightarrow> bool" where
  "running m \<longleftrightarrow> enable m \<and> enabled m \<and> \<not> draining m \<and> busy m"

fun phase_ok :: "sim \<Rightarrow> phase \<Rightarrow> bool" where
  "phase_ok s Quiet = (nev is_go (q s) = 0 \<and> enabled (modul s) = enable (modul s) \<and> \<not> draining (modul s))"
| "phase_ok s Drain = (\<not> enable (modul s) \<and> enabled (modul s) \<and> draining (modul s) \<and> (\<forall>k g t. (k, Ev_Go g t) \<in> set (q s) \<longrightarrow> dead_go s t))"
| "phase_ok s (Reading rid) = (running (modul s) \<and> nev is_go (q s) = 0 \<and> reading s rid)"
| "phase_ok s (Shooting sid) = (running (modul s) \<and> shooting s sid)"
| "phase_ok s (Ending st) = (running (modul s) \<and> ending s st)"

definition minv :: "phase \<Rightarrow> sim \<Rightarrow> bool" where
  "minv ph s \<longleftrightarrow> core s \<and> phase_ok s ph
     \<and> (\<forall>rid r. reads s rid = Some r \<longrightarrow> read_ok ph (job_no (modul s)) (q s) rid r)
     \<and> (\<forall>sid g. gemms s sid = Some g \<longrightarrow> gemm_ok ph (job_no (modul s)) (q s) sid g)"

section \<open>The queue of calls\<close>

lemma nev_Nil [simp]: "nev P [] = 0"
  by (simp add: nev_def)

lemma nev_Cons [simp]: "nev P (x # es) = nev P es + of_bool (P (snd x))"
  by (simp add: nev_def)

lemma nev_insort [simp]: "nev P (insort_key fst x es) = nev P es + of_bool (P (snd x))"
  by (induction es) simp_all

lemma nev_0: "nev P es = 0 \<longleftrightarrow> (\<forall>x \<in> set es. \<not> P (snd x))"
  by (auto simp: nev_def filter_empty_conv)

lemma nev_one:
  assumes "nev P es = 1" "x \<in> set es" "y \<in> set es" "P (snd x)" "P (snd y)"
  shows "x = y"
proof -
  obtain z where "filter (\<lambda>x. P (snd x)) es = [z]" using assms(1) by (auto simp: nev_def length_Suc_conv)
  moreover have "x \<in> set (filter (\<lambda>x. P (snd x)) es)" "y \<in> set (filter (\<lambda>x. P (snd x)) es)" using assms(2-) by simp_all
  ultimately show ?thesis by simp
qed

lemma nev_mono: "(\<And>e. P e \<Longrightarrow> Q e) \<Longrightarrow> nev P es \<le> nev Q es"
  by (induction es) (auto simp: of_bool_def)

lemma paired_no_go: "paired es \<Longrightarrow> nev is_go es = 0 \<Longrightarrow> (k, Ev_Land a d) \<notin> set es"
  unfolding paired_def nev_0 by (metis is_go.simps(1) snd_conv)

lemma paired_insort: "paired es \<Longrightarrow> (\<And>a d. snd x \<noteq> Ev_Land a d) \<Longrightarrow> paired (insort_key fst x es)"
  unfolding paired_def set_insort_key by (metis insert_iff snd_conv)

text \<open>The first call of the queue is the earliest: what it is waited on by is later.\<close>

lemma paired_tl:
  assumes "paired (x # es)" "sorted (map fst (x # es))"
  shows "paired es"
  unfolding paired_def
proof (intro allI impI)
  fix k a d assume l: "(k, Ev_Land a d) \<in> set es"
  then obtain k' g t where g: "(k', Ev_Go g t) \<in> set (x # es)" "k < k'" using assms(1) unfolding paired_def by (metis list.set_intros(2))
  have "fst x \<le> k" using assms(2) l by force
  then have "(k', Ev_Go g t) \<noteq> x" using g(2) by auto
  then show "\<exists>k' g t. (k', Ev_Go g t) \<in> set es \<and> k < k'" using g by (metis set_ConsD)
qed

lemma paired_write:
  assumes "paired es"
  shows "paired (insort_key fst ((t + L, 1, n), Ev_Go g th) (insort_key fst ((t, 0, m), Ev_Land a d) es))"
proof -
  have lt: "(t, 0, m) < (t + L, 1 :: nat, n)" by (simp add: less_prod_def)
  show ?thesis unfolding paired_def set_insort_key
  proof (intro allI impI)
    fix k a' d' assume "(k, Ev_Land a' d') \<in> insert ((t + L, 1, n), Ev_Go g th) (insert ((t, 0, m), Ev_Land a d) (set es))"
    then consider "k = (t, 0, m)" | "(k, Ev_Land a' d') \<in> set es" by auto
    then show "\<exists>k' g' t'. (k', Ev_Go g' t') \<in> insert ((t + L, 1, n), Ev_Go g th) (insert ((t, 0, m), Ev_Land a d) (set es)) \<and> k < k'"
    proof cases
      case 1
      then show ?thesis using lt by blast
    next
      case 2
      then show ?thesis using assms unfolding paired_def by (meson insertI2)
    qed
  qed
qed

lemma sub32_self [simp]: "sub32 a a = 0"
  by (simp add: sub32_def)

lemma sub32_eq_0:
  assumes "a < 2 ^ 32" "b < 2 ^ 32"
  shows "sub32 a b = 0 \<longleftrightarrow> a = b"
proof -
  have "(int a - int b) mod 2 ^ 32 = (if b \<le> a then int a - int b else int a - int b + 2 ^ 32)"
  proof (cases "b \<le> a")
    case False
    have "(int a - int b) mod 2 ^ 32 = (int a - int b + 2 ^ 32) mod 2 ^ 32" by simp
    also have "\<dots> = int a - int b + 2 ^ 32" using assms False by (intro mod_pos_pos_trivial) simp_all
    finally show ?thesis using False by simp
  qed (use assms in \<open>simp add: mod_pos_pos_trivial\<close>)
  then show ?thesis using assms by (auto simp: sub32_def)
qed

lemma sub32_neg:
  assumes "a < 2 ^ 32" "b < 2 ^ 32" "a \<noteq> b"
  shows "sub32 b a = 2 ^ 32 - sub32 a b"
proof -
  have "(int b - int a) mod 2 ^ 32 = 2 ^ 32 - (int a - int b) mod 2 ^ 32"
    using zmod_zminus1_eq_if[of "int a - int b" "2 ^ 32"] sub32_eq_0[OF assms(1,2)] assms(3) by (auto simp: sub32_def)
  then show ?thesis by (simp add: sub32_def nat_diff_distrib)
qed

text \<open>Moving the head on by one takes one slot off the distance to the tail.\<close>

lemma sub32_step:
  assumes "tt < 2 ^ 32" "h < 2 ^ 32" "h \<noteq> tt"
  shows "sub32 tt (take_bit 32 (h + 1)) = sub32 tt h - 1"
proof -
  let ?d = "int tt - int h"
  have e: "(?d - 1) mod 2 ^ 32 = (int tt - int (take_bit 32 (h + 1))) mod 2 ^ 32"
  proof -
    have "int (take_bit 32 (h + 1)) mod 2 ^ 32 = (int h + 1) mod 2 ^ 32" by (simp add: take_bit_eq_mod zmod_int add.commute)
    then show ?thesis by (metis add_diff_eq diff_diff_add mod_diff_right_eq)
  qed
  have p: "(0 :: int) < 2 ^ 32" by simp
  have "?d mod 2 ^ 32 \<noteq> 0" using sub32_eq_0[OF assms(1,2)] assms(3) by (auto simp: sub32_def)
  then have "0 \<le> ?d mod 2 ^ 32 - 1" "?d mod 2 ^ 32 - 1 < 2 ^ 32" using pos_mod_sign[OF p, of ?d] pos_mod_bound[OF p, of ?d] by linarith+
  then have "(?d mod 2 ^ 32 - 1) mod 2 ^ 32 = ?d mod 2 ^ 32 - 1" by (rule mod_pos_pos_trivial)
  then have "(?d - 1) mod 2 ^ 32 = ?d mod 2 ^ 32 - 1" by (simp only: mod_diff_left_eq)
  then show ?thesis using e by (simp add: sub32_def nat_diff_distrib)
qed

section \<open>Changes the invariant does not see\<close>

lemma invD:
  assumes "minv ph s"
  shows "core s" "phase_ok s ph" "reads s rid = Some r \<Longrightarrow> read_ok ph (job_no (modul s)) (q s) rid r"
    "gemms s sid = Some g \<Longrightarrow> gemm_ok ph (job_no (modul s)) (q s) sid g"
  using assms by (auto simp: minv_def)

lemma coreD:
  assumes "core s"
  shows "planted_fault s = None" "raised s = None" "sorted (map fst (q s))" "inflight (modul s) = nev is_go (q s)" "paired (q s)"
    "x \<in> set (q s) \<Longrightarrow> ev_ok (fresh s) (gen (modul s)) (snd x)" "reads s i \<noteq> None \<or> gemms s i \<noteq> None \<Longrightarrow> i < fresh s" "regs_ok (modul s)"
  using assms by (auto simp: core_def)

text \<open>The calls in the queue that matter are the landings and the acknowledgements.\<close>

definition same_writes :: "queued list \<Rightarrow> queued list \<Rightarrow> bool" where
  "same_writes es es' \<longleftrightarrow> (\<forall>k g t. (k, Ev_Go g t) \<in> set es' \<longleftrightarrow> (k, Ev_Go g t) \<in> set es)
     \<and> (\<forall>k a d. (k, Ev_Land a d) \<in> set es' \<longleftrightarrow> (k, Ev_Land a d) \<in> set es)
     \<and> nev is_go es' = nev is_go es \<and> (\<forall>sid. nev (orders_for sid) es' = nev (orders_for sid) es)"

lemma dead_go_cong: "gemms s' = gemms s \<Longrightarrow> job_no (modul s') = job_no (modul s) \<Longrightarrow> dead_go s' = dead_go s"
  by (auto simp: dead_go_def fun_eq_iff split: write_then.split)

lemma same_writes_phase:
  assumes "phase_ok s ph" "same_writes (q s) (q s')" "modul s' = modul s" "mem s' = mem s" "reads s' = reads s" "gemms s' = gemms s"
  shows "phase_ok s' ph"
proof -
  have eq: "\<And>k g t. (k, Ev_Go g t) \<in> set (q s') \<longleftrightarrow> (k, Ev_Go g t) \<in> set (q s)"
    "\<And>k a d. (k, Ev_Land a d) \<in> set (q s') \<longleftrightarrow> (k, Ev_Land a d) \<in> set (q s)" "nev is_go (q s') = nev is_go (q s)"
    using assms(2) unfolding same_writes_def by blast+
  show ?thesis using assms(1)
    by (cases ph) (simp_all add: eq assms(3-6) reading_def shooting_def ending_def dead_go_cong[of s' s])
qed

lemma minv_queue:
  assumes "minv ph s" "same_writes (q s) (q s')" "modul s' = modul s" "mem s' = mem s" "reads s' = reads s" "gemms s' = gemms s"
    "planted_fault s' = planted_fault s" "raised s' = raised s" "fresh s' = fresh s" "sorted (map fst (q s'))"
    "\<And>rid. nev (reads_for rid) (q s') \<le> nev (reads_for rid) (q s)"
    "\<And>x. x \<in> set (q s') \<Longrightarrow> ev_ok (fresh s) (gen (modul s)) (snd x)"
  shows "minv ph s'"
proof -
  have "paired (q s')"
    using coreD(5)[OF invD(1)[OF assms(1)]] assms(2) unfolding paired_def same_writes_def by metis
  moreover have "nev is_go (q s') = nev is_go (q s)" using assms(2) by (simp add: same_writes_def)
  ultimately have "core s'" using coreD[OF invD(1)[OF assms(1)]] assms(3-10,12) by (simp add: core_def)
  moreover have "phase_ok s' ph" by (rule same_writes_phase[OF invD(2)[OF assms(1)] assms(2-6)])
  moreover have "read_ok ph (job_no (modul s)) (q s') rid r" if "reads s rid = Some r" for rid r
    using invD(3)[OF assms(1) that] assms(11)[of rid] by (auto simp: read_ok_def)
  moreover have "gemm_ok ph (job_no (modul s)) (q s') sid g" if "gemms s sid = Some g" for sid g
    using invD(4)[OF assms(1) that] assms(2) by (auto simp: gemm_ok_def same_writes_def)
  ultimately show ?thesis using assms(3,5,6) by (simp add: minv_def)
qed

fun innocent :: "event \<Rightarrow> bool" where
  "innocent (Ev_Go _ _) = False"
| "innocent (Ev_Land _ _) = False"
| "innocent (Ev_At_Host _ _) = False"
| "innocent (Ev_Back _ _ _) = False"
| "innocent _ = True"

lemma innocent_not: "innocent e \<Longrightarrow> \<not> is_go e \<and> \<not> reads_for rid e \<and> \<not> orders_for sid e \<and> e \<noteq> Ev_Land a d \<and> e \<noteq> Ev_Go g t"
  by (cases e) auto

lemma not_go_orders: "\<not> is_go e \<Longrightarrow> \<not> orders_for sid e"
  by (cases e) auto

lemma minv_sched:
  assumes "minv ph s" "innocent e" "ev_ok (fresh s) (gen (modul s)) e"
  shows "minv ph (sched dt p e s)"
proof (rule minv_queue[OF assms(1)])
  show "same_writes (q s) (q (sched dt p e s))"
    using assms(2) by (cases e) (auto simp: same_writes_def set_insort_key)
  show "sorted (map fst (q (sched dt p e s)))" using coreD(3)[OF invD(1)[OF assms(1)]] by (simp add: sorted_insort_key)
  show "ev_ok (fresh s) (gen (modul s)) (snd x)" if "x \<in> set (q (sched dt p e s))" for x
    using that coreD(6)[OF invD(1)[OF assms(1)], of x] assms(3) by (auto simp: set_insort_key)
qed (use innocent_not[OF assms(2)] in simp_all)

text \<open>Taking the first call off the queue, when it is neither a landing nor an acknowledgement.\<close>

lemma minv_pop:
  assumes "minv ph s" "q s = x # es" "\<not> is_go (snd x)" "\<And>a d. snd x \<noteq> Ev_Land a d"
  shows "minv ph (s\<lparr>q := es\<rparr>)"
proof (rule minv_queue[OF assms(1)])
  have go: "\<And>k g t. x \<noteq> (k, Ev_Go g t)" using assms(3) by auto
  have land: "\<And>k a d. x \<noteq> (k, Ev_Land a d)" using assms(4) by (metis snd_conv)
  show "same_writes (q s) (q (s\<lparr>q := es\<rparr>))"
    using go[symmetric] land[symmetric] assms(3) not_go_orders by (simp add: same_writes_def assms(2))
  show "sorted (map fst (q (s\<lparr>q := es\<rparr>)))" using coreD(3)[OF invD(1)[OF assms(1)]] assms(2) by simp
  show "ev_ok (fresh s) (gen (modul s)) (snd y)" if "y \<in> set (q (s\<lparr>q := es\<rparr>))" for y
    using that coreD(6)[OF invD(1)[OF assms(1)]] assms(2) by simp
qed (simp_all add: assms(2))

text \<open>Registers that are not part of the command's phase.\<close>

lemma minv_module:
  assumes "minv ph s" "gen (f (modul s)) = gen (modul s)" "job_no (f (modul s)) = job_no (modul s)" "enable (f (modul s)) = enable (modul s)"
    "enabled (f (modul s)) = enabled (modul s)" "inflight (f (modul s)) = inflight (modul s)" "busy (f (modul s)) = busy (modul s)" "draining (f (modul s)) = draining (modul s)"
    "head (f (modul s)) = head (modul s)" "enable (modul s) \<Longrightarrow> base (f (modul s)) = base (modul s) \<and> size_log2 (f (modul s)) = size_log2 (modul s)" "regs_ok (f (modul s))"
  shows "minv ph (upd_m f s)"
proof -
  have "core (upd_m f s)" using coreD[OF invD(1)[OF assms(1)]] assms(2-11) by (simp add: core_def)
  moreover have "phase_ok (upd_m f s) ph"
    using invD(2)[OF assms(1)] assms(2-10)
    by (cases ph) (auto simp: running_def reading_def shooting_def ending_def dead_go_cong[of "upd_m f s" s] slot_def)
  ultimately show ?thesis using assms(1,3) by (simp add: minv_def)
qed

section \<open>The module's operations\<close>

lemma request_line_simps [simp]:
  "modul (request_line rid a s) = modul s" "reads (request_line rid a s) = reads s" "gemms (request_line rid a s) = gemms s"
  "mem (request_line rid a s) = mem s" "fresh (request_line rid a s) = fresh s" "planted_fault (request_line rid a s) = planted_fault s"
  "raised (request_line rid a s) = raised s"
  "q (request_line rid a s) = insort_key fst ((now s + (L + jitter s), 1, seqno s + 1), Ev_At_Host rid a) (q s)"
  by (simp_all add: request_line_def)

lemma fold_request_same:
  "modul (fold (request_line rid) as s) = modul s \<and> reads (fold (request_line rid) as s) = reads s
     \<and> gemms (fold (request_line rid) as s) = gemms s \<and> mem (fold (request_line rid) as s) = mem s
     \<and> fresh (fold (request_line rid) as s) = fresh s
     \<and> planted_fault (fold (request_line rid) as s) = planted_fault s \<and> raised (fold (request_line rid) as s) = raised s"
  by (induction as arbitrary: s) simp_all

lemma fold_request_sorted: "sorted (map fst (q s)) \<Longrightarrow> sorted (map fst (q (fold (request_line rid) as s)))"
  by (induction as arbitrary: s) (simp_all add: sorted_insort_key)

lemma same_writes_trans: "same_writes es es' \<Longrightarrow> same_writes es' es'' \<Longrightarrow> same_writes es es''"
  unfolding same_writes_def by simp

lemma fold_request_writes: "same_writes (q s) (q (fold (request_line rid) as s))"
proof (induction as arbitrary: s)
  case (Cons a as)
  have "same_writes (q s) (q (request_line rid a s))" by (auto simp: same_writes_def set_insort_key)
  then show ?case using Cons[of "request_line rid a s"] same_writes_trans by simp
qed (simp add: same_writes_def)

lemma fold_request_reads:
  "nev (reads_for r) (q (fold (request_line rid) as s)) = nev (reads_for r) (q s) + (if r = rid then length as else 0)"
  by (induction as arbitrary: s) simp_all

lemma fold_request_events:
  "x \<in> set (q (fold (request_line rid) as s)) \<Longrightarrow> x \<in> set (q s) \<or> (\<exists>k a. x = (k, Ev_At_Host rid a))"
  by (induction as arbitrary: s) (fastforce simp: set_insort_key)+

lemmas fold_request = fold_request_same fold_request_sorted fold_request_writes fold_request_reads fold_request_events

text \<open>Starting a read: from a quiet module that is at work, the read's own phase.\<close>

lemma minv_read_lines:
  assumes "minv Quiet s" "running (modul s)" "as \<noteq> []" "then_idx thn = head (modul s)" "then_ok thn"
  shows "minv (Reading (fresh s)) (read_lines as thn s)"
proof -
  let ?rid = "fresh s" and ?r = "\<lparr>rd_job = job_no (modul s), rd_gen = gen (modul s), rd_addrs = as, rd_got = [], rd_then = thn\<rparr>"
  let ?s1 = "s\<lparr>fresh := ?rid + 1, reads := (reads s)(?rid \<mapsto> ?r)\<rparr>"
  let ?s2 = "fold (request_line ?rid) as ?s1"
  note c = coreD[OF invD(1)[OF assms(1)]] and f = fold_request[where rid = ?rid and as = as and s = ?s1]
  have e: "read_lines as thn s = ?s2" by (simp add: read_lines_def Let_def)
  have none: "reads s ?rid = None" using c(7)[of ?rid] by (metis less_irrefl)
  have unused: "nev (reads_for ?rid) (q s) = 0"
  proof -
    have "\<not> reads_for ?rid (snd x)" if "x \<in> set (q s)" for x using c(6)[OF that] by (cases "snd x") auto
    then show ?thesis by (simp add: nev_0)
  qed
  have go: "nev is_go (q ?s2) = 0" using f(3) invD(2)[OF assms(1)] by (simp add: same_writes_def)
  have ev: "ev_ok (?rid + 1) (gen (modul s)) (snd x)" if x: "x \<in> set (q ?s2)" for x
  proof -
    have up: "ev_ok n g e \<Longrightarrow> ev_ok (Suc n) g e" for n g e by (cases e) (auto split: write_then.splits)
    show ?thesis using f(5)[OF x] c(6)[of x] up by auto
  qed
  have paired: "paired (q ?s2)" using c(5) f(3) unfolding paired_def same_writes_def by simp
  have core: "core ?s2" using c f(1,2) ev paired f(3) by (auto simp: core_def same_writes_def less_Suc_eq)
  moreover have "phase_ok ?s2 (Reading ?rid)"
    using f(1) go assms(2-5) by (simp add: reading_def)
  moreover have "read_ok (Reading ?rid) (job_no (modul s)) (q ?s2) i r" if "reads ?s1 i = Some r" for i r
  proof (cases "i = ?rid")
    case True
    then show ?thesis using that f(4)[where r = i] unused by (auto simp: read_ok_def)
  next
    case False
    then show ?thesis using that f(4)[where r = i] invD(3)[OF assms(1), of i r] by (auto simp: read_ok_def)
  qed
  moreover have "gemm_ok (Reading ?rid) (job_no (modul s)) (q ?s2) i g" if "gemms s i = Some g" for i g
    using invD(4)[OF assms(1) that] f(3) by (auto simp: gemm_ok_def same_writes_def)
  ultimately show ?thesis using e f(1) by (simp add: minv_def)
qed

lemma minv_kick:
  assumes "minv Quiet s"
  shows "\<exists>ph. minv ph (kick s)"
proof (cases "enable (modul s) \<and> \<not> (busy (modul s) \<or> halted (modul s) \<noteq> 0 \<or> wedged (modul s)) \<and> head (modul s) \<noteq> tail (modul s)")
  case True
  let ?s1 = "upd_m (\<lambda>m. m\<lparr>busy := True\<rparr>) s"
  have "minv Quiet ?s1"
    using assms True by (auto simp: minv_def core_def regs_ok_def)
  moreover have "running (modul ?s1)" using True invD(2)[OF assms] by (simp add: running_def)
  ultimately have "minv (Reading (fresh ?s1)) (read_lines [slot (modul s) (head (modul s))] (Got_Descriptor (head (modul s))) ?s1)"
    by (rule minv_read_lines) simp_all
  then show ?thesis using True by (auto simp: kick_def Let_def)
next
  case False
  then have "kick s = s" by (auto simp: kick_def Let_def)
  then show ?thesis using assms by auto
qed

lemma not_faulty [simp]: "planted_fault s = None \<Longrightarrow> \<not> faulty s f"
  by (simp add: faulty_def)

lemma write_line_simps [simp]:
  "modul (write_line a d t s) = (modul s)\<lparr>inflight := inflight (modul s) + 1\<rparr>" "reads (write_line a d t s) = reads s"
  "gemms (write_line a d t s) = gemms s" "mem (write_line a d t s) = mem s" "fresh (write_line a d t s) = fresh s"
  "planted_fault (write_line a d t s) = planted_fault s" "raised (write_line a d t s) = raised s"
  by (simp_all add: write_line_def Let_def)

lemma write_line_q:
  "\<exists>k n m. q (write_line a d t s) =
     insort_key fst ((k + L, 1, n), Ev_Go (gen (modul s)) t) (insort_key fst ((k, 0, m), Ev_Land a d) (q s))"
  by (rule exI[of _ "now s + (L + jitter s)"], rule exI[of _ "seqno s + 2"], rule exI[of _ "seqno s + 1"])
    (simp add: write_line_def Let_def sched_def drawn_def upd_m_def add.assoc)

lemma write_line_set:
  "\<exists>k k'. set (q (write_line a d t s)) = insert (k', Ev_Go (gen (modul s)) t) (insert (k, Ev_Land a d) (set (q s)))"
  using write_line_q[of a d t s] by (metis set_insort_key)

lemma write_line_nev:
  "\<not> P (Ev_Land a d) \<Longrightarrow> nev P (q (write_line a d t s)) = nev P (q s) + of_bool (P (Ev_Go (gen (modul s)) t))"
  using write_line_q[of a d t s] by auto

lemma core_write_line:
  assumes "core s" "ev_ok (fresh s) (gen (modul s)) (Ev_Go (gen (modul s)) t)"
  shows "core (write_line a d t s)"
proof -
  note c = coreD[OF assms(1)]
  obtain k n m where qe: "q (write_line a d t s) =
     insort_key fst ((k + L, 1, n), Ev_Go (gen (modul s)) t) (insort_key fst ((k, 0, m), Ev_Land a d) (q s))"
    using write_line_q by blast
  have "paired (q (write_line a d t s))" unfolding qe by (rule paired_write[OF c(5)])
  moreover have "sorted (map fst (q (write_line a d t s)))" unfolding qe using c(3) by (simp add: sorted_insort_key)
  moreover have "ev_ok (fresh s) (gen (modul s)) (snd x)" if "x \<in> set (q (write_line a d t s))" for x
    using that c(6)[of x] assms(2) unfolding qe by (auto simp: set_insort_key)
  ultimately show ?thesis using c by (simp add: core_def write_line_nev regs_ok_def)
qed

lemma length_fields_unpack: "fields_unpack ns d = Inr v \<Longrightarrow> length d = sum_list ns"
  by (induction ns d arbitrary: v rule: fields_unpack.induct) (auto simp: bindE_Inr split: if_splits)

lemma length_DESC_unpack: "DESC_unpack d = Inr v \<Longrightarrow> length d = LINE"
proof -
  assume "DESC_unpack d = Inr v"
  then have "length d = sum_list DESC" unfolding DESC_unpack_def by (rule length_fields_unpack)
  then show "length d = LINE" by (simp add: DESC_def LINE_def)
qed

lemma rec_of_status:
  assumes "rec_of d st ix = Inr rec" "length d = LINE"
  shows "word_at 0x30 rec = st" "word_at 0x34 rec = ix" "take 0x30 rec = take 0x30 d" "length rec = LINE"
proof -
  have r: "rec = take 48 d @ le_pack 4 st @ le_pack 4 ix @ le_pack 8 0" and fit: "st < 256 ^ 4" "ix < 256 ^ 4"
    using assms(1) by (auto simp: rec_of_def bindE_Inr split: if_splits)
  then show "word_at 0x30 rec = st" "word_at 0x34 rec = ix" "take 0x30 rec = take 0x30 d" "length rec = LINE"
    using assms(2) by (simp_all add: word_at_def LINE_def le_unpack_pack)
qed

text \<open>The record of a command: from a quiet module at work, the ending phase.\<close>

lemma minv_end_cmd:
  assumes "minv Quiet s" "running (modul s)" "length d = LINE" "final st"
  shows "raised (end_cmd (head (modul s)) d st ix s) \<noteq> None \<or> minv (Ending st) (end_cmd (head (modul s)) d st ix s)"
proof (cases "rec_of d st ix")
  case (Inr rec)
  let ?a = "slot (modul s) (head (modul s))" and ?t = "Ended (head (modul s)) st (job_no (modul s))"
  let ?s = "write_line ?a rec ?t s"
  note c = coreD[OF invD(1)[OF assms(1)]]
  have e: "end_cmd (head (modul s)) d st ix s = ?s"
    using Inr c(1) by (simp add: end_cmd_def record_write_def Let_def)
  obtain k k' where set: "set (q ?s) = insert (k', Ev_Go (gen (modul s)) ?t) (insert (k, Ev_Land ?a rec) (set (q s)))"
    using write_line_set by blast
  have nogo: "nev is_go (q s) = 0" using invD(2)[OF assms(1)] by simp
  then have noland: "(k, Ev_Land a d) \<notin> set (q s)" for k a d using paired_no_go[OF c(5)] by blast
  have "core ?s" by (rule core_write_line[OF invD(1)[OF assms(1)]]) simp
  moreover have "phase_ok ?s (Ending st)"
  proof -
    have "\<exists>k g. (k, Ev_Go g ?t) \<in> set (q ?s)" "\<exists>k. (k, Ev_Land ?a rec) \<in> set (q ?s)" unfolding set by blast+
    moreover have "(k, Ev_Land a d) \<in> set (q ?s) \<Longrightarrow> a = ?a \<and> d = rec" for k a d using noland unfolding set by auto
    ultimately show ?thesis
      using assms(2,4) nogo rec_of_status[OF Inr assms(3)]
      by (auto simp: running_def ending_def write_line_nev slot_def)
  qed
  moreover have "read_ok (Ending st) (job_no (modul s)) (q ?s) i r" if "reads s i = Some r" for i r
    using invD(3)[OF assms(1) that] by (auto simp: read_ok_def write_line_nev)
  moreover have "gemm_ok (Ending st) (job_no (modul s)) (q ?s) i g" if "gemms s i = Some g" for i g
    using invD(4)[OF assms(1) that] by (auto simp: gemm_ok_def write_line_nev)
  ultimately show ?thesis unfolding e by (simp add: minv_def)
qed (simp add: end_cmd_def)

lemma minv_shots:
  assumes "minv Quiet s" "running (modul s)" "length d = LINE" "0 < M" "0 < N"
  shows "raised (shots datas (head (modul s)) d M K N out ix sd nw DONE s) \<noteq> None
    \<or> minv (Shooting (fresh s)) (shots datas (head (modul s)) d M K N out ix sd nw DONE s)"
proof -
  let ?p = "bindE (unpack_array 1 int8_unpack (K * N) (take (K * N) (concat (take nw datas)))) (\<lambda>W.
           bindE (unpack_array 1 int8_unpack (M * K) (take (M * K) (concat (drop nw datas)))) (\<lambda>A.
           pack_array int32_ok int32_pack (gemm A W M K N (gemm_seed sd ix))))"
  show ?thesis
  proof (cases ?p)
    case (Inr raw0)
    note c = coreD[OF invD(1)[OF assms(1)]]
    obtain A W where g: "pack_array int32_ok int32_pack (gemm A W M K N (gemm_seed sd ix)) = Inr raw0"
      using Inr by (auto simp: bindE_Inr)
    then have "length raw0 = M * N * 4"
      using int32.length_packed by (auto simp: pack_array_def length_gemm split: if_splits)
    then have pos: "0 < lines (length raw0)"
      using lines_bounds(1)[of "length raw0"] assms(4,5) by (cases "lines (length raw0)") auto
    let ?g = "\<lparr>st_job = job_no (modul s), st_sent = 0, st_ordered = 0, st_need = lines (length raw0), st_n = lines (length raw0),
      st_early = False, st_raw = raw0 @ replicate (lines (length raw0) * LINE - length raw0) 0, st_idx = head (modul s), st_d = d,
      st_M = M, st_N = N, st_out = out, st_status = DONE, st_index = ix\<rparr>"
    let ?s1 = "s\<lparr>fresh := fresh s + 1, gemms := (gemms s)(fresh s \<mapsto> ?g)\<rparr>"
    have e: "shots datas (head (modul s)) d M K N out ix sd nw DONE s = sched 1 1 (Ev_Shot (fresh s) 0) ?s1"
      using Inr c(1) by (simp add: shots_def Let_def)
    have nogo: "nev is_go (q s) = 0" using invD(2)[OF assms(1)] by simp
    then have quiet: "(k, Ev_Land a d') \<notin> set (q s)" "(k, Ev_Go g' t) \<notin> set (q s)" for k a d' g' t
      using paired_no_go[OF c(5)] by (auto simp: nev_0)
    have ord: "nev (orders_for i) (q s) = 0" for i
      using nogo not_go_orders by (auto simp: nev_0)
    have up: "ev_ok n g e \<Longrightarrow> ev_ok (Suc n) g e" for n g e by (cases e) (auto split: write_then.splits)
    have none: "reads s (fresh s) = None" "gemms s (fresh s) = None" using c(7)[of "fresh s"] by (metis less_irrefl)+
    have "core ?s1" using c up by (auto simp: core_def less_Suc_eq)
    moreover have "phase_ok ?s1 (Shooting (fresh s))" using assms(2,3) quiet pos by (simp add: shooting_def)
    moreover have "read_ok (Shooting (fresh s)) (job_no (modul s)) (q s) i r" if "reads s i = Some r" for i r
      using invD(3)[OF assms(1) that] by (auto simp: read_ok_def)
    moreover have "gemm_ok (Shooting (fresh s)) (job_no (modul s)) (q s) i g" if "gemms ?s1 i = Some g" for i g
      using invD(4)[OF assms(1), of i g] that ord by (auto simp: gemm_ok_def split: if_splits)
    ultimately have "minv (Shooting (fresh s)) ?s1" by (simp add: minv_def)
    then have "minv (Shooting (fresh s)) (sched 1 1 (Ev_Shot (fresh s) 0) ?s1)" by (rule minv_sched) simp_all
    then show ?thesis unfolding e by simp
  qed (simp add: shots_def)
qed

lemma lines_pos: "0 < n \<Longrightarrow> 0 < lines n"
  using lines_bounds(1)[of n] by (cases "lines n") auto

lemma minv_got_descriptor:
  assumes "minv Quiet s" "running (modul s)"
  shows "raised (got_descriptor datas (head (modul s)) s) \<noteq> None \<or> (\<exists>ph. minv ph (got_descriptor datas (head (modul s)) s))"
proof (cases "Some (head (modul s)) = wedge_at (modul s)")
  case True
  have "minv Quiet (upd_m (\<lambda>m. m\<lparr>wedged := True\<rparr>) s)"
    using assms(1) by (rule minv_module) (use coreD(8)[OF invD(1)[OF assms(1)]] in \<open>simp_all add: regs_ok_def\<close>)
  then show ?thesis using True by (auto simp: got_descriptor_def)
next
  case nw: False
  note nf = not_faulty[OF coreD(1)[OF invD(1)[OF assms(1)]]]
  show ?thesis
  proof (cases "DESC_unpack (hd datas)")
    case (Inl e)
    then show ?thesis using nw by (simp add: got_descriptor_def)
  next
    case (Inr v)
    note len = length_DESC_unpack[OF Inr]
    have ends: "raised (end_cmd (head (modul s)) (hd datas) st NO_INDEX s) \<noteq> None \<or> (\<exists>ph. minv ph (end_cmd (head (modul s)) (hd datas) st NO_INDEX s))"
      if "final st" for st using minv_end_cmd[OF assms len that, of NO_INDEX] by blast
    show ?thesis
    proof (cases "usable v \<and> target_bank v < BANKS \<and> \<not> (after_success v \<and> prev (modul s) \<notin> {None, Some DONE})")
      case False
      then consider "\<not> usable v" | "usable v" "BANKS \<le> target_bank v"
        | "usable v" "\<not> BANKS \<le> target_bank v" "after_success v \<and> prev (modul s) \<notin> {None, Some DONE}" by linarith
      then have "\<exists>st. final st \<and> got_descriptor datas (head (modul s)) s = end_cmd (head (modul s)) (hd datas) st NO_INDEX s"
        by cases (use nw Inr nf in \<open>simp_all add: got_descriptor_def Let_def final_def, blast+\<close>)
      then show ?thesis using ends by metis
    next
      case True
      let ?s1 = "upd_m (\<lambda>m. m\<lparr>gemm_ct := gemm_ct m + 1\<rparr>) s"
      have "minv Quiet ?s1" using assms(1)
        by (rule minv_module) (use coreD(8)[OF invD(1)[OF assms(1)]] in \<open>simp_all add: regs_ok_def\<close>)
      moreover have "map (\<lambda>i. v ! 7 + i * LINE) [0..<lines (v ! 4 * v ! 5 * W_BYTES)]
          @ map (\<lambda>i. v ! 6 + i * LINE) [0..<lines (v ! 3 * v ! 4 * A_BYTES)] \<noteq> []"
        using True lines_pos[of "v ! 4 * v ! 5 * W_BYTES"] by (auto simp: usable_def W_BYTES_def)
      ultimately have "minv (Reading (fresh ?s1)) (start (head (modul s)) (hd datas) (v ! 3) (v ! 4) (v ! 5) (v ! 6) (v ! 7) (v ! 8) DONE s)"
        unfolding start_def Let_def
        by (intro minv_read_lines) (use True len assms(2) in \<open>auto simp: running_def usable_def\<close>)
      moreover have "got_descriptor datas (head (modul s)) s
          = start (head (modul s)) (hd datas) (v ! 3) (v ! 4) (v ! 5) (v ! 6) (v ! 7) (v ! 8) DONE s"
        using True nw Inr nf by (auto simp: got_descriptor_def not_le)
      ultimately show ?thesis by auto
    qed
  qed
qed

section \<open>Calls as they come due\<close>

lemma minv_settle:
  assumes "minv ph s"
  shows "\<exists>ph'. minv ph' (settle s)"
proof (cases "draining (modul s) \<and> inflight (modul s) = 0")
  case True
  then have ph: "ph = Drain" using invD(2)[OF assms] by (cases ph) (auto simp: running_def)
  note c = coreD[OF invD(1)[OF assms]]
  have e: "settle s = upd_m (\<lambda>m. m\<lparr>enabled := False, draining := False\<rparr>) s" using True by (simp add: settle_def)
  have "core (settle s)" unfolding e using c by (simp add: core_def regs_ok_def)
  moreover have "phase_ok (settle s) Quiet" unfolding e using invD(2)[OF assms] ph c(4) True by simp
  moreover have "read_ok Quiet (job_no (modul s)) (q s) i r" if "reads s i = Some r" for i r
    using invD(3)[OF assms that] ph by (simp add: read_ok_def)
  moreover have "gemm_ok Quiet (job_no (modul s)) (q s) i g" if "gemms s i = Some g" for i g
    using invD(4)[OF assms that] ph by (auto simp: gemm_ok_def)
  ultimately have "minv Quiet (settle s)" unfolding minv_def e by simp
  then show ?thesis by blast
next
  case False
  then have "settle s = s" by (auto simp: settle_def)
  then show ?thesis using assms by auto
qed

lemma minv_then_read:
  assumes "minv Quiet s" "running (modul s)" "then_idx t = head (modul s)" "then_ok t"
  shows "raised (then_read t datas s) \<noteq> None \<or> (\<exists>ph. minv ph (then_read t datas s))"
proof (cases t)
  case (Got_Descriptor i)
  then show ?thesis using minv_got_descriptor[OF assms(1,2)] assms(3) by simp
next
  case (Shots i d M K N out ix sd nw st)
  then show ?thesis using minv_shots[OF assms(1,2), of d M N datas K out ix sd nw] assms(3,4) by auto
qed

lemma minv_on_back:
  assumes "minv ph s" "q s = (k, Ev_Back rid a d) # es"
  shows "raised (on_back rid a d (s\<lparr>q := es\<rparr>)) \<noteq> None \<or> (\<exists>ph. minv ph (on_back rid a d (s\<lparr>q := es\<rparr>)))"
proof (cases "\<exists>r. reads s rid = Some r \<and> rd_job r = job_no (modul s) \<and> rd_gen r = gen (modul s)")
  case False
  then have "on_back rid a d (s\<lparr>q := es\<rparr>) = s\<lparr>q := es\<rparr>" by (auto simp: on_back_def split: option.split)
  moreover have "minv ph (s\<lparr>q := es\<rparr>)" using minv_pop[OF assms] by simp
  ultimately show ?thesis by auto
next
  case True
  then obtain r where r: "reads s rid = Some r" "rd_job r = job_no (modul s)" "rd_gen r = gen (modul s)" by blast
  note ok = invD(3)[OF assms(1) r(1)]
  then have lt: "length (rd_got r) < length (rd_addrs r)" using assms(2) by (auto simp: read_ok_def)
  then have ph: "ph = Reading rid" using ok r(2) by (auto simp: read_ok_def)
  have run: "running (modul s)" "reading s rid" "nev is_go es = 0" using invD(2)[OF assms(1)] ph assms(2) by simp_all
  let ?r = "r\<lparr>rd_got := dict_put a d (rd_got r)\<rparr>"
  let ?s1 = "s\<lparr>q := es, reads := (reads s)(rid \<mapsto> ?r)\<rparr>"
  have len: "length (rd_got ?r) \<le> length (rd_got r) + 1" by (simp add: dict_put_def)
  have base: "minv (Reading rid) (s\<lparr>q := es\<rparr>)" using minv_pop[OF assms] ph by simp
  note b = invD[OF base]
  have core: "core ?s1" using coreD[OF b(1)] r(1) by (auto simp: core_def)
  have rest: "nev (reads_for rid) es + 1 + length (rd_got r) \<le> length (rd_addrs r)" using ok assms(2) by (simp add: read_ok_def)
  show ?thesis
  proof (cases "length (rd_got ?r) = length (rd_addrs r)")
    case True
    have "minv Quiet ?s1"
      unfolding minv_def
    proof (intro conjI allI impI)
      show "phase_ok ?s1 Quiet" using run by (auto simp: running_def)
      fix i r' assume "reads ?s1 i = Some r'"
      then show "read_ok Quiet (job_no (modul ?s1)) (q ?s1) i r'"
        using b(3)[of i r'] True len rest r(2) by (auto simp: read_ok_def split: if_splits)
    next
      fix i g assume "gemms ?s1 i = Some g"
      then show "gemm_ok Quiet (job_no (modul ?s1)) (q ?s1) i g" using b(4)[of i g] by (auto simp: gemm_ok_def)
    qed (rule core)
    moreover have "running (modul ?s1)" "then_idx (rd_then r) = head (modul ?s1)" "then_ok (rd_then r)"
      using run r(1) by (auto simp: reading_def)
    ultimately have "raised (then_read (rd_then r) (got_lines ?r) ?s1) \<noteq> None \<or> (\<exists>ph. minv ph (then_read (rd_then r) (got_lines ?r) ?s1))"
      by (rule minv_then_read)
    then show ?thesis using r True by (simp add: on_back_def Let_def)
  next
    case False
    have "minv (Reading rid) ?s1"
      unfolding minv_def
    proof (intro conjI allI impI)
      show "phase_ok ?s1 (Reading rid)" using run r len lt False by (auto simp: reading_def)
      fix i r' assume "reads ?s1 i = Some r'"
      then show "read_ok (Reading rid) (job_no (modul ?s1)) (q ?s1) i r'"
        using b(3)[of i r'] len rest r(2) by (auto simp: read_ok_def split: if_splits)
    next
      fix i g assume "gemms ?s1 i = Some g"
      then show "gemm_ok (Reading rid) (job_no (modul ?s1)) (q ?s1) i g" using b(4)[of i g] by simp
    qed (rule core)
    then show ?thesis using r False by (auto simp: on_back_def Let_def)
  qed
qed

definition only_fired :: "sim \<Rightarrow> sim \<Rightarrow> bool" where
  "only_fired s s' \<longleftrightarrow> (\<exists>f. s' = s\<lparr>fired := f\<rparr>)"

lemma only_fired_fail: "only_fired s s' \<Longrightarrow> only_fired s (fail c s')"
  by (auto simp: only_fired_def fail_def intro: exI[of _ "fired s"])

lemma only_fired_landing: "only_fired s (landing a s)"
proof -
  have "only_fired s s" unfolding only_fired_def by (rule exI[of _ "fired s"]) simp
  then show ?thesis by (auto simp: landing_def Let_def split: option.split intro!: only_fired_fail)
qed

lemma landing_same:
  "modul (landing a s) = modul s" "reads (landing a s) = reads s" "gemms (landing a s) = gemms s" "mem (landing a s) = mem s"
  "q (landing a s) = q s" "fresh (landing a s) = fresh s" "planted_fault (landing a s) = planted_fault s" "raised (landing a s) = raised s"
  using only_fired_landing[of s a] by (auto simp: only_fired_def)

lemma minv_land:
  assumes "minv ph s" "q s = (k, Ev_Land a d) # es"
  shows "minv ph (land a d (s\<lparr>q := es\<rparr>))"
proof -
  let ?s = "s\<lparr>q := es, mem := (mem s)(a \<mapsto> d)\<rparr>"
  note c = coreD[OF invD(1)[OF assms(1)]]
  have same: "modul (land a d (s\<lparr>q := es\<rparr>)) = modul s" "reads (land a d (s\<lparr>q := es\<rparr>)) = reads s" "gemms (land a d (s\<lparr>q := es\<rparr>)) = gemms s"
    "mem (land a d (s\<lparr>q := es\<rparr>)) = mem ?s" "q (land a d (s\<lparr>q := es\<rparr>)) = es" "fresh (land a d (s\<lparr>q := es\<rparr>)) = fresh s"
    "planted_fault (land a d (s\<lparr>q := es\<rparr>)) = planted_fault s" "raised (land a d (s\<lparr>q := es\<rparr>)) = raised s"
    by (simp_all add: land_def landing_same)
  have "paired es" using paired_tl[of "(k, Ev_Land a d)" es] c(3,5) assms(2) by simp
  then have "core (land a d (s\<lparr>q := es\<rparr>))" using c same assms(2) by (simp add: core_def)
  moreover have "phase_ok (land a d (s\<lparr>q := es\<rparr>)) ph"
  proof (cases ph)
    case (Shooting sid)
    then obtain g where g: "gemms s sid = Some g" "st_job g = job_no (modul s)" "st_ordered g < st_need g" "st_idx g = head (modul s)"
      "st_status g = DONE" "length (st_d g) = LINE" "\<And>k g' t. (k, Ev_Go g' t) \<in> set (q s) \<Longrightarrow> t = Ordered sid"
      "\<And>k a d. (k, Ev_Land a d) \<in> set (q s) \<Longrightarrow> \<exists>i < st_sent g. a = st_out g + i * LINE \<and> d = chunk g i"
      "\<And>i. i < st_sent g \<Longrightarrow> mem s (st_out g + i * LINE) = Some (chunk g i) \<or> (\<exists>k. (k, Ev_Land (st_out g + i * LINE) (chunk g i)) \<in> set (q s))"
      and run: "running (modul s)"
      using invD(2)[OF assms(1)] by (auto simp: shooting_def)
    obtain i0 where i0: "i0 < st_sent g" "a = st_out g + i0 * LINE" "d = chunk g i0" using g(8)[of k a d] assms(2) by auto
    have "mem ?s (st_out g + i * LINE) = Some (chunk g i) \<or> (\<exists>k. (k, Ev_Land (st_out g + i * LINE) (chunk g i)) \<in> set es)"
      if "i < st_sent g" for i
      using g(9)[OF that] i0 assms(2) by (cases "i = i0") (auto simp: LINE_def)
    moreover have "t = Ordered sid" if "(k', Ev_Go g' t) \<in> set es" for k' g' t using g(7)[of k' g' t] that assms(2) by simp
    moreover have "\<exists>i < st_sent g. a' = st_out g + i * LINE \<and> d' = chunk g i" if "(k', Ev_Land a' d') \<in> set es" for k' a' d'
      using g(8)[of k' a' d'] that assms(2) by simp
    ultimately have "shooting (land a d (s\<lparr>q := es\<rparr>)) sid"
      unfolding shooting_def same using g(1-6) by blast
    then show ?thesis using run Shooting same by simp
  next
    case (Ending st)
    let ?a = "slot (modul s) (head (modul s))"
    obtain rec where e: "final st" "nev is_go (q s) = 1" "\<exists>k g. (k, Ev_Go g (Ended (head (modul s)) st (job_no (modul s)))) \<in> set (q s)"
      "word_at 0x30 rec = st" "\<And>k a d. (k, Ev_Land a d) \<in> set (q s) \<Longrightarrow> a = ?a \<and> d = rec"
      and run: "running (modul s)"
      using invD(2)[OF assms(1)] Ending by (auto simp: ending_def)
    have "a = ?a" "d = rec" using e(5)[of k a d] assms(2) by simp_all
    then have "mem ?s ?a = Some rec" by simp
    moreover have "\<exists>k g. (k, Ev_Go g (Ended (head (modul s)) st (job_no (modul s)))) \<in> set es" "nev is_go es = 1"
      using e(2,3) assms(2) by simp_all
    moreover have "a' = ?a \<and> d' = rec" if "(k', Ev_Land a' d') \<in> set es" for k' a' d' using e(5)[of k' a' d'] that assms(2) by simp
    ultimately have "ending (land a d (s\<lparr>q := es\<rparr>)) st"
      unfolding ending_def same using e(1,4) by blast
    then show ?thesis using run Ending same by simp
  next
    case (Reading rid)
    then show ?thesis using invD(2)[OF assms(1)] assms(2) by (simp add: reading_def same)
  next
    case Drain
    have "dead_go (land a d (s\<lparr>q := es\<rparr>)) = dead_go s" by (rule dead_go_cong) (simp_all add: same)
    then show ?thesis using invD(2)[OF assms(1)] assms(2) Drain by (simp add: same)
  next
    case Quiet
    then show ?thesis using invD(2)[OF assms(1)] assms(2) by (simp add: same)
  qed
  moreover have "read_ok ph (job_no (modul s)) es i r" if "reads s i = Some r" for i r
    using invD(3)[OF assms(1) that] assms(2) by (simp add: read_ok_def)
  moreover have "gemm_ok ph (job_no (modul s)) es i g" if "gemms s i = Some g" for i g
    using invD(4)[OF assms(1) that] assms(2) by (simp add: gemm_ok_def)
  ultimately show ?thesis unfolding minv_def same by blast
qed

text \<open>Acknowledgements.  The first call is the earliest, so when it is the last acknowledgement
  nothing the module wrote is still on its way.\<close>

lemma last_go:
  assumes "minv ph s" "q s = (k, Ev_Go g t) # es" "nev is_go es = 0"
  shows "(k', Ev_Land a d) \<notin> set (q s)"
proof -
  have "paired es" using paired_tl[of "(k, Ev_Go g t)" es] coreD(3,5)[OF invD(1)[OF assms(1)]] assms(2) by simp
  then show ?thesis using paired_no_go[of es] assms(2,3) by simp
qed

lemma core_go:
  assumes "minv ph s" "q s = (k, Ev_Go g t) # es"
  shows "core (upd_m (\<lambda>m. m\<lparr>inflight := inflight m - 1\<rparr>) (s\<lparr>q := es\<rparr>))"
proof -
  note c = coreD[OF invD(1)[OF assms(1)]]
  have "paired es" using paired_tl[of "(k, Ev_Go g t)" es] c(3,5) assms(2) by simp
  then show ?thesis using c assms(2) by (simp add: core_def regs_ok_def)
qed

lemma reads_go:
  assumes "minv ph s" "q s = (k, Ev_Go g t) # es" "reads s i = Some r" "\<And>rid. ph \<noteq> Reading rid"
  shows "read_ok ph' (job_no (modul s)) es i r"
  using invD(3)[OF assms(1,3)] assms(2,4) by (auto simp: read_ok_def)

text \<open>The state after an acknowledgement of a result line, before what it may trigger.\<close>

definition counted :: "nat \<Rightarrow> shots_rec \<Rightarrow> queued list \<Rightarrow> sim \<Rightarrow> sim" where
  "counted sid gm es s = (upd_m (\<lambda>m. m\<lparr>inflight := inflight m - 1\<rparr>) (s\<lparr>q := es\<rparr>))
     \<lparr>gemms := (gemms s)(sid \<mapsto> gm\<lparr>st_ordered := st_ordered gm + 1\<rparr>)\<rparr>"

lemma counted_simps [simp]:
  "modul (counted sid gm es s) = (modul s)\<lparr>inflight := inflight (modul s) - 1\<rparr>" "q (counted sid gm es s) = es"
  "reads (counted sid gm es s) = reads s" "mem (counted sid gm es s) = mem s" "fresh (counted sid gm es s) = fresh s"
  "gemms (counted sid gm es s) = (gemms s)(sid \<mapsto> gm\<lparr>st_ordered := st_ordered gm + 1\<rparr>)"
  "planted_fault (counted sid gm es s) = planted_fault s" "raised (counted sid gm es s) = raised s"
  by (simp_all add: counted_def)

lemma core_counted:
  assumes "minv ph s" "q s = (k, Ev_Go g (Ordered sid)) # es" "gemms s sid = Some gm"
  shows "core (counted sid gm es s)"
  using core_go[OF assms(1,2)] assms(3) by (auto simp: core_def counted_def)

lemma gemms_counted:
  assumes "minv ph s" "q s = (k, Ev_Go g (Ordered sid)) # es" "gemms s sid = Some gm"
    "gemms (counted sid gm es s) i = Some g'" "ph' = ph \<or> ph' = Quiet \<and> ph = Shooting sid \<and> st_ordered gm + 1 = st_need gm"
  shows "gemm_ok ph' (job_no (modul s)) es i g'"
proof (cases "i = sid")
  case True
  then show ?thesis using invD(4)[OF assms(1,3)] assms(2,4,5) by (auto simp: gemm_ok_def)
next
  case False
  then have "gemms s i = Some g'" using assms(4) by simp
  then show ?thesis using invD(4)[OF assms(1), of i g'] assms(2,5) False by (auto simp: gemm_ok_def)
qed

lemma minv_counted_dead:
  assumes "minv Drain s" "q s = (k, Ev_Go g (Ordered sid)) # es" "gemms s sid = Some gm"
  shows "minv Drain (counted sid gm es s)"
proof -
  have dead: "dead_go s t" if "(k', Ev_Go g' t) \<in> set (q s)" for k' g' t using invD(2)[OF assms(1)] that unfolding phase_ok.simps by blast
  have "st_job gm \<noteq> job_no (modul s)" using dead[of k g "Ordered sid"] assms(2,3) by (simp add: dead_go_def)
  then have "dead_go (counted sid gm es s) t" if "dead_go s t" for t
    using that by (auto simp: dead_go_def split: write_then.splits)
  then have "phase_ok (counted sid gm es s) Drain" using invD(2)[OF assms(1)] dead assms(2) by simp blast
  then show ?thesis using core_counted[OF assms] reads_go[OF assms(1,2)] gemms_counted[OF assms, of _ _ Drain]
    by (simp add: minv_def)
qed

lemma shootingE:
  assumes "minv (Shooting sid) s"
  obtains g where "running (modul s)" "gemms s sid = Some g" "st_job g = job_no (modul s)" "st_ordered g < st_need g" "st_idx g = head (modul s)"
    "st_status g = DONE" "length (st_d g) = LINE" "\<And>k g' t. (k, Ev_Go g' t) \<in> set (q s) \<Longrightarrow> t = Ordered sid"
    "\<And>k a d. (k, Ev_Land a d) \<in> set (q s) \<Longrightarrow> \<exists>i < st_sent g. a = st_out g + i * LINE \<and> d = chunk g i"
    "\<And>i. i < st_sent g \<Longrightarrow> mem s (st_out g + i * LINE) = Some (chunk g i) \<or> (\<exists>k. (k, Ev_Land (st_out g + i * LINE) (chunk g i)) \<in> set (q s))"
  using invD(2)[OF assms] unfolding phase_ok.simps shooting_def by blast

text \<open>While a GEMM shoots, its lines are the only writes; when its last line is acknowledged, all of them are
  in memory.\<close>

lemma shooting_gos:
  assumes "minv (Shooting sid) s" "gemms s sid = Some g"
  shows "nev is_go (q s) = st_sent g - st_ordered g"
proof -
  obtain g' where g': "gemms s sid = Some g'" "\<And>k g t. (k, Ev_Go g t) \<in> set (q s) \<Longrightarrow> t = Ordered sid"
    using shootingE[OF assms(1)] by metis
  have "is_go (snd x) = orders_for sid (snd x)" if "x \<in> set (q s)" for x
  proof (cases "snd x")
    case (Ev_Go g t)
    then show ?thesis using g'(2)[of "fst x" g t] that by (cases x) auto
  qed simp_all
  then have "nev is_go (q s) = nev (orders_for sid) (q s)" unfolding nev_def by (metis (mono_tags, lifting) filter_cong)
  then show ?thesis using invD(4)[OF assms(1,2)] by (auto simp: gemm_ok_def)
qed

lemma results_landed:
  assumes "minv (Shooting sid) s" "q s = (k, Ev_Go g' t) # es" "gemms s sid = Some g" "st_ordered g + 1 = st_need g" "i < st_n g"
  shows "mem s (st_out g + i * LINE) = Some (chunk g i)"
proof -
  note ok = invD(4)[OF assms(1,3)]
  have gos: "nev is_go (q s) = st_sent g - st_ordered g" by (rule shooting_gos[OF assms(1,3)])
  then have one: "st_sent g = st_need g" "nev is_go es = 0" using ok assms(2,4) by (auto simp: gemm_ok_def)
  then have "\<And>k a d. (k, Ev_Land a d) \<notin> set (q s)" using last_go[OF assms(1,2)] by blast
  moreover obtain g'' where "gemms s sid = Some g''"
    "\<And>i. i < st_sent g'' \<Longrightarrow> mem s (st_out g'' + i * LINE) = Some (chunk g'' i) \<or> (\<exists>k. (k, Ev_Land (st_out g'' + i * LINE) (chunk g'' i)) \<in> set (q s))"
    using shootingE[OF assms(1)] by metis
  moreover have "i < st_sent g" using one assms(5) ok by (simp add: gemm_ok_def)
  ultimately show ?thesis using assms(3) by (metis option.inject)
qed

lemma minv_go_shooting:
  assumes "minv (Shooting sid) s" "q s = (k, Ev_Go g t) # es"
  shows "raised (then_go t (upd_m (\<lambda>m. m\<lparr>inflight := inflight m - 1\<rparr>) (s\<lparr>q := es\<rparr>))) \<noteq> None
    \<or> (\<exists>ph. minv ph (then_go t (upd_m (\<lambda>m. m\<lparr>inflight := inflight m - 1\<rparr>) (s\<lparr>q := es\<rparr>))))"
proof -
  obtain gm where gm: "running (modul s)" "gemms s sid = Some gm" "st_job gm = job_no (modul s)" "st_ordered gm < st_need gm"
    "st_idx gm = head (modul s)" "st_status gm = DONE" "length (st_d gm) = LINE" "\<And>k g' t. (k, Ev_Go g' t) \<in> set (q s) \<Longrightarrow> t = Ordered sid"
    "\<And>k a d. (k, Ev_Land a d) \<in> set (q s) \<Longrightarrow> \<exists>i < st_sent gm. a = st_out gm + i * LINE \<and> d = chunk gm i"
    "\<And>i. i < st_sent gm \<Longrightarrow> mem s (st_out gm + i * LINE) = Some (chunk gm i) \<or> (\<exists>k. (k, Ev_Land (st_out gm + i * LINE) (chunk gm i)) \<in> set (q s))"
    using shootingE[OF assms(1)] by metis
  have t: "t = Ordered sid" using gm(8)[of k g t] assms(2) by simp
  note q' = assms(2)[unfolded t] and ok = invD(4)[OF assms(1) gm(2)]
  let ?s1 = "counted sid gm es s"
  have e: "then_go t (upd_m (\<lambda>m. m\<lparr>inflight := inflight m - 1\<rparr>) (s\<lparr>q := es\<rparr>))
      = (if st_ordered gm + 1 = st_need gm then end_cmd (head (modul s)) (st_d gm) DONE (st_index gm) ?s1 else ?s1)"
    using gm(2,3,5,6) ok by (simp add: t ordered_def Let_def counted_def gemm_ok_def)
  show ?thesis
  proof (cases "st_ordered gm + 1 = st_need gm")
    case True
    have "nev is_go es = 0" using shooting_gos[OF assms(1) gm(2)] ok True assms(2) by (auto simp: gemm_ok_def)
    then have "phase_ok ?s1 Quiet" using gm(1) by (simp add: running_def)
    then have "minv Quiet ?s1"
      using core_counted[OF assms(1) q' gm(2)] reads_go[OF assms(1) q'] gemms_counted[OF assms(1) q' gm(2), of _ _ Quiet] True
      by (simp add: minv_def)
    from minv_end_cmd[OF this, of "st_d gm" DONE "st_index gm"] show ?thesis
      using gm(1,7) True unfolding e by (auto simp: running_def final_def)
  next
    case False
    have "shooting ?s1 sid"
    proof -
      have "t' = Ordered sid" if "(k', Ev_Go g' t') \<in> set es" for k' g' t' using gm(8)[of k' g' t'] that assms(2) by simp
      moreover have "\<exists>i < st_sent gm. a' = st_out gm + i * LINE \<and> d' = chunk gm i" if "(k', Ev_Land a' d') \<in> set es" for k' a' d'
        using gm(9)[of k' a' d'] that assms(2) by simp
      moreover have "mem s (st_out gm + i * LINE) = Some (chunk gm i) \<or> (\<exists>k. (k, Ev_Land (st_out gm + i * LINE) (chunk gm i)) \<in> set es)"
        if "i < st_sent gm" for i using gm(10)[OF that] assms(2) by simp
      ultimately show ?thesis using gm(2-7) False unfolding shooting_def
        by (intro exI[of _ "gm\<lparr>st_ordered := st_ordered gm + 1\<rparr>"]) (auto simp: chunk_def)
    qed
    then have "phase_ok ?s1 (Shooting sid)" using gm(1) by (simp add: running_def)
    then have "minv (Shooting sid) ?s1"
      using core_counted[OF assms(1) q' gm(2)] reads_go[OF assms(1) q'] gemms_counted[OF assms(1) q' gm(2), of _ _ "Shooting sid"]
      by (simp add: minv_def)
    then show ?thesis using False unfolding e by auto
  qed
qed

lemma endingE:
  assumes "minv (Ending st) s"
  obtains k g rec where "running (modul s)" "final st" "nev is_go (q s) = 1"
    "(k, Ev_Go g (Ended (head (modul s)) st (job_no (modul s)))) \<in> set (q s)" "word_at 0x30 rec = st"
    "\<And>k a d. (k, Ev_Land a d) \<in> set (q s) \<Longrightarrow> a = slot (modul s) (head (modul s)) \<and> d = rec"
    "mem s (slot (modul s) (head (modul s))) = Some rec \<or> (\<exists>k. (k, Ev_Land (slot (modul s) (head (modul s))) rec) \<in> set (q s))"
  using invD(2)[OF assms] unfolding phase_ok.simps ending_def by blast

text \<open>When a record is acknowledged it is in memory, and it is the record of the slot at the head.\<close>

lemma record_landed:
  assumes "minv (Ending st) s" "q s = (k, Ev_Go g t) # es"
  shows "t = Ended (head (modul s)) st (job_no (modul s))" "nev is_go es = 0"
    "\<exists>rec. mem s (slot (modul s) (head (modul s))) = Some rec \<and> word_at 0x30 rec = st" "final st" "running (modul s)"
proof -
  obtain k' g' rec where e: "running (modul s)" "final st" "nev is_go (q s) = 1"
    "(k', Ev_Go g' (Ended (head (modul s)) st (job_no (modul s)))) \<in> set (q s)" "word_at 0x30 rec = st"
    "mem s (slot (modul s) (head (modul s))) = Some rec \<or> (\<exists>k. (k, Ev_Land (slot (modul s) (head (modul s))) rec) \<in> set (q s))"
    using endingE[OF assms(1)] by metis
  show n: "nev is_go es = 0" "final st" "running (modul s)" using e(1-3) assms(2) by simp_all
  then have "(k', Ev_Go g' (Ended (head (modul s)) st (job_no (modul s)))) \<notin> set es" unfolding nev_0 by force
  then show "t = Ended (head (modul s)) st (job_no (modul s))" using e(4) assms(2) by simp
  show "\<exists>rec. mem s (slot (modul s) (head (modul s))) = Some rec \<and> word_at 0x30 rec = st"
    using e(5,6) last_go[OF assms n(1)] by blast
qed

lemma regs_head:
  assumes "regs_ok m" "busy m"
  shows "regs_ok (m\<lparr>inflight := n, busy := False, head := take_bit 32 (head m + 1), prev := p\<rparr>)"
  using assms sub32_step[of "tail m" "head m"] take_bit_nat_less_exp[of 32 "head m + 1"]
  by (auto simp: regs_ok_def simp del: take_bit_Suc)

lemma minv_go_ending:
  assumes "minv (Ending st) s" "q s = (k, Ev_Go g t) # es"
  shows "\<exists>ph. minv ph (then_go t (upd_m (\<lambda>m. m\<lparr>inflight := inflight m - 1\<rparr>) (s\<lparr>q := es\<rparr>)))"
proof -
  note r = record_landed[OF assms] and c = coreD[OF invD(1)[OF assms(1)]]
  let ?s0 = "upd_m (\<lambda>m. m\<lparr>inflight := inflight m - 1\<rparr>) (s\<lparr>q := es\<rparr>)"
  let ?s2 = "upd_m (\<lambda>m. m\<lparr>head := take_bit 32 (head (modul s) + 1), prev := Some st\<rparr>) (upd_m (\<lambda>m. m\<lparr>busy := False\<rparr>) ?s0)"
  have e: "then_go t ?s0 = kick (irq (head (modul ?s2)) ?s2)"
    using r(5) c(1) by (simp add: r(1) ended_def Let_def running_def not_faulty)
  have run: "enable (modul s)" "enabled (modul s)" "\<not> draining (modul s)" "busy (modul s)" using r(5) by (simp_all add: running_def)
  have "core ?s2"
    using core_go[OF assms] regs_head[OF c(8) run(4), where p = "Some st" and n = "inflight (modul s) - 1"] by (simp add: core_def)
  moreover have "phase_ok ?s2 Quiet" using run r(2) by simp
  moreover have "gemm_ok Quiet (job_no (modul s)) es i g'" if "gemms s i = Some g'" for i g'
    using invD(4)[OF assms(1) that] assms(2) r(1) by (auto simp: gemm_ok_def)
  moreover have "read_ok Quiet (job_no (modul s)) es i r" if "reads s i = Some r" for i r using reads_go[OF assms that] by simp
  ultimately have "minv Quiet ?s2" by (simp add: minv_def)
  then have "minv Quiet (irq (head (modul ?s2)) ?s2)" by (auto simp: irq_def intro!: minv_sched)
  then show ?thesis unfolding e by (rule minv_kick)
qed

lemma minv_go_drain:
  assumes "minv Drain s" "q s = (k, Ev_Go g t) # es"
  shows "\<exists>ph. minv ph (then_go t (upd_m (\<lambda>m. m\<lparr>inflight := inflight m - 1\<rparr>) (s\<lparr>q := es\<rparr>)))"
proof -
  let ?s0 = "upd_m (\<lambda>m. m\<lparr>inflight := inflight m - 1\<rparr>) (s\<lparr>q := es\<rparr>)"
  have dead: "dead_go s t'" if "(k', Ev_Go g' t') \<in> set (q s)" for k' g' t' using invD(2)[OF assms(1)] that unfolding phase_ok.simps by blast
  have b: "\<not> busy (modul s)" using coreD(8)[OF invD(1)[OF assms(1)]] invD(2)[OF assms(1)] by (auto simp: regs_ok_def)
  have t: "dead_go s t" using dead[of k g t] assms(2) by simp
  have d0: "dead_go ?s0 = dead_go s" by (rule dead_go_cong) simp_all
  show ?thesis
  proof (cases "\<exists>sid gm. t = Ordered sid \<and> gemms s sid = Some gm")
    case True
    then obtain sid gm where g: "t = Ordered sid" "gemms s sid = Some gm" by blast
    then have "st_job gm \<noteq> job_no (modul s)" using t by (simp add: dead_go_def)
    then have "then_go t ?s0 = counted sid gm es s" using g by (simp add: ordered_def Let_def counted_def)
    then show ?thesis using minv_counted_dead[OF assms(1) _ g(2)] assms(2) g(1) by auto
  next
    case False
    have "gemm_ok Drain (job_no (modul s)) es i g'" if "gemms s i = Some g'" for i g'
      using invD(4)[OF assms(1) that] assms(2) False that by (cases t) (auto simp: gemm_ok_def of_bool_def split: if_splits)
    moreover have "dead_go s t'" if "(k', Ev_Go g' t') \<in> set es" for k' g' t' using dead[of k' g' t'] that assms(2) by simp
    then have "phase_ok ?s0 Drain" using invD(2)[OF assms(1)] d0 unfolding phase_ok.simps by simp
    ultimately have m: "minv Drain ?s0" using core_go[OF assms] reads_go[OF assms] by (simp add: minv_def)
    have "then_go t ?s0 = ?s0 \<or> then_go t ?s0 = upd_m (\<lambda>m. m\<lparr>busy := False\<rparr>) ?s0"
    proof (cases t)
      case (Ordered sid)
      then have "gemms s sid = None" using False by (cases "gemms s sid") auto
      then show ?thesis using Ordered by (simp add: ordered_def)
    next
      case (Ended i st jb)
      then show ?thesis using t by (simp add: ended_def dead_go_def Let_def)
    qed (use t in \<open>simp_all add: dead_go_def\<close>)
    moreover have "upd_m (\<lambda>m. m\<lparr>busy := False\<rparr>) ?s0 = ?s0" using b by (simp add: upd_m_def)
    ultimately show ?thesis using m by auto
  qed
qed

lemma minv_on_go:
  assumes "minv ph s" "q s = (k, Ev_Go g t) # es"
  shows "raised (on_go g t (s\<lparr>q := es\<rparr>)) \<noteq> None \<or> (\<exists>ph. minv ph (on_go g t (s\<lparr>q := es\<rparr>)))"
proof -
  let ?s1 = "then_go t (upd_m (\<lambda>m. m\<lparr>inflight := inflight m - 1\<rparr>) (s\<lparr>q := es\<rparr>))"
  have g: "g = gen (modul s)" using coreD(6)[OF invD(1)[OF assms(1)], of "(k, Ev_Go g t)"] assms(2) by simp
  have "raised ?s1 \<noteq> None \<or> (\<exists>ph. minv ph ?s1)"
  proof (cases ph)
    case Drain
    then show ?thesis using minv_go_drain[OF _ assms(2)] assms(1) by blast
  next
    case (Shooting sid)
    then show ?thesis using minv_go_shooting[OF _ assms(2)] assms(1) by blast
  next
    case (Ending st)
    then show ?thesis using minv_go_ending[OF _ assms(2)] assms(1) by blast
  qed (use invD(2)[OF assms(1)] assms(2) in simp_all)
  then show ?thesis using minv_settle[of _ ?s1] g by (auto simp: on_go_def Let_def)
qed

text \<open>A shot: the lines it sends are the GEMM's next ones.\<close>

lemma minv_send_line:
  assumes "minv (Shooting sid) s" "gemms s sid = Some g" "st_sent g < st_need g"
  shows "minv (Shooting sid) (send_line sid g (st_sent g) (s\<lparr>gemms := (gemms s)(sid \<mapsto> g\<lparr>st_sent := st_sent g + 1\<rparr>)\<rparr>))"
proof -
  let ?g = "g\<lparr>st_sent := st_sent g + 1\<rparr>" and ?a = "st_out g + st_sent g * LINE"
  let ?s1 = "s\<lparr>gemms := (gemms s)(sid \<mapsto> ?g)\<rparr>"
  let ?s2 = "send_line sid g (st_sent g) ?s1"
  have s2: "?s2 = write_line ?a (chunk g (st_sent g)) (Ordered sid) ?s1" by (simp add: send_line_def chunk_def)
  have memeq: "mem ?s2 = mem s" by (simp add: send_line_def)
  have ch: "chunk ?g = chunk g" by (simp add: chunk_def fun_eq_iff)
  obtain g' where g': "running (modul s)" "gemms s sid = Some g'" "st_job g' = job_no (modul s)" "st_ordered g' < st_need g'"
    "st_idx g' = head (modul s)" "st_status g' = DONE" "length (st_d g') = LINE" "\<And>k g t. (k, Ev_Go g t) \<in> set (q s) \<Longrightarrow> t = Ordered sid"
    "\<And>k a d. (k, Ev_Land a d) \<in> set (q s) \<Longrightarrow> \<exists>i < st_sent g'. a = st_out g' + i * LINE \<and> d = chunk g' i"
    "\<And>i. i < st_sent g' \<Longrightarrow> mem s (st_out g' + i * LINE) = Some (chunk g' i) \<or> (\<exists>k. (k, Ev_Land (st_out g' + i * LINE) (chunk g' i)) \<in> set (q s))"
    using shootingE[OF assms(1)] by metis
  have [simp]: "g' = g" using g'(2) assms(2) by simp
  note gm = g'[simplified]
  have c1: "core ?s1" using coreD[OF invD(1)[OF assms(1)]] assms(2) by (auto simp: core_def)
  have lt: "sid < fresh s" using coreD(7)[OF invD(1)[OF assms(1)], of sid] assms(2) by simp
  have core: "core ?s2" unfolding s2 by (rule core_write_line[OF c1]) (use lt in simp)
  obtain k k' where set: "set (q ?s2) = insert (k', Ev_Go (gen (modul s)) (Ordered sid)) (insert (k, Ev_Land ?a (chunk g (st_sent g))) (set (q s)))"
    using write_line_set[of ?a "chunk g (st_sent g)" "Ordered sid" ?s1] unfolding s2 by auto
  have "shooting ?s2 sid" unfolding shooting_def
  proof (intro exI[of _ ?g] conjI allI impI)
    fix k a d assume "(k, Ev_Land a d) \<in> set (q ?s2)"
    then show "\<exists>i < st_sent ?g. a = st_out ?g + i * LINE \<and> d = chunk ?g i"
      using gm(9)[of k a d] unfolding set ch by (auto simp: less_Suc_eq)
  next
    fix i assume i: "i < st_sent ?g"
    have "mem s (st_out g + i * LINE) = Some (chunk g i) \<or> (\<exists>k. (k, Ev_Land (st_out g + i * LINE) (chunk g i)) \<in> set (q ?s2))"
    proof (cases "i = st_sent g")
      case True
      then show ?thesis unfolding set by blast
    next
      case False
      then show ?thesis using gm(10)[of i] i unfolding set by auto
    qed
    then show "mem ?s2 (st_out ?g + i * LINE) = Some (chunk ?g i) \<or> (\<exists>k. (k, Ev_Land (st_out ?g + i * LINE) (chunk ?g i)) \<in> set (q ?s2))"
      using memeq unfolding ch by simp
  next
    fix k g'' t assume "(k, Ev_Go g'' t) \<in> set (q ?s2)"
    then show "t = Ordered sid" using gm(8)[of k g'' t] unfolding set by auto
  qed (use gm s2 in simp_all)
  then have "phase_ok ?s2 (Shooting sid)" using gm(1) s2 by (simp add: running_def)
  moreover have "read_ok (Shooting sid) (job_no (modul s)) (q ?s2) i r" if "reads s i = Some r" for i r
    using invD(3)[OF assms(1) that] s2 by (simp add: read_ok_def write_line_nev)
  moreover have "gemm_ok (Shooting sid) (job_no (modul s)) (q ?s2) i h" if "gemms ?s1 i = Some h" for i h
  proof (cases "i = sid")
    case True
    have "nev (orders_for sid) (q ?s2) = nev (orders_for sid) (q s) + 1" unfolding s2 by (simp add: write_line_nev)
    then show ?thesis using True invD(4)[OF assms(1,2)] that assms(3) by (auto simp: gemm_ok_def)
  next
    case False
    have "nev (orders_for i) (q ?s2) = nev (orders_for i) (q s)" unfolding s2 using False by (simp add: write_line_nev)
    then show ?thesis using False invD(4)[OF assms(1), of i h] that by (auto simp: gemm_ok_def)
  qed
  ultimately show ?thesis using core s2 by (simp add: minv_def)
qed

lemma send_line_gemms: "send_line sid g i (s\<lparr>gemms := G\<rparr>) = (send_line sid g i s)\<lparr>gemms := G\<rparr>"
  by (simp add: send_line_def write_line_def Let_def sched_def drawn_def upd_m_def jitter_def)

lemma send_line_sent: "send_line sid (g\<lparr>st_sent := n\<rparr>) = send_line sid g"
  by (simp add: send_line_def fun_eq_iff)

lemma minv_send_lines:
  assumes "minv (Shooting sid) s" "gemms s sid = Some g" "st_sent g \<le> full" "full \<le> st_need g"
  shows "minv (Shooting sid) (fold (send_line sid g) [st_sent g..<full] (s\<lparr>gemms := (gemms s)(sid \<mapsto> g\<lparr>st_sent := full\<rparr>)\<rparr>))"
  using assms
proof (induction "full - st_sent g" arbitrary: s g)
  case 0
  then have "g\<lparr>st_sent := full\<rparr> = g" "(gemms s)(sid \<mapsto> g) = gemms s" by auto
  then show ?case using 0 by simp
next
  case (Suc n)
  let ?g1 = "g\<lparr>st_sent := st_sent g + 1\<rparr>"
  let ?s1 = "send_line sid g (st_sent g) (s\<lparr>gemms := (gemms s)(sid \<mapsto> ?g1)\<rparr>)"
  have lt: "st_sent g < full" using Suc.hyps(2) by simp
  have "minv (Shooting sid) ?s1" using minv_send_line[OF Suc.prems(1,2)] lt Suc.prems(4) by simp
  moreover have g1: "gemms ?s1 sid = Some ?g1" by (simp add: send_line_def)
  moreover have "n = full - st_sent ?g1" using Suc.hyps(2) by simp
  ultimately have "minv (Shooting sid) (fold (send_line sid ?g1) [st_sent ?g1..<full] (?s1\<lparr>gemms := (gemms ?s1)(sid \<mapsto> ?g1\<lparr>st_sent := full\<rparr>)\<rparr>))"
    using Suc.hyps(1)[of ?g1 ?s1] lt Suc.prems(4) by simp
  moreover have "gemms ?s1 = (gemms s)(sid \<mapsto> ?g1)" by (simp add: send_line_def)
  then have "?s1\<lparr>gemms := (gemms ?s1)(sid \<mapsto> ?g1\<lparr>st_sent := full\<rparr>)\<rparr>
      = send_line sid g (st_sent g) (s\<lparr>gemms := (gemms s)(sid \<mapsto> g\<lparr>st_sent := full\<rparr>)\<rparr>)"
    by (simp add: send_line_gemms)
  moreover have "[st_sent g..<full] = st_sent g # [st_sent ?g1..<full]" using lt by (simp add: upt_conv_Cons)
  ultimately show ?case by (simp add: send_line_sent)
qed

lemma minv_shot:
  assumes "minv ph s"
  shows "minv ph (shot sid m s)"
proof (cases "\<exists>g. gemms s sid = Some g \<and> st_job g = job_no (modul s)")
  case False
  then have "shot sid m s = s" by (auto simp: shot_def split: option.split)
  then show ?thesis using assms by simp
next
  case True
  then obtain g where g: "gemms s sid = Some g" "st_job g = job_no (modul s)" by blast
  note ok = invD(4)[OF assms g(1)]
  let ?full = "full_lines g m"
  let ?s2 = "fold (send_line sid g) [st_sent g..<?full] (s\<lparr>gemms := (gemms s)(sid \<mapsto> g\<lparr>st_sent := max (st_sent g) ?full\<rparr>)\<rparr>)"
  have e: "shot sid m s = (if m + 1 < st_M g then sched 1 1 (Ev_Shot sid (m + 1)) ?s2 else ?s2)"
    using g ok by (simp add: shot_def Let_def gemm_ok_def)
  have "minv ph ?s2"
  proof (cases "st_sent g < ?full")
    case True
    have le: "?full \<le> st_need g" by (simp add: full_lines_def)
    then have "st_ordered g < st_need g" using True ok by (auto simp: gemm_ok_def)
    then have "ph = Shooting sid" using ok g(2) by (simp add: gemm_ok_def)
    then show ?thesis using minv_send_lines[OF _ g(1) _ le] assms True by simp
  next
    case False
    then have "max (st_sent g) ?full = st_sent g" by simp
    moreover have "(gemms s)(sid \<mapsto> g) = gemms s" using g(1) by auto
    ultimately show ?thesis using assms False by simp
  qed
  then show ?thesis unfolding e by (auto intro!: minv_sched)
qed

text \<open>Register writes.\<close>

lemma minv_write_tail:
  assumes "minv ph s" "val < 2 ^ 32"
  shows "\<exists>ph'. minv ph' (write_tail val s)"
proof -
  let ?s1 = "upd_m (\<lambda>m. m\<lparr>tail := val\<rparr>) s" and ?m = "modul s"
  note r = coreD(8)[OF invD(1)[OF assms(1)]]
  show ?thesis
  proof (cases "enable ?m \<and> (sub32 val (head ?m) > 2 ^ size_log2 ?m \<or> sub32 val (tail ?m) > 2 ^ 31)")
    case True
    have "minv ph (upd_m (\<lambda>m. m\<lparr>halted := HALT_DOORBELL\<rparr>) s)"
      by (rule minv_module[OF assms(1)]) (use r in \<open>simp_all add: regs_ok_def\<close>)
    then show ?thesis using True by (auto simp: write_tail_def Let_def)
  next
    case False
    have "val \<noteq> head ?m" if "busy ?m"
    proof
      assume v: "val = head ?m"
      have b: "head ?m \<noteq> tail ?m" "tail ?m < 2 ^ 32" "head ?m < 2 ^ 32" "sub32 (tail ?m) (head ?m) \<le> 2 ^ size_log2 ?m" "size_log2 ?m \<le> 30"
        "enable ?m"
        using r that by (auto simp: regs_ok_def)
      have "(2 :: nat) ^ size_log2 ?m \<le> 2 ^ 30" using b(5) by (intro power_increasing) simp_all
      then have "sub32 (head ?m) (tail ?m) > 2 ^ 31" using sub32_neg[OF b(2,3)] b(1,4) by simp
      then show False using False b(6) v by simp
    qed
    then have "regs_ok (modul ?s1)" using r assms(2) False by (auto simp: regs_ok_def)
    then have m: "minv ph ?s1" by (intro minv_module[OF assms(1)]) simp_all
    show ?thesis
    proof (cases "enable ?m \<and> ph = Quiet")
      case True
      then show ?thesis using False m minv_kick[of ?s1] by (auto simp: write_tail_def Let_def)
    next
      case not: False
      have "busy ?m" if "enable ?m" using invD(2)[OF assms(1)] not that by (cases ph) (auto simp: running_def)
      then have "write_tail val s = ?s1" using False by (auto simp: write_tail_def kick_def Let_def)
      then show ?thesis using m by auto
    qed
  qed
qed

lemma minv_write_ctrl:
  assumes "minv ph s" "bit val 0 \<longrightarrow> \<not> draining (modul s)"
  shows "\<exists>ph'. minv ph' (write_ctrl val s)"
proof -
  let ?s1 = "upd_m (\<lambda>m. m\<lparr>irq_en := bit val 1\<rparr>) s" and ?m = "modul s"
  note r = coreD(8)[OF invD(1)[OF assms(1)]]
  have m1: "minv ph ?s1" by (rule minv_module[OF assms(1)]) (use r in \<open>simp_all add: regs_ok_def\<close>)
  consider (on) "bit val 0" "\<not> enable ?m" | (off) "\<not> bit val 0" "enable ?m" | (same) "bit val 0 = enable ?m" by blast
  then show ?thesis
  proof cases
    case on
    let ?s2 = "upd_m (\<lambda>m. m\<lparr>enable := True, enabled := True, head := tail m, prev := None, halted := 0\<rparr>) ?s1"
    have ph: "ph = Quiet" using invD(2)[OF assms(1)] on assms(2) by (cases ph) (auto simp: running_def)
    have b: "\<not> busy ?m" using r on by (simp add: regs_ok_def)
    have "core ?s2" using coreD[OF invD(1)[OF m1]] b by (simp add: core_def regs_ok_def)
    moreover have "phase_ok ?s2 Quiet" using invD(2)[OF m1] ph by simp
    ultimately have "minv Quiet ?s2" using m1 ph by (simp add: minv_def)
    from minv_kick[OF this] show ?thesis using on by (simp add: write_ctrl_def Let_def)
  next
    case off
    let ?s2 = "upd_m (\<lambda>m. m\<lparr>job_no := job_no m + 1, busy := False, draining := True\<rparr>) (upd_m (\<lambda>m. m\<lparr>enable := False\<rparr>) ?s1)"
    have e: "write_ctrl val s = settle ?s2"
      using off coreD(1)[OF invD(1)[OF assms(1)]] by (simp add: write_ctrl_def Let_def)
    have "enabled ?m" using invD(2)[OF assms(1)] off by (cases ph) (auto simp: running_def)
    have dead: "dead_go ?s2 t" if go: "(k, Ev_Go g t) \<in> set (q s)" for k g t
    proof (cases t)
      case (Ordered sid)
      then show ?thesis using invD(4)[OF assms(1), of sid] by (auto simp: dead_go_def gemm_ok_def)
    next
      case (Ended i st jb)
      have some: "nev is_go (q s) \<noteq> 0" using go unfolding nev_0 by force
      obtain st' where ph: "ph = Ending st'"
      proof (cases ph)
        case (Shooting sid)
        then obtain gm where "\<And>k g' t. (k, Ev_Go g' t) \<in> set (q s) \<Longrightarrow> t = Ordered sid" using shootingE[of sid s] assms(1) by metis
        then show ?thesis using go Ended by blast
      qed (use invD(2)[OF assms(1)] some off that in simp_all)
      then obtain k' g' where u: "(k', Ev_Go g' (Ended (head ?m) st' (job_no ?m))) \<in> set (q s)" "nev is_go (q s) = 1"
        using endingE[of st' s] assms(1) by metis
      have "(k, Ev_Go g t) = (k', Ev_Go g' (Ended (head ?m) st' (job_no ?m)))"
        using nev_one[OF u(2) go u(1)] by simp
      then show ?thesis using Ended by (simp add: dead_go_def)
    qed (use coreD(6)[OF invD(1)[OF assms(1)] go] in \<open>simp_all\<close>)
    have "core ?s2" using coreD[OF invD(1)[OF m1]] by (simp add: core_def regs_ok_def)
    moreover have "phase_ok ?s2 Drain" using dead \<open>enabled ?m\<close> unfolding phase_ok.simps by simp
    moreover have "read_ok Drain (job_no ?m + 1) (q s) i r" if "reads s i = Some r" for i r
      using invD(3)[OF assms(1) that] by (auto simp: read_ok_def)
    moreover have "gemm_ok Drain (job_no ?m + 1) (q s) i g" if "gemms s i = Some g" for i g
      using invD(4)[OF assms(1) that] by (auto simp: gemm_ok_def)
    ultimately have "minv Drain ?s2" by (simp add: minv_def)
    from minv_settle[OF this] show ?thesis unfolding e .
  next
    case same
    then have "write_ctrl val s = ?s1" by (simp add: write_ctrl_def Let_def)
    then show ?thesis using m1 by auto
  qed
qed

lemma minv_on_write:
  assumes "minv ph s" "reg_ok (Ev_Write off val)" "off = PTQ_CTRL \<and> bit val 0 \<longrightarrow> \<not> draining (modul s)"
  shows "\<exists>ph'. minv ph' (on_write off val s)"
proof -
  note r = coreD(8)[OF invD(1)[OF assms(1)]]
  have upd: "\<exists>ph'. minv ph' (upd_m f s)" if "\<And>m. gen (f m) = gen m" "\<And>m. job_no (f m) = job_no m" "\<And>m. enable (f m) = enable m"
    "\<And>m. enabled (f m) = enabled m" "\<And>m. inflight (f m) = inflight m" "\<And>m. busy (f m) = busy m" "\<And>m. draining (f m) = draining m"
    "\<And>m. head (f m) = head m" "\<And>m. tail (f m) = tail m" "enable (modul s) \<Longrightarrow> base (f (modul s)) = base (modul s) \<and> size_log2 (f (modul s)) = size_log2 (modul s)"
    "size_log2 (f (modul s)) \<le> 30" for f
    using minv_module[OF assms(1), of f] that r by (auto simp: regs_ok_def)
  have sz: "size_log2 (modul s) \<le> 30" using r by (simp add: regs_ok_def)
  have neq: "PTQ_TAIL \<noteq> PTQ_CTRL" "PTQ_BASE_LO \<noteq> PTQ_CTRL" "PTQ_BASE_HI \<noteq> PTQ_CTRL" "PTQ_SIZE \<noteq> PTQ_CTRL" by (simp_all add: reg_defs)
  have seed: "\<exists>ph'. minv ph' (write_seed val s)"
  proof -
    let ?s1 = "if head (modul s) \<noteq> tail (modul s) \<or> busy (modul s) then fail C11 s else s"
    have "minv ph ?s1" using minv_queue[OF assms(1), of ?s1] coreD(3,6)[OF invD(1)[OF assms(1)]]
      by (auto simp: same_writes_def)
    from minv_module[OF this, of "\<lambda>m. m\<lparr>seed := val, gemm_ct := 0\<rparr>"] show ?thesis
      using r by (auto simp: write_seed_def Let_def regs_ok_def)
  qed
  have lo: "\<not> enable (modul s) \<Longrightarrow> \<exists>ph'. minv ph' (upd_m (\<lambda>m. m\<lparr>base := push_bit 32 (drop_bit 32 (base m)) OR val\<rparr>) s)"
    by (rule upd) (use sz in simp_all)
  have hi: "\<not> enable (modul s) \<Longrightarrow> \<exists>ph'. minv ph' (upd_m (\<lambda>m. m\<lparr>base := take_bit 32 (base m) OR push_bit 32 val\<rparr>) s)"
    by (rule upd) (use sz in simp_all)
  have size: "\<not> enable (modul s) \<Longrightarrow> off = PTQ_SIZE \<Longrightarrow> \<exists>ph'. minv ph' (upd_m (\<lambda>m. m\<lparr>size_log2 := val\<rparr>) s)"
    by (rule upd) (use assms(2) in simp_all)
  have irq: "\<exists>ph'. minv ph' (upd_m (\<lambda>m. m\<lparr>irq_at := val\<rparr>) s)" by (rule upd) (use sz in simp_all)
  have ctrl: "off = PTQ_CTRL \<Longrightarrow> \<exists>ph'. minv ph' (write_ctrl val s)" using minv_write_ctrl[OF assms(1), of val] assms(3) by blast
  have tail: "off = PTQ_TAIL \<Longrightarrow> \<exists>ph'. minv ph' (write_tail val s)" using minv_write_tail[OF assms(1), of val] assms(2) by simp
  have keep: "\<exists>ph'. minv ph' s" using assms(1) by blast
  have ifI: "\<exists>ph'. minv ph' (if c then a else b)" if "c \<Longrightarrow> \<exists>ph'. minv ph' a" "\<not> c \<Longrightarrow> \<exists>ph'. minv ph' b" for c a b
    using that by simp
  show ?thesis
    unfolding on_write_def by (intro ifI keep ctrl lo hi size tail irq seed)
qed

end
