(* ===== verification/Transport_Claims.thy ===== *)
theory Transport_Claims
  imports Transport_Module
begin

text \<open>
  What the module promises the host, with nothing planted: every step of \<open>mstep\<close> keeps the invariant, and from it the
  rules of the design that the simulation checks as it runs (its C5, C9 and the order behind its C1) follow for
  every order of delivery.
\<close>

section \<open>Every step keeps the invariant\<close>

definition sound :: "sim \<Rightarrow> bool" where
  "sound s \<longleftrightarrow> raised s \<noteq> None \<or> (\<exists>ph. minv ph s)"

lemma soundI: "minv ph s \<Longrightarrow> sound s"
  by (auto simp: sound_def)

lemma minv_outside:
  assumes "minv ph s" "modul s' = modul s" "mem s' = mem s" "reads s' = reads s" "gemms s' = gemms s" "q s' = q s"
    "planted_fault s' = planted_fault s" "raised s' = raised s" "fresh s' = fresh s"
  shows "minv ph s'"
  by (rule minv_queue[OF assms(1)])
    (use assms coreD(3,6)[OF invD(1)[OF assms(1)]] in \<open>simp_all add: same_writes_def\<close>)

lemma minv_on_at_host:
  assumes "minv ph s" "q s = (k, Ev_At_Host rid a) # es"
  shows "minv ph (on_at_host rid a (s\<lparr>q := es\<rparr>))"
proof -
  obtain d s1 where r: "as_read_by_module a (s\<lparr>q := es\<rparr>) = (d, s1)" by force
  then have s1: "modul s1 = modul s" "mem s1 = mem s" "reads s1 = reads s" "gemms s1 = gemms s" "q s1 = es"
    "planted_fault s1 = planted_fault s" "raised s1 = raised s" "fresh s1 = fresh s"
    by (auto simp: as_read_by_module_def split: option.splits)
  have e: "on_at_host rid a (s\<lparr>q := es\<rparr>) = sched L 1 (Ev_Back rid a d) s1" using r by (simp add: on_at_host_def)
  note c = coreD[OF invD(1)[OF assms(1)]]
  show ?thesis unfolding e
  proof (rule minv_queue[OF assms(1)])
    show "same_writes (q s) (q (sched L 1 (Ev_Back rid a d) s1))" by (auto simp: same_writes_def set_insort_key s1 assms(2))
    show "sorted (map fst (q (sched L 1 (Ev_Back rid a d) s1)))" using c(3) assms(2) s1 by (simp add: sorted_insort_key)
    show "nev (reads_for i) (q (sched L 1 (Ev_Back rid a d) s1)) \<le> nev (reads_for i) (q s)" for i by (simp add: s1 assms(2))
    show "ev_ok (fresh s) (gen (modul s)) (snd x)" if "x \<in> set (q (sched L 1 (Ev_Back rid a d) s1))" for x
      using that c(6)[of x] c(6)[of "(k, Ev_At_Host rid a)"] assms(2) s1 by (auto simp: set_insort_key)
  qed (simp_all add: s1)
qed

lemma fold_fail_modul:
  "modul (fold (\<lambda>idx s. if P idx s then fail c s else s) xs s) = modul s"
  "mem (fold (\<lambda>idx s. if P idx s then fail c s else s) xs s) = mem s"
  "reads (fold (\<lambda>idx s. if P idx s then fail c s else s) xs s) = reads s"
  "gemms (fold (\<lambda>idx s. if P idx s then fail c s else s) xs s) = gemms s"
  "q (fold (\<lambda>idx s. if P idx s then fail c s else s) xs s) = q s"
  "planted_fault (fold (\<lambda>idx s. if P idx s then fail c s else s) xs s) = planted_fault s"
  "fresh (fold (\<lambda>idx s. if P idx s then fail c s else s) xs s) = fresh s"
  by (rule fold_same, simp)+

lemma minv_msi: "minv ph s \<Longrightarrow> minv ph (msi s)"
  unfolding msi_def Let_def
  by (rule minv_outside)
    (simp_all add: fold_fail_modul[where P = "\<lambda>idx sa. idx \<notin> h_ended (host s) \<and> status sa idx = PENDING"]
      fold_fail_same[where P = "\<lambda>idx sa. idx \<notin> h_ended (host s) \<and> status sa idx = PENDING"])

lemma sound_pop:
  assumes "minv ph s" "due s" "polite s"
  shows "sound (pop s)"
proof -
  obtain k e es where q: "q s = (k, e) # es" using assms(2) by (cases "q s") (auto simp: due_def)
  have pop: "pop s = dispatch e (s\<lparr>q := es\<rparr>)" by (simp add: pop_def q)
  have ev: "ev_ok (fresh s) (gen (modul s)) e" using coreD(6)[OF invD(1)[OF assms(1)], of "(k, e)"] q by simp
  have rest: "minv ph (s\<lparr>q := es\<rparr>)" if "\<not> is_go e" "\<And>a d. e \<noteq> Ev_Land a d" using minv_pop[OF assms(1) q] that by simp
  show ?thesis
  proof (cases e)
    case (Ev_Write off val)
    have "minv ph (s\<lparr>q := es\<rparr>)" by (rule rest) (simp_all add: Ev_Write)
    then have "\<exists>ph'. minv ph' (on_write off val (s\<lparr>q := es\<rparr>))"
      by (rule minv_on_write) (use ev assms(3) q Ev_Write in \<open>auto simp: polite_def\<close>)
    then show ?thesis using pop Ev_Write by (auto simp: sound_def)
  next
    case (Ev_Read off b)
    have "minv ph (s\<lparr>q := es\<rparr>)" by (rule rest) (simp_all add: Ev_Read)
    then have "minv ph (on_read off b (s\<lparr>q := es\<rparr>))" unfolding on_read_def Let_def by (rule minv_sched) simp_all
    then show ?thesis using pop Ev_Read by (auto intro: soundI)
  next
    case (Ev_Box b v)
    have "minv ph (s\<lparr>q := es\<rparr>)" by (rule rest) (simp_all add: Ev_Box)
    then have "minv ph (s\<lparr>q := es, boxes := (boxes s)(b := boxes s b @ [v])\<rparr>)" by (rule minv_outside) simp_all
    then show ?thesis using pop Ev_Box by (auto intro: soundI)
  next
    case (Ev_At_Host rid a)
    then show ?thesis using minv_on_at_host[OF assms(1)] q pop by (auto intro: soundI)
  next
    case (Ev_Back rid a d)
    then show ?thesis using minv_on_back[OF assms(1)] q pop by (auto simp: sound_def)
  next
    case (Ev_Land a d)
    then show ?thesis using minv_land[OF assms(1)] q pop by (auto intro: soundI)
  next
    case (Ev_Go g t)
    then show ?thesis using minv_on_go[OF assms(1)] q pop by (auto simp: sound_def)
  next
    case (Ev_Shot sid m)
    have "minv ph (s\<lparr>q := es\<rparr>)" by (rule rest) (simp_all add: Ev_Shot)
    from minv_shot[OF this] show ?thesis using pop Ev_Shot by (auto intro: soundI)
  next
    case Ev_Msi
    have "minv ph (s\<lparr>q := es\<rparr>)" by (rule rest) (simp_all add: Ev_Msi)
    from minv_msi[OF this] show ?thesis using pop Ev_Msi by (auto intro: soundI)
  qed (use ev in simp)
qed

lemma minv_host_store:
  assumes "minv ph s" "\<not> owned s a"
  shows "minv ph (s\<lparr>mem := (mem s)(a \<mapsto> d)\<rparr>)"
proof -
  let ?s = "s\<lparr>mem := (mem s)(a \<mapsto> d)\<rparr>"
  have "phase_ok ?s ph"
  proof (cases ph)
    case (Shooting sid)
    then have sh: "running (modul s)" "shooting s sid" using invD(2)[OF assms(1)] by simp_all
    then obtain g where g: "gemms s sid = Some g" "st_job g = job_no (modul s)" by (auto simp: shooting_def)
    have le: "st_sent g \<le> st_n g" using invD(4)[OF assms(1) g(1)] by (simp add: gemm_ok_def)
    have "a \<noteq> st_out g + i * LINE" if "i < st_sent g" for i using assms(2) g that le unfolding owned_def by (metis order_less_le_trans)
    then have "shooting ?s sid" using sh(2) g(1) unfolding shooting_def by auto
    then show ?thesis using sh(1) Shooting by simp
  next
    case (Ending st)
    then have "running (modul s)" "ending s st" using invD(2)[OF assms(1)] by simp_all
    moreover from this have "a \<noteq> slot (modul s) (head (modul s))" using assms(2) by (auto simp: owned_def running_def)
    ultimately show ?thesis using Ending by (simp add: ending_def)
  next
    case Drain
    have "dead_go ?s = dead_go s" by (rule dead_go_cong) simp_all
    then show ?thesis using invD(2)[OF assms(1)] Drain by simp
  qed (use invD(2)[OF assms(1)] in \<open>simp_all add: reading_def\<close>)
  then show ?thesis using assms(1) by (simp add: minv_def core_def)
qed

lemma sound_mstep:
  assumes "mstep s s'" "sound s"
  shows "sound s'"
  using assms(1)
proof cases
  case deliver
  then show ?thesis using assms(2) sound_pop by (auto simp: sound_def)
next
  case tick
  have "minv ph s'" if "minv ph s" for ph by (rule minv_outside[OF that]) (simp_all add: tick)
  then show ?thesis using assms(2) tick(1) by (auto simp: sound_def)
next
  case (access e dt prio)
  have "innocent e" "ev_ok (fresh s) (gen (modul s)) e" using access(2) by (cases e; simp)+
  then show ?thesis using assms(2) access(1) minv_sched by (fastforce simp: sound_def)
next
  case (host_store a d)
  then show ?thesis using assms(2) minv_host_store[of _ s a d] by (auto simp: sound_def)
next
  case (host_vars h b f)
  have "minv ph s'" if "minv ph s" for ph by (rule minv_outside[OF that]) (simp_all add: host_vars)
  then show ?thesis using assms(2) host_vars by (auto simp: sound_def)
next
  case (wedge w)
  have "minv ph s'" if "minv ph s" for ph unfolding wedge
    by (rule minv_module[OF that]) (use coreD(8)[OF invD(1)[OF that]] in \<open>simp_all add: regs_ok_def\<close>)
  then show ?thesis using assms(2) wedge by (auto simp: sound_def)
qed

lemma minv_powered_on: "minv Quiet (powered_on link_raw)"
  by (simp add: minv_def powered_on_def new_sim_def core_def paired_def regs_ok_def reset_def module_init_def)

lemma reached_inv:
  assumes "reached s" "raised s = None"
  shows "\<exists>ph. minv ph s"
proof -
  have "sound s" using assms(1)
    by induction (auto intro: soundI minv_powered_on sound_mstep)
  then show ?thesis using assms(2) by (simp add: sound_def)
qed

section \<open>What the head does\<close>

named_theorems head_same

lemma head_read_lines [head_same]: "head (modul (read_lines as t s)) = head (modul s)" "prev (modul (read_lines as t s)) = prev (modul s)"
  using fold_request_same by (simp_all add: read_lines_def Let_def)

lemma head_kick [head_same]: "head (modul (kick s)) = head (modul s)" "prev (modul (kick s)) = prev (modul s)"
  by (simp_all add: kick_def Let_def head_same)

lemma raised_kick: "raised (kick s) = raised s"
  using fold_request_same by (simp add: kick_def read_lines_def Let_def)

lemma head_settle [head_same]: "head (modul (settle s)) = head (modul s)" "prev (modul (settle s)) = prev (modul s)"
  by (simp_all add: settle_def)

lemma head_irq [head_same]: "modul (irq n s) = modul s"
  by (simp add: irq_def)

lemma head_end_cmd [head_same]: "planted_fault s = None \<Longrightarrow> head (modul (end_cmd i d st ix s)) = head (modul s)"
  by (simp add: end_cmd_def record_write_def Let_def split: sum.split)

lemma head_ordered [head_same]: "planted_fault s = None \<Longrightarrow> head (modul (ordered sid s)) = head (modul s)"
  by (simp add: ordered_def Let_def head_same split: option.split)

lemma head_fold_send [head_same]:
  "head (modul (fold (send_line sid g) xs s)) = head (modul s)" "planted_fault (fold (send_line sid g) xs s) = planted_fault s"
  by (rule fold_same[where g = "\<lambda>s. head (modul s)"], simp add: send_line_def)
    (rule fold_same[where g = planted_fault], simp add: send_line_def)

lemma head_shot [head_same]: "planted_fault s = None \<Longrightarrow> head (modul (shot sid m s)) = head (modul s)"
  by (simp add: shot_def Let_def head_same split: option.split)

lemma head_then_read [head_same]: "planted_fault s = None \<Longrightarrow> head (modul (then_read t ds s)) = head (modul s)"
proof (cases t)
  case (Got_Descriptor i)
  then show "planted_fault s = None \<Longrightarrow> ?thesis"
    by (simp add: got_descriptor_def start_def Let_def head_same split: sum.split)
next
  case (Shots i d M K N out ix sd nw st)
  then show "planted_fault s = None \<Longrightarrow> ?thesis" by (simp add: shots_def Let_def split: sum.split)
qed

lemma head_on_back [head_same]: "planted_fault s = None \<Longrightarrow> head (modul (on_back rid a d s)) = head (modul s)"
  by (simp add: on_back_def Let_def head_same split: option.split)

lemma head_on_write [head_same]: "enable (modul s) \<Longrightarrow> head (modul (on_write off val s)) = head (modul s)"
  by (auto simp: on_write_def write_ctrl_def write_tail_def write_seed_def Let_def head_same)

lemma head_dispatch:
  assumes "planted_fault s = None" "enable (modul s)" "\<not> is_go e" "e \<noteq> Ev_Reset"
  shows "head (modul (dispatch e s)) = head (modul s)"
  using assms
  by (cases e) (simp_all add: head_same on_read_def Let_def on_at_host_def as_read_by_module_def land_def landing_same msi_def
      fold_fail_modul[where P = "\<lambda>idx sa. idx \<notin> h_ended (host s) \<and> status sa idx = PENDING"] split: option.split)

section \<open>What the module promises\<close>

text \<open>[C3] In every state reached from power-on (\<open>reached\<close>: nothing planted, any delays, 32-bit doorbells, no reset, no enabling of a queue
  that still drains), while the status register reads stopped nothing the module wrote is still on its way.\<close>

theorem stopped_is_quiet:
  assumes "reached s" "raised s = None" "\<not> bit (status_reg (modul s)) 0"
  shows "inflight (modul s) = 0 \<and> (\<forall>k a d. (k, Ev_Land a d) \<notin> set (q s))"
proof -
  obtain ph where inv: "minv ph s" using reached_inv[OF assms(1,2)] by blast
  note c = coreD[OF invD(1)[OF inv]]
  have "\<not> enabled (modul s)" using assms(3) by (auto simp: status_reg_def bit_0 even_or_iff)
  then have "nev is_go (q s) = 0" using invD(2)[OF inv] by (cases ph) (auto simp: running_def)
  then show ?thesis using c(4) paired_no_go[OF c(5)] by simp
qed

text \<open>[C1] In every state reached from power-on (\<open>reached\<close>: nothing planted, any delays, 32-bit doorbells, no reset, no enabling of a queue
  that still drains, no host store to a line the module owns), a delivery that moves \<open>PTQ_HEAD\<close> while the queue is enabled
  moves it by one slot, and only past a slot whose record is in host memory with its final status.  An \<open>ENABLE\<close> from 0 to 1,
  which sets \<open>PTQ_HEAD\<close> to \<open>PTQ_TAIL\<close>, is not such a delivery.\<close>

theorem head_follows_status:
  assumes "reached s" "raised s = None" "due s" "polite s" "enable (modul s)" "head (modul (pop s)) \<noteq> head (modul s)"
  shows "head (modul (pop s)) = take_bit 32 (head (modul s) + 1)
    \<and> (\<exists>rec st. mem s (slot (modul s) (head (modul s))) = Some rec \<and> word_at 0x30 rec = st \<and> final st \<and> prev (modul (pop s)) = Some st)"
proof -
  obtain ph where inv: "minv ph s" using reached_inv[OF assms(1,2)] by blast
  note c = coreD[OF invD(1)[OF inv]]
  obtain k e es where q: "q s = (k, e) # es" using assms(3) by (cases "q s") (auto simp: due_def)
  have pop: "pop s = dispatch e (s\<lparr>q := es\<rparr>)" by (simp add: pop_def q)
  have "ev_ok (fresh s) (gen (modul s)) e" using c(6)[of "(k, e)"] q by simp
  then have "e \<noteq> Ev_Reset" by auto
  then have "is_go e" using head_dispatch[of "s\<lparr>q := es\<rparr>" e] assms(5,6) c(1) pop by auto
  then have "\<exists>g t. e = Ev_Go g t" by (cases e) auto
  then obtain g t where e: "e = Ev_Go g t" by blast
  have g: "g = gen (modul s)" using c(6)[of "(k, e)"] q e by simp
  show ?thesis
  proof (cases "\<exists>st. ph = Ending st")
    case True
    then obtain st where st: "minv (Ending st) s" using inv by blast
    note r = record_landed[OF st q[unfolded e]]
    have "pop s = settle (kick (irq (take_bit 32 (head (modul s) + 1))
        (upd_m (\<lambda>m. m\<lparr>head := take_bit 32 (head (modul s) + 1), prev := Some st\<rparr>) (upd_m (\<lambda>m. m\<lparr>busy := False\<rparr>)
          (upd_m (\<lambda>m. m\<lparr>inflight := inflight m - 1\<rparr>) (s\<lparr>q := es\<rparr>))))))" (is "_ = settle ?k")
    proof -
      have "raised ?k = None" using c(2) by (simp add: raised_kick irq_def)
      then show ?thesis using pop e g r(1) c(1) assms(5) by (simp add: on_go_def ended_def Let_def)
    qed
    then show ?thesis using r(3,4) by (auto simp: head_same)
  next
    case False
    have "\<exists>sid. t = Ordered sid"
    proof (cases ph)
      case (Shooting sid)
      then show ?thesis using shootingE[of sid s] inv q e by (metis list.set_intros(1))
    qed (use invD(2)[OF inv] q e False assms(5) in simp_all)
    then have "head (modul (pop s)) = head (modul s)" using pop e c(1) g by (auto simp: on_go_def Let_def head_same)
    then show ?thesis using assms(6) by simp
  qed
qed

text \<open>[C2] A GEMM's record is not written before its results: in every state reached from power-on (\<open>reached\<close>), when the last result
  line is acknowledged, which is when the module writes the record, every line of the results is in host memory.\<close>

theorem results_before_record:
  assumes "reached s" "raised s = None" "q s = (k, Ev_Go g (Ordered sid)) # es" "gemms s sid = Some gm"
    "st_job gm = job_no (modul s)" "st_ordered gm + 1 = st_need gm" "i < st_n gm"
  shows "mem s (st_out gm + i * LINE) = Some (take LINE (drop (i * LINE) (st_raw gm)))"
proof -
  obtain ph where inv: "minv ph s" using reached_inv[OF assms(1,2)] by blast
  then have "ph = Shooting sid" using invD(4)[OF inv assms(4)] assms(5,6) by (simp add: gemm_ok_def)
  then show ?thesis using results_landed[of sid s k g "Ordered sid" es gm i] inv assms(3-7) by (simp add: chunk_def)
qed

text \<open>[C10] In every state reached from power-on (\<open>reached\<close>), while the queue is enabled the slots from head to tail are never more than
  the ring holds, whatever 32-bit doorbells the host rings: a doorbell past the ring or behind the tail halts the queue
  instead.\<close>

theorem doorbell_bounded:
  assumes "reached s" "raised s = None" "enable (modul s)"
  shows "sub32 (tail (modul s)) (head (modul s)) \<le> 2 ^ size_log2 (modul s)"
  using reached_inv[OF assms(1,2)] assms(3) invD(1) coreD(8) by (metis regs_ok_def)

end
