(* ===== verification/Transport_Publish.thy ===== *)
theory Transport_Publish
  imports Transport_Run
begin

text \<open>
  \<^verbatim>\<open>docs/designs/pta_board_transport.py\<close>, section 6, from the host to the module and back: what \<open>publish\<close> stores is
  what \<open>got_descriptor\<close> decodes, the operands \<open>shots\<close> unpacks are the command's, and the result lines it
  makes are what \<open>complete\<close> unpacks and compares.
\<close>

section \<open>Buffers\<close>

text \<open>Line \<open>i\<close> of some bytes.\<close>

definition part_of :: "bytes \<Rightarrow> nat \<Rightarrow> bytes" where
  "part_of raw i = take LINE (drop (i * LINE) raw)"

lemma length_part_of: "(i + 1) * LINE \<le> length raw \<Longrightarrow> length (part_of raw i) = LINE"
  by (simp add: part_of_def)

lemma concat_parts: "length raw = n * LINE \<Longrightarrow> concat (map (part_of raw) [0..<n]) = raw"
proof (induction n arbitrary: raw)
  case (Suc n)
  have "part_of (take (n * LINE) raw) i = part_of raw i" if "i < n" for i
  proof -
    have "i * LINE + LINE \<le> n * LINE" using that mult_le_mono1[of "Suc i" n LINE] by simp
    then show ?thesis by (simp add: part_of_def take_drop min_def)
  qed
  then have "concat (map (part_of raw) [0..<n]) = concat (map (part_of (take (n * LINE) raw)) [0..<n])"
    by (intro arg_cong[where f = concat] map_cong) simp_all
  also have "\<dots> = take (n * LINE) raw" using Suc.prems by (intro Suc.IH) simp
  finally have "concat (map (part_of raw) [0..<n]) = take (n * LINE) raw" .
  moreover have "part_of raw n = drop (n * LINE) raw" using Suc.prems by (simp add: part_of_def)
  ultimately show ?case by simp
qed simp

lemma LINE_pos: "0 < LINE"
  by (simp add: LINE_def)

text \<open>Memory with \<open>n\<close> lines written from \<open>a\<close> on.\<close>

definition written :: "nat \<Rightarrow> nat \<Rightarrow> (nat \<Rightarrow> bytes) \<Rightarrow> (nat \<rightharpoonup> bytes) \<Rightarrow> nat \<rightharpoonup> bytes" where
  "written a n f m = (\<lambda>x. if \<exists>i<n. x = a + i * LINE then Some (f ((x - a) div LINE)) else m x)"

lemma written_Suc: "written a (Suc n) f m = (written a n f m)(a + n * LINE \<mapsto> f n)"
  using LINE_pos by (auto simp: written_def less_Suc_eq fun_eq_iff)

lemma written_at: "i < n \<Longrightarrow> written a n f m (a + i * LINE) = Some (f i)"
  using LINE_pos by (auto simp: written_def)

lemma written_apart: "x < a \<or> a + n * LINE \<le> x \<Longrightarrow> written a n f m x = m x"
proof -
  assume "x < a \<or> a + n * LINE \<le> x"
  moreover have "i * LINE < n * LINE" if "i < n" for i using that LINE_pos by simp
  ultimately have "\<not> (\<exists>i<n. x = a + i * LINE)" by fastforce
  then show ?thesis unfolding written_def by (simp only: if_False)
qed

lemma fold_store:
  "(\<And>i. i < n \<Longrightarrow> length (f i) = LINE) \<Longrightarrow>
    fold (\<lambda>i. store (a + i * LINE) (f i)) [0..<n] s = s\<lparr>mem := written a n f (mem s)\<rparr>"
proof (induction n)
  case 0
  then show ?case by (simp add: written_def)
next
  case (Suc n)
  have "fold (\<lambda>i. store (a + i * LINE) (f i)) [0..<n] s = s\<lparr>mem := written a n f (mem s)\<rparr>" using Suc by simp
  then have e: "fold (\<lambda>i. store (a + i * LINE) (f i)) [0..<Suc n] s = store (a + n * LINE) (f n) (s\<lparr>mem := written a n f (mem s)\<rparr>)"
    by simp
  show ?case unfolding e using Suc.prems[of n] by (simp add: store_def written_Suc del: fun_upd_apply)
qed

text \<open>The data of a buffer, padded to whole lines.\<close>

definition padded :: "byte \<Rightarrow> nat \<Rightarrow> bytes \<Rightarrow> bytes" where
  "padded f n data = data @ replicate (lines n * LINE - length data) f"

lemma take_buf_eq:
  assumes "length data \<le> n"
  shows "take_buf n f data s = ((alloc (host s), lines n),
    s\<lparr>mem := written (alloc (host s)) (lines n) (part_of (padded f n data)) (mem s),
      host := (host s)\<lparr>alloc := alloc (host s) + lines n * LINE\<rparr>\<rparr>)"
proof -
  have "length data \<le> lines n * LINE" using assms lines_bounds(1)[of n] by simp
  then have "length (part_of (padded f n data) i) = LINE" if "i < lines n" for i
    using that mult_le_mono1[of "Suc i" "lines n" LINE] by (intro length_part_of) (simp add: padded_def)
  from fold_store[of "lines n" "part_of (padded f n data)" "alloc (host s)" s, OF this] show ?thesis
    by (simp add: take_buf_def Let_def part_of_def padded_def upd_h_def)
qed

section \<open>What \<open>publish\<close> leaves in memory\<close>

text \<open>Where \<open>publish\<close> puts a command's three buffers.\<close>

definition act_at :: "sim \<Rightarrow> nat" where
  "act_at s = alloc (host s)"

definition wgt_at :: "cmd \<Rightarrow> sim \<Rightarrow> nat" where
  "wgt_at c s = act_at s + lines (cM c * cK c) * LINE"

definition out_at :: "cmd \<Rightarrow> sim \<Rightarrow> nat" where
  "out_at c s = wgt_at c s + lines (cK c * cN c) * LINE"

lemma addr_below: "addr idx < BUF"
proof -
  have "take_bit RING_LOG2 idx < 2 ^ RING_LOG2" by simp
  then have "take_bit RING_LOG2 idx \<le> 7" by (simp add: RING_LOG2_def)
  then show ?thesis by (simp add: addr_def RING_def SLOT_def LINE_def BUF_def)
qed

lemma publish_slot_parts:
  assumes "planted_fault s = None" "length (cdesc p) = LINE"
  shows "mem (publish_slot p s) = (mem s)(addr (nxt (host s)) \<mapsto> cdesc p)" "raised (publish_slot p s) = raised s"
    "cmds (host (publish_slot p s)) (nxt (host s)) = Some p" "stale (host (publish_slot p s)) = stale (host s)"
proof -
  define s1 where "s1 = (case slot_of (host s) (take_bit RING_LOG2 (nxt (host s))) of
      Some p \<Rightarrow> if p \<notin> h_ended (host s) then fail C8 s else s | None \<Rightarrow> s)"
  have "s1 = s \<or> s1 = fail C8 s"
    unfolding s1_def by (cases "slot_of (host s) (take_bit RING_LOG2 (nxt (host s)))") (simp_all only: option.case simp_thms split: if_split)
  then have s1: "mem s1 = mem s" "raised s1 = raised s" "host s1 = host s" by auto
  have "\<not> faulty s Doorbell_Before_Stores" by (simp add: faulty_def assms)
  then have e: "publish_slot p s = upd_h (\<lambda>h. h\<lparr>slot_of := (slot_of h)(take_bit RING_LOG2 (nxt (host s)) \<mapsto> nxt (host s)),
      cmds := (cmds h)(nxt (host s) \<mapsto> p), nxt := nxt (host s) + 1\<rparr>) (store (addr (nxt (host s))) (cdesc p) s1)"
    unfolding publish_slot_def Let_def s1_def[symmetric] by (simp only: simp_thms if_False)
  show "mem (publish_slot p s) = (mem s)(addr (nxt (host s)) \<mapsto> cdesc p)" "raised (publish_slot p s) = raised s"
    "cmds (host (publish_slot p s)) (nxt (host s)) = Some p" "stale (host (publish_slot p s)) = stale (host s)"
    unfolding e by (simp_all add: store_def s1 assms(2) upd_h_def)
qed

lemma pack_int8: "pack_array int8_ok int8_pack vs = Inr d \<Longrightarrow> length d = length vs"
  using int8.length_packed by (auto simp: pack_array_def split: if_splits)

text \<open>The command as it is kept, and the lines as they stand.\<close>

lemma publish_bodyE:
  assumes "raised (publish_body c s) = None" "planted_fault s = None" "BUF \<le> alloc (host s)"
    "length (cA c) = cM c * cK c" "length (cW c) = cK c * cN c"
  obtains a w d where "pack_array int8_ok int8_pack (cA c) = Inr a" "pack_array int8_ok int8_pack (cW c) = Inr w"
    "DESC_pack (publish_values c (act_at s) (wgt_at c s) (out_at c s)) = Inr d"
    "cmds (host (publish_body c s)) (nxt (host s))
       = Some (cmd.extend c (posted.fields (out_at c s) (lines (cM c * cN c * R_BYTES)) (h_seed (host s)) d))"
    "mem (publish_body c s) (addr (nxt (host s))) = Some d" "stale (host (publish_body c s)) = stale (host s)"
    "\<And>i. i < lines (cM c * cK c) \<Longrightarrow> mem (publish_body c s) (act_at s + i * LINE) = Some (part_of (padded 0 (cM c * cK c) a) i)"
    "\<And>i. i < lines (cK c * cN c) \<Longrightarrow> mem (publish_body c s) (wgt_at c s + i * LINE) = Some (part_of (padded 0 (cK c * cN c) w) i)"
proof -
  obtain a where a: "pack_array int8_ok int8_pack (cA c) = Inr a" using assms(1) by (cases "pack_array int8_ok int8_pack (cA c)") (auto simp: publish_body_def raise_err_def)
  obtain w where w: "pack_array int8_ok int8_pack (cW c) = Inr w" using assms(1) a by (cases "pack_array int8_ok int8_pack (cW c)") (auto simp: publish_body_def raise_err_def)
  have la: "length a \<le> cM c * cK c" and lw: "length w \<le> cK c * cN c" using pack_int8 a w assms(4,5) by simp_all
  define s1 where "s1 = snd (take_buf (cM c * cK c) 0 a s)"
  define s2 where "s2 = snd (take_buf (cK c * cN c) 0 w s1)"
  define s3 where "s3 = snd (take_buf (cM c * cN c * R_BYTES) SENTINEL [] s2)"
  have e1: "take_buf (cM c * cK c) 0 a s = ((act_at s, lines (cM c * cK c)), s1)"
    and h1: "host s1 = (host s)\<lparr>alloc := wgt_at c s\<rparr>" and m1: "mem s1 = written (act_at s) (lines (cM c * cK c)) (part_of (padded 0 (cM c * cK c) a)) (mem s)"
    and p1: "planted_fault s1 = None"
    using take_buf_eq[OF la, of 0 s] assms(2) by (simp_all add: s1_def act_at_def wgt_at_def)
  have e2: "take_buf (cK c * cN c) 0 w s1 = ((wgt_at c s, lines (cK c * cN c)), s2)"
    and h2: "host s2 = (host s)\<lparr>alloc := out_at c s\<rparr>" and m2: "mem s2 = written (wgt_at c s) (lines (cK c * cN c)) (part_of (padded 0 (cK c * cN c) w)) (mem s1)"
    and p2: "planted_fault s2 = None"
    using take_buf_eq[OF lw, of 0 s1] p1 by (simp_all add: s2_def h1 out_at_def)
  have e3: "take_buf (cM c * cN c * R_BYTES) SENTINEL [] s2 = ((out_at c s, lines (cM c * cN c * R_BYTES)), s3)"
    and h3: "host s3 = (host s)\<lparr>alloc := out_at c s + lines (cM c * cN c * R_BYTES) * LINE\<rparr>"
    and m3: "mem s3 = written (out_at c s) (lines (cM c * cN c * R_BYTES)) (part_of (padded SENTINEL (cM c * cN c * R_BYTES) [])) (mem s2)"
    and p3: "planted_fault s3 = None"
    using take_buf_eq[of "[]" "cM c * cN c * R_BYTES" SENTINEL s2] p2 by (simp_all add: s3_def h2)
  define s4 where "s4 = upd_h (\<lambda>h. h\<lparr>owner := fold (\<lambda>i ow. ow(out_at c s + i * LINE \<mapsto> nxt (host s))) [0..<lines (cM c * cN c * R_BYTES)] (owner h)\<rparr>) s3"
  have h4: "nxt (host s4) = nxt (host s)" "h_seed (host s4) = h_seed (host s)" "stale (host s4) = stale (host s)" "mem s4 = mem s3"
      "planted_fault s4 = None"
    using p3 by (simp_all add: s4_def h3 upd_h_def)
  obtain d where d: "DESC_pack (publish_values c (act_at s) (wgt_at c s) (out_at c s)) = Inr d"
    using assms(1) by (cases "DESC_pack (publish_values c (act_at s) (wgt_at c s) (out_at c s))") (auto simp: publish_body_def a w e1 e2 e3 raise_err_def Let_def)
  define p where "p = cmd.extend c (posted.fields (out_at c s) (lines (cM c * cN c * R_BYTES)) (h_seed (host s)) d)"
  have eq: "publish_body c s = publish_slot p s4"
    by (simp add: publish_body_def a w e1 e2 e3 d s4_def[symmetric] h4 h3 p_def Let_def)
  have ld: "length (cdesc p) = LINE"
    using fields_unpack_pack[OF d[unfolded DESC_pack_def]] by (simp add: p_def cmd.defs posted.defs DESC_def LINE_def)
  note sl = publish_slot_parts[OF h4(5) ld, unfolded h4]
  have far: "addr (nxt (host s)) < act_at s" using addr_below assms(3) by (metis act_at_def less_le_trans)
  have ord: "act_at s \<le> wgt_at c s" "wgt_at c s \<le> out_at c s" by (simp_all add: wgt_at_def out_at_def)
  have act: "mem (publish_body c s) (act_at s + i * LINE) = Some (part_of (padded 0 (cM c * cK c) a) i)" if i: "i < lines (cM c * cK c)" for i
  proof -
    have "act_at s + i * LINE < wgt_at c s" using i LINE_pos by (simp add: wgt_at_def)
    then show ?thesis using ord far i by (simp add: eq sl h4 m3 m2 m1 written_apart written_at)
  qed
  have wgt: "mem (publish_body c s) (wgt_at c s + i * LINE) = Some (part_of (padded 0 (cK c * cN c) w) i)" if i: "i < lines (cK c * cN c)" for i
  proof -
    have "wgt_at c s + i * LINE < out_at c s" using i LINE_pos by (simp add: out_at_def)
    then show ?thesis using ord far i by (simp add: eq sl h4 m3 m2 written_apart written_at)
  qed
  show thesis
  proof (rule that[OF a w d _ _ _ act wgt])
    show "cmds (host (publish_body c s)) (nxt (host s))
       = Some (cmd.extend c (posted.fields (out_at c s) (lines (cM c * cN c * R_BYTES)) (h_seed (host s)) d))"
      using sl(3) by (simp only: eq p_def)
    show "mem (publish_body c s) (addr (nxt (host s))) = Some d" using sl(1) by (simp add: eq p_def cmd.defs posted.defs)
    show "stale (host (publish_body c s)) = stale (host s)" by (simp add: eq sl h4)
  qed
qed

section \<open>From the host to the module and back\<close>

lemma small_bit: "b < 2 ^ n \<Longrightarrow> n \<le> k \<Longrightarrow> \<not> bit (b :: nat) k"
  by (metis bit_take_bit_iff leD take_bit_nat_eq_self)

lemma target_fields:
  assumes "b < 2 ^ 8" "f \<in> {0, AFTER_SUCCESS}" "v ! 1 = push_bit 8 b OR f"
  shows "target_bank v = b" "after_success v \<longleftrightarrow> f = AFTER_SUCCESS" "unset_bit 16 (push_bit 16 (drop_bit 16 (v ! 1))) = 0"
proof -
  have f: "bit f n \<longleftrightarrow> n = 16 \<and> f = AFTER_SUCCESS" for n
  proof -
    have "bit AFTER_SUCCESS n \<longleftrightarrow> n = 16" unfolding AFTER_SUCCESS_def bit_exp_iff by auto
    then show ?thesis using assms(2) by auto
  qed
  have b: "\<not> bit b n" if "8 \<le> n" for n using small_bit[OF assms(1) that] .
  show "target_bank v = b" unfolding target_bank_def assms(3)
    by (rule bit_eqI) (use b in \<open>auto simp: bit_simps f\<close>)
  show "after_success v \<longleftrightarrow> f = AFTER_SUCCESS" unfolding after_success_def assms(3) using b[of 8] by (simp add: bit_simps f)
  show "unset_bit 16 (push_bit 16 (drop_bit 16 (v ! 1))) = 0" unfolding assms(3)
    by (rule bit_eqI) (use b in \<open>auto simp: bit_simps f\<close>)
qed

lemma aligned_or: "(a :: nat) mod LINE = 0 \<Longrightarrow> b mod LINE = 0 \<Longrightarrow> (a OR b) mod LINE = 0"
proof -
  have "x mod LINE = take_bit 6 x" for x :: nat by (simp add: take_bit_eq_mod LINE_def)
  then show "a mod LINE = 0 \<Longrightarrow> b mod LINE = 0 \<Longrightarrow> (a OR b) mod LINE = 0" by simp
qed

text \<open>[C24] What the host publishes is what the module decodes: for every command of an eight-bit bank whose flags
  are none or AFTER_SUCCESS, published with no exception and nothing planted, the module's read of the slot is decoded
  to the command's sizes and to the addresses of its three buffers, and the command is refused, skipped or started exactly
  as its format, sizes, bank and flags ask.\<close>

theorem published_command_decoded:
  fixes c :: cmd and s t :: sim
  defines "i \<equiv> nxt (host s)" and "s' \<equiv> publish_body c s"
  defines "d \<equiv> fst (as_read_by_module (addr i) s')"
  assumes "raised s' = None" "planted_fault s = None" "stale (host s) (addr i) = None" "BUF \<le> alloc (host s)" "alloc (host s) mod LINE = 0"
    and "length (cA c) = cM c * cK c" "length (cW c) = cK c * cN c" "bank c < 2 ^ 8" "cflags c \<in> {0, AFTER_SUCCESS}"
    and "planted_fault t = None" "wedge_at (modul t) \<noteq> Some i"
  shows "got_descriptor [d] i t =
    (if cfmt c \<noteq> 0 \<or> cM c = 0 \<or> cK c = 0 \<or> cN c = 0 then end_cmd i d NOT_ISSUED NO_INDEX t
     else if BANKS \<le> bank c then end_cmd i d REFUSED NO_INDEX t
     else if cflags c = AFTER_SUCCESS \<and> prev (modul t) \<notin> {None, Some DONE} then end_cmd i d NOT_RUN NO_INDEX t
     else start i d (cM c) (cK c) (cN c) (act_at s) (wgt_at c s) (out_at c s) DONE t)"
proof -
  obtain d' where d': "DESC_pack (publish_values c (act_at s) (wgt_at c s) (out_at c s)) = Inr d'"
    "mem s' (addr i) = Some d'" "stale (host s') = stale (host s)"
    using publish_bodyE[OF assms(4)[unfolded s'_def] assms(5,7,9,10)] unfolding s'_def i_def by metis
  have d: "d = d'" using d' assms(6) by (simp add: d_def as_read_by_module_def line_def)
  define v where "v = publish_values c (act_at s) (wgt_at c s) (out_at c s)"
  have un: "DESC_unpack d = Inr v"
    using fields_unpack_pack[of DESC v d'] d'(1) by (simp add: v_def d DESC_pack_def DESC_unpack_def)
  have v: "v ! 0 = (2 ^ 16 OR 64)" "v ! 1 = push_bit 8 (bank c) OR cflags c" "v ! 2 = cfmt c" "v ! 3 = cM c" "v ! 4 = cK c" "v ! 5 = cN c"
    "v ! 6 = act_at s" "v ! 7 = wgt_at c s" "v ! 8 = out_at c s"
    by (simp_all add: v_def publish_values_def)
  note target = target_fields[OF assms(11,12) v(2)]
  have "act_at s mod LINE = 0" "wgt_at c s mod LINE = 0" "out_at c s mod LINE = 0"
    using assms(8) by (simp_all add: act_at_def wgt_at_def out_at_def mod_add_eq[symmetric])
  then have al: "(v ! 6 OR v ! 7 OR v ! 8) mod LINE = 0" unfolding v by (intro aligned_or)
  have us: "usable v \<longleftrightarrow> \<not> (cfmt c \<noteq> 0 \<or> cM c = 0 \<or> cK c = 0 \<or> cN c = 0)"
    unfolding usable_def al target(3) v(1,3-6) by simp
  have nf: "faulty t f = False" for f by (simp add: faulty_def assms(13))
  have w: "(Some i = wedge_at (modul t)) = False" using assms(14) by auto
  show ?thesis
    by (simp only: got_descriptor_def Let_def list.sel un sum.case us target(1,2) v w nf if_False simp_thms)
qed

lemma reads_read_lines:
  "reads (read_lines addrs thn s) (fresh s)
     = Some \<lparr>rd_job = job_no (modul s), rd_gen = gen (modul s), rd_addrs = addrs, rd_got = [], rd_then = thn\<rparr>"
proof -
  have "reads (fold (request_line (fresh s)) addrs s1) = reads s1" for s1
    by (rule fold_same) (simp add: request_line_def sched_def drawn_def)
  then show ?thesis by (simp add: read_lines_def Let_def)
qed

text \<open>Operands: the lines of a buffer, put together again, are the data it was filled with.\<close>

lemma buffer_data:
  assumes "\<And>j. j < lines n \<Longrightarrow> mem s (a + j * LINE) = Some (part_of (padded f n data) j)" "length data = n"
  shows "take n (concat (map (\<lambda>j. line s (a + j * LINE)) [0..<lines n])) = data"
proof -
  have "concat (map (\<lambda>j. line s (a + j * LINE)) [0..<lines n]) = concat (map (part_of (padded f n data)) [0..<lines n])"
    using assms(1) by (intro arg_cong[where f = concat] map_cong) (simp_all add: line_def)
  also have "\<dots> = padded f n data"
    using assms(2) lines_bounds(1)[of n] by (intro concat_parts) (simp add: padded_def)
  finally show ?thesis using assms(2) by (simp add: padded_def)
qed

lemma unpack_int8: "pack_array int8_ok int8_pack vs = Inr d \<Longrightarrow> unpack_array 1 int8_unpack (length vs) d = Inr vs"
  using int8.unpack_packed[of vs d "[]"] by simp

text \<open>Results: the lines \<open>shots\<close> makes hold the sums, whatever else is in memory.\<close>

lemma result_data:
  assumes "pack_array int32_ok int32_pack vs = Inr raw" "n = lines (length raw)"
    and "\<And>j. j < n \<Longrightarrow> line u (a + j * LINE) = part_of (raw @ replicate (n * LINE - length raw) 0) j"
  shows "unpack_array 4 int32_unpack (length vs) (concat (map (\<lambda>j. line u (a + j * LINE)) [0..<n])) = Inr vs"
proof -
  let ?all = "raw @ replicate (n * LINE - length raw) 0"
  have "concat (map (\<lambda>j. line u (a + j * LINE)) [0..<n]) = concat (map (part_of ?all) [0..<n])"
    using assms(3) by (intro arg_cong[where f = concat] map_cong) simp_all
  also have "\<dots> = ?all" using lines_bounds(1)[of "length raw"] assms(2) by (intro concat_parts) simp
  finally show ?thesis using int32.unpack_packed[OF assms(1)] by simp
qed

lemma length_pack_int32: "pack_array int32_ok int32_pack vs = Inr d \<Longrightarrow> length d = length vs * R_BYTES"
  using int32.length_packed by (auto simp: pack_array_def R_BYTES_def split: if_splits)

lemma shots_made:
  assumes "raised (shots datas i d M K N out ix sd nw st t) = None"
    and "take (K * N) (concat (take nw datas)) = w" "pack_array int8_ok int8_pack W = Inr w" "length W = K * N"
    and "take (M * K) (concat (drop nw datas)) = a" "pack_array int8_ok int8_pack A = Inr a" "length A = M * K"
  obtains raw g where "pack_array int32_ok int32_pack (gemm A W M K N (gemm_seed sd ix)) = Inr raw"
    "gemms (shots datas i d M K N out ix sd nw st t) (fresh t) = Some g" "st_out g = out" "st_n g = lines (length raw)"
    "st_raw g = raw @ replicate (st_n g * LINE - length raw) 0"
proof -
  have W: "unpack_array 1 int8_unpack (K * N) (take (K * N) (concat (take nw datas))) = Inr W"
    using unpack_int8[OF assms(3)] by (simp only: assms(2,4))
  have A: "unpack_array 1 int8_unpack (M * K) (take (M * K) (concat (drop nw datas))) = Inr A"
    using unpack_int8[OF assms(6)] by (simp only: assms(5,7))
  note e = shots_def[of datas i d M K N out ix sd nw st t, unfolded W A bindE_def sum.case]
  obtain raw where raw: "pack_array int32_ok int32_pack (gemm A W M K N (gemm_seed sd ix)) = Inr raw"
    using assms(1) unfolding e by (cases "pack_array int32_ok int32_pack (gemm A W M K N (gemm_seed sd ix))") (simp_all add: raise_err_def)
  show thesis by (rule that[OF raw], simp add: e raw Let_def sched_def) simp_all
qed

lemma check_done_quiet:
  assumes "unpack_array 4 int32_unpack (cM p * cN p) (out_bytes p u) = Inr (gemm (cA p) (cW p) (cM p) (cK p) (cN p) (gemm_seed (cseed p) ix))"
  shows "checks_fired (check_done p ix u) \<subseteq> insert C4 (checks_fired u)"
  using assms by (auto simp: check_done_def Let_def upd_h_def raise_err_def split: sum.split)

text \<open>[C25] What the module computes is what the host compares: for a published command the module starts, whenever the
  operand lines its read names come back as the host stored them, the result lines it makes, once they are in memory, unpack to
  the GEMM of the command's own operands under the seed and index the module started it with; with the seed the host has
  set, check C1 does not fire.\<close>

theorem results_are_the_gemm:
  fixes c :: cmd and s t :: sim
  defines "i \<equiv> nxt (host s)" and "s' \<equiv> publish_body c s"
  defines "t1 \<equiv> got_descriptor [fst (as_read_by_module (addr i) s')] i t"
  assumes "raised s' = None" "planted_fault s = None" "stale (host s) (addr i) = None" "BUF \<le> alloc (host s)" "alloc (host s) mod LINE = 0"
    and "length (cA c) = cM c * cK c" "length (cW c) = cK c * cN c" "bank c < BANKS" "cflags c \<in> {0, AFTER_SUCCESS}"
    and "planted_fault t = None" "wedge_at (modul t) \<noteq> Some i"
    and "cfmt c = 0" "0 < cM c" "0 < cK c" "0 < cN c" "cflags c = AFTER_SUCCESS \<longrightarrow> prev (modul t) \<in> {None, Some DONE}"
  shows "\<exists>r p. reads t1 (fresh t) = Some r \<and> cmds (host s') i = Some p
    \<and> (\<forall>t2. raised (then_read (rd_then r) (map (line s') (rd_addrs r)) t2) = None \<longrightarrow>
        (\<exists>g. gemms (then_read (rd_then r) (map (line s') (rd_addrs r)) t2) (fresh t2) = Some g
          \<and> (\<forall>u. (\<forall>j < st_n g. line u (st_out g + j * LINE) = take LINE (drop (j * LINE) (st_raw g))) \<longrightarrow>
              unpack_array 4 int32_unpack (cM c * cN c) (out_bytes p u)
                = Inr (gemm (cA c) (cW c) (cM c) (cK c) (cN c) (gemm_seed (seed (modul t)) (gemm_ct (modul t))))
              \<and> (seed (modul t) = h_seed (host s) \<longrightarrow> checks_fired (check_done p (gemm_ct (modul t)) u) \<subseteq> insert C4 (checks_fired u)))))"
proof -
  let ?M = "cM c" and ?K = "cK c" and ?N = "cN c"
  obtain a w d where a: "pack_array int8_ok int8_pack (cA c) = Inr a" and w: "pack_array int8_ok int8_pack (cW c) = Inr w"
    and p: "cmds (host s') i = Some (cmd.extend c (posted.fields (out_at c s) (lines (?M * ?N * R_BYTES)) (h_seed (host s)) d))"
    and act: "\<And>j. j < lines (?M * ?K) \<Longrightarrow> mem s' (act_at s + j * LINE) = Some (part_of (padded 0 (?M * ?K) a) j)"
    and wgt: "\<And>j. j < lines (?K * ?N) \<Longrightarrow> mem s' (wgt_at c s + j * LINE) = Some (part_of (padded 0 (?K * ?N) w) j)"
    using publish_bodyE[OF assms(4)[unfolded s'_def] assms(5,7,9,10)] unfolding s'_def i_def by metis
  have "bank c < 2 ^ 8" using assms(11) by (simp add: BANKS_def)
  from published_command_decoded[OF assms(4-10)[unfolded s'_def i_def] this assms(12,13) assms(14)[unfolded i_def]]
  have "\<exists>d. t1 = start i d ?M ?K ?N (act_at s) (wgt_at c s) (out_at c s) DONE t"
    using assms(11,15-19) unfolding t1_def s'_def i_def by auto
  then obtain d' where t1: "t1 = start i d' ?M ?K ?N (act_at s) (wgt_at c s) (out_at c s) DONE t" by blast
  define ix where "ix = gemm_ct (modul t)"
  define wl where "wl = map (\<lambda>j. wgt_at c s + j * LINE) [0..<lines (?K * ?N)]"
  define al where "al = map (\<lambda>j. act_at s + j * LINE) [0..<lines (?M * ?K)]"
  define r where "r = \<lparr>rd_job = job_no (modul t), rd_gen = gen (modul t), rd_addrs = wl @ al, rd_got = [],
      rd_then = Shots i d' ?M ?K ?N (out_at c s) ix (seed (modul t)) (length wl) DONE\<rparr>"
  have r: "reads t1 (fresh t) = Some r"
    using reads_read_lines[of "wl @ al" "rd_then r" "upd_m (\<lambda>m. m\<lparr>gemm_ct := gemm_ct m + 1\<rparr>) t"]
    by (simp add: t1 start_def Let_def W_BYTES_def A_BYTES_def wl_def al_def r_def ix_def upd_m_def)
  let ?p = "cmd.extend c (posted.fields (out_at c s) (lines (?M * ?N * R_BYTES)) (h_seed (host s)) d)"
  let ?t3 = "\<lambda>t2. then_read (rd_then r) (map (line s') (rd_addrs r)) t2"
  have "\<exists>g. gemms (?t3 t2) (fresh t2) = Some g
          \<and> (\<forall>u. (\<forall>j < st_n g. line u (st_out g + j * LINE) = take LINE (drop (j * LINE) (st_raw g))) \<longrightarrow>
              unpack_array 4 int32_unpack (?M * ?N) (out_bytes ?p u) = Inr (gemm (cA c) (cW c) ?M ?K ?N (gemm_seed (seed (modul t)) ix))
              \<and> (seed (modul t) = h_seed (host s) \<longrightarrow> checks_fired (check_done ?p ix u) \<subseteq> insert C4 (checks_fired u)))"
    if ok: "raised (?t3 t2) = None" for t2
  proof -
    have e: "?t3 t2 = shots (map (line s') (wl @ al)) i d' ?M ?K ?N (out_at c s) ix (seed (modul t)) (length wl) DONE t2"
      by (simp add: r_def)
    have dW: "take (?K * ?N) (concat (take (length wl) (map (line s') (wl @ al)))) = w"
      using buffer_data[OF wgt] pack_int8[OF w] assms(10) by (simp add: wl_def comp_def)
    have dA: "take (?M * ?K) (concat (drop (length wl) (map (line s') (wl @ al)))) = a"
      using buffer_data[OF act] pack_int8[OF a] assms(9) by (simp add: al_def comp_def)
    obtain raw g where g: "pack_array int32_ok int32_pack (gemm (cA c) (cW c) ?M ?K ?N (gemm_seed (seed (modul t)) ix)) = Inr raw"
      "gemms (?t3 t2) (fresh t2) = Some g" "st_out g = out_at c s" "st_n g = lines (length raw)"
      "st_raw g = raw @ replicate (st_n g * LINE - length raw) 0"
      using shots_made[OF ok[unfolded e] dW w assms(10) dA a assms(9)] unfolding e by metis
    have n: "st_n g = lines (?M * ?N * R_BYTES)" using length_pack_int32[OF g(1)] by (simp add: g(4) length_gemm)
    have "unpack_array 4 int32_unpack (?M * ?N) (out_bytes ?p u) = Inr (gemm (cA c) (cW c) ?M ?K ?N (gemm_seed (seed (modul t)) ix))"
      if "\<forall>j < st_n g. line u (st_out g + j * LINE) = take LINE (drop (j * LINE) (st_raw g))" for u
      using result_data[OF g(1,4), of u "out_at c s"] that n g(3,5)
      by (simp add: out_bytes_def part_of_def length_gemm cmd.defs posted.defs)
    then show ?thesis using g(2) check_done_quiet[of ?p] by (fastforce simp: cmd.defs posted.defs)
  qed
  then show ?thesis using r p unfolding ix_def by blast
qed

end
