(* ===== verification/Transport_Cases.thy ===== *)
theory Transport_Cases
  imports Transport_Claims Transport_Publish "HOL-Library.Code_Target_Nat"
begin

text \<open>
  The module of the transport run on concrete inputs: a player for the step relation, with which each promise of
  \<open>Transport_Claims\<close> is shown at a state that a real sequence of deliveries reaches, a command published and
  computed, and three things the design's own host never does, after which the code of the module does not keep its
  own rules.
\<close>

section \<open>Running the module\<close>

text \<open>Delivery and time, step by step; \<open>play\<close> stops where \<open>polite\<close> is not kept.\<close>

definition advance :: "sim \<Rightarrow> sim" where
  "advance s = (if due s then pop s else s\<lparr>now := now s + 1\<rparr>)"

fun play :: "nat \<Rightarrow> sim \<Rightarrow> sim option" where
  "play 0 s = Some s"
| "play (Suc n) s = (if due s \<and> (\<not> polite s \<or> raised s \<noteq> None) then None else play n (advance s))"

fun steps :: "nat \<Rightarrow> sim \<Rightarrow> sim" where
  "steps 0 s = s"
| "steps (Suc n) s = steps n (advance s)"

lemma reached_play: "reached s \<Longrightarrow> play n s = Some s' \<Longrightarrow> reached s'"
proof (induction n arbitrary: s)
  case (Suc n)
  have "mstep s (advance s)"
  proof (cases "due s")
    case True
    then show ?thesis using Suc.prems(2) mstep.deliver[of s] by (auto simp: advance_def split: if_splits)
  next
    case False
    then show ?thesis using mstep.tick[of s] by (simp add: advance_def)
  qed
  then have "reached (advance s)" using Suc.prems(1) by (rule reached.step[rotated])
  then show ?case using Suc by (auto split: if_splits)
qed simp

text \<open>The seed over the integers, for evaluation.\<close>

lemma uint_drop:
  fixes x :: "64 word"
  shows "uint (drop_bit n x) = uint x div 2 ^ n"
proof -
  have "take_bit 64 (uint x) = uint x" using uint_lt2p[of x] by (simp add: take_bit_int_eq_self)
  then show ?thesis by (simp only: unsigned_drop_bit_eq drop_bit_eq_div[symmetric] len_num1 len_bit0) (simp add: drop_bit_eq_div)
qed

lemma uint_num:
  "uint (0x9E3779B97F4A7C15 :: 64 word) = 0x9E3779B97F4A7C15"
  "uint (0xBF58476D1CE4E5B9 :: 64 word) = 0xBF58476D1CE4E5B9"
  "uint (0x94D049BB133111EB :: 64 word) = 0x94D049BB133111EB"
  by simp_all

lemma gemm_seed_code [code]:
  "gemm_seed sd i =
     (let z0 = ((int sd mod 2 ^ 32) * 2 ^ 32 + int i mod 2 ^ 32 + 0x9E3779B97F4A7C15) mod 2 ^ 64;
          z1 = ((z0 XOR z0 div 2 ^ 30) * 0xBF58476D1CE4E5B9) mod 2 ^ 64;
          z2 = ((z1 XOR z1 div 2 ^ 27) * 0x94D049BB133111EB) mod 2 ^ 64
      in nat ((z2 XOR z2 div 2 ^ 31) div 2 ^ 32))"
proof -
  define w0 where "w0 = (word_of_nat (push_bit 32 (take_bit 32 sd) OR take_bit 32 i) :: 64 word) + 0x9E3779B97F4A7C15"
  define w1 where "w1 = (w0 XOR drop_bit 30 w0) * 0xBF58476D1CE4E5B9"
  define w2 where "w2 = (w1 XOR drop_bit 27 w1) * 0x94D049BB133111EB"
  have "push_bit 32 (take_bit 32 sd) OR take_bit 32 i = push_bit 32 (take_bit 32 sd) + take_bit 32 i"
    by (rule disjunctive_add[symmetric]) (auto simp: bit_simps)
  then have or: "int (push_bit 32 (take_bit 32 sd) OR take_bit 32 i) = (int sd mod 2 ^ 32) * 2 ^ 32 + int i mod 2 ^ 32"
    by (simp add: push_bit_eq_mult take_bit_eq_mod zmod_int)
  have mul: "uint (a * b) = (uint a * uint b) mod 2 ^ 64" and add: "uint (a + b) = (uint a + uint b) mod 2 ^ 64"
    for a b :: "64 word" by (simp_all add: uint_word_ariths)
  have "uint (word_of_nat n :: 64 word) = int n mod 2 ^ 64" for n by (simp add: unsigned_of_nat take_bit_eq_mod zmod_int)
  then have u0: "uint w0 = ((int sd mod 2 ^ 32) * 2 ^ 32 + int i mod 2 ^ 32 + 0x9E3779B97F4A7C15) mod 2 ^ 64"
    unfolding w0_def add uint_num or[symmetric] by (simp only: mod_add_left_eq)
  have u1: "uint w1 = ((uint w0 XOR uint w0 div 2 ^ 30) * 0xBF58476D1CE4E5B9) mod 2 ^ 64"
    unfolding w1_def mul uint_num by (simp only: unsigned_xor_eq uint_drop)
  have u2: "uint w2 = ((uint w1 XOR uint w1 div 2 ^ 27) * 0x94D049BB133111EB) mod 2 ^ 64"
    unfolding w2_def mul uint_num by (simp only: unsigned_xor_eq uint_drop)
  have "gemm_seed sd i = take_bit 32 (unat (drop_bit 32 (w2 XOR drop_bit 31 w2)))"
    unfolding gemm_seed_def Let_def w2_def w1_def w0_def ..
  also have "\<dots> = nat (uint (drop_bit 32 (w2 XOR drop_bit 31 w2)))"
  proof -
    have "uint (drop_bit 32 y) < 2 ^ 32" for y :: "64 word" using uint_lt2p[of y] by (simp add: uint_drop div_less_iff_less_mult)
    then have "nat (uint (drop_bit 32 y)) < 2 ^ 32" for y :: "64 word"
      using zless_nat_eq_int_zless[of "nat (uint (drop_bit 32 y))" "2 ^ 32"] by (metis nat_less_numeral_power_cancel_iff)
    then show ?thesis unfolding unat_eq_nat_uint by (intro take_bit_nat_eq_self)
  qed
  also have "\<dots> = nat ((uint w2 XOR uint w2 div 2 ^ 31) div 2 ^ 32)"
    by (simp only: uint_drop unsigned_xor_eq)
  finally show ?thesis unfolding Let_def u0[symmetric] u1[symmetric] u2[symmetric] .
qed

text \<open>A doorbell rung on an empty slot, and a GEMM of two rows by eight columns.\<close>

definition enabled_ring :: "sim \<Rightarrow> sim" where
  "enabled_ring s = sched 0 1 (Ev_Write PTQ_TAIL 1) (sched 0 1 (Ev_Write PTQ_CTRL 1) s)"

definition gemm_line :: bytes where
  "gemm_line = concat (map2 le_pack DESC [65600, 0, 0, 2, 1, 8, 64, 128, 192, 0, 0, 0])"

definition empty_slot :: sim where
  "empty_slot = enabled_ring (powered_on (\<lambda>_. 0))"

definition gemm_slot :: sim where
  "gemm_slot = enabled_ring ((powered_on (\<lambda>_. 0))\<lparr>mem := (mem (powered_on (\<lambda>_. 0)))(0 \<mapsto> gemm_line)\<rparr>)"

lemma reached_ring: "reached s \<Longrightarrow> reached (enabled_ring s)"
proof -
  assume "reached s"
  then have "reached (sched 0 1 (Ev_Write PTQ_CTRL 1) s)" by (rule reached.step) (rule mstep.access, simp add: reg_defs)
  then show ?thesis unfolding enabled_ring_def by (rule reached.step) (rule mstep.access, simp add: reg_defs)
qed

lemma reached_slots: "reached empty_slot" "reached gemm_slot"
proof -
  have "mstep (powered_on (\<lambda>_. 0)) ((powered_on (\<lambda>_. 0))\<lparr>mem := (mem (powered_on (\<lambda>_. 0)))(0 \<mapsto> gemm_line)\<rparr>)"
    by (rule mstep.host_store) (simp add: owned_def powered_on_def new_sim_def reset_def module_init_def)
  then have "reached ((powered_on (\<lambda>_. 0))\<lparr>mem := (mem (powered_on (\<lambda>_. 0)))(0 \<mapsto> gemm_line)\<rparr>)"
    by (rule reached.step[OF reached.power])
  then show "reached gemm_slot" unfolding gemm_slot_def by (rule reached_ring)
  show "reached empty_slot" unfolding empty_slot_def by (rule reached_ring[OF reached.power])
qed

definition record_acked :: sim where
  "record_acked = (case play 21 empty_slot of Some s \<Rightarrow> s | None \<Rightarrow> empty_slot)"

definition results_acked :: sim where
  "results_acked = (case play 37 gemm_slot of Some s \<Rightarrow> s | None \<Rightarrow> gemm_slot)"

lemma reached_acked: "reached record_acked" "reached results_acked"
  using reached_play reached_slots by (auto simp: record_acked_def results_acked_def split: option.split)

text \<open>What the witnesses need of the two states, each evaluated once.\<close>

definition at_record :: "sim \<Rightarrow> bool" where
  "at_record s \<longleftrightarrow> raised s = None \<and> due s \<and> polite s \<and> enable (modul s) \<and> head (modul (pop s)) \<noteq> head (modul s)
     \<and> take_bit 32 (head (modul s) + 1) = 1 \<and> slot (modul s) (head (modul s)) = 0"

definition at_results :: "sim \<Rightarrow> bool" where
  "at_results s \<longleftrightarrow> raised s = None \<and> q s \<noteq> [] \<and> snd (hd (q s)) = Ev_Go 1 (Ordered 2)
     \<and> (case gemms s 2 of Some gm \<Rightarrow> st_job gm = job_no (modul s) \<and> st_ordered gm + 1 = st_need gm \<and> 0 < st_n gm \<and> st_out gm = 192
        | None \<Rightarrow> False)"

lemma at_record_acked: "at_record record_acked"
  by code_simp

lemma at_results_acked: "at_results results_acked"
  by code_simp

theorem head_follows_status_witness:
  "head (modul (pop record_acked)) = 1
   \<and> (\<exists>rec st. mem record_acked 0 = Some rec \<and> word_at 0x30 rec = st \<and> final st \<and> prev (modul (pop record_acked)) = Some st)"
proof -
  have a: "raised record_acked = None" "due record_acked" "polite record_acked" "enable (modul record_acked)"
    "head (modul (pop record_acked)) \<noteq> head (modul record_acked)"
    and b: "take_bit 32 (head (modul record_acked) + 1) = 1" "slot (modul record_acked) (head (modul record_acked)) = 0"
    using at_record_acked by (simp_all add: at_record_def)
  show ?thesis using head_follows_status[OF reached_acked(1) a] unfolding b .
qed

theorem stopped_is_quiet_witness: "inflight (modul (powered_on (\<lambda>_. 0))) = 0 \<and> (\<forall>k a d. (k, Ev_Land a d) \<notin> set (q (powered_on (\<lambda>_. 0))))"
proof -
  have "raised (powered_on (\<lambda>_. 0)) = None" "\<not> bit (status_reg (modul (powered_on (\<lambda>_. 0)))) 0" by code_simp+
  then show ?thesis by (rule stopped_is_quiet[OF reached.power])
qed

theorem doorbell_bounded_witness: "sub32 (tail (modul record_acked)) (head (modul record_acked)) \<le> 2 ^ size_log2 (modul record_acked)"
proof -
  have "raised record_acked = None" "enable (modul record_acked)" using at_record_acked by (simp_all add: at_record_def)
  then show ?thesis by (rule doorbell_bounded[OF reached_acked(1)])
qed

theorem results_before_record_witness:
  "\<exists>gm. gemms results_acked 2 = Some gm \<and> mem results_acked 192 = Some (take LINE (st_raw gm))"
proof -
  note at = at_results_acked[unfolded at_results_def]
  have r: "raised results_acked = None" using at by simp
  obtain k es where q: "q results_acked = (k, Ev_Go 1 (Ordered 2)) # es" using at by (cases "q results_acked") auto
  obtain gm where g: "gemms results_acked 2 = Some gm" "st_job gm = job_no (modul results_acked)" "st_ordered gm + 1 = st_need gm"
    "0 < st_n gm" "st_out gm = 192"
    using at by (auto split: option.splits)
  show ?thesis using results_before_record[OF reached_acked(2) r q g(1-4)] g by simp
qed

section \<open>A command published, decoded and computed\<close>

text \<open>A command of two rows by three by two on the second bank, published to an empty ring.\<close>

definition small_cmd :: cmd where
  "small_cmd = \<lparr>cM = 2, cK = 3, cN = 2, bank = 1, cflags = 0, cfmt = 0, cexpect = DONE, teardown_cmd = False,
     cA = [1, -2, 3, 4, 5, -128], cW = [127, 0, -1, 7, 2, 9]\<rparr>"

definition idle_sim :: sim where
  "idle_sim = new_sim None (\<lambda>_. 0) host_init"

lemma small_published: "raised (publish_body small_cmd idle_sim) = None"
  by code_simp

lemma idle_sim_simps:
  "planted_fault idle_sim = None" "stale (host idle_sim) x = None" "alloc (host idle_sim) = BUF" "nxt (host idle_sim) = 0"
  "wedge_at (modul idle_sim) = None" "prev (modul idle_sim) = None" "fresh idle_sim = 0" "seed (modul idle_sim) = 0" "h_seed (host idle_sim) = 0"
  "gemm_ct (modul idle_sim) = 0"
  by (simp_all add: idle_sim_def new_sim_def host_init_def module_init_def reset_def)

theorem published_command_decoded_witness:
  "\<exists>d. d = fst (as_read_by_module (addr 0) (publish_body small_cmd idle_sim))
     \<and> got_descriptor [d] 0 idle_sim = start 0 d 2 3 2 0x20000 0x20040 0x20080 DONE idle_sim"
proof -
  have "BUF mod LINE = 0" "lines 6 = 1" by (simp_all add: BUF_def LINE_def lines_def)
  then show ?thesis
    using published_command_decoded[OF small_published, of idle_sim]
    by (auto simp: idle_sim_simps small_cmd_def act_at_def wgt_at_def out_at_def BUF_def LINE_def BANKS_def)
qed

text \<open>The GEMM the module makes of it, when nothing is raised.\<close>

definition small_g :: "shots_rec option" where
  "small_g = (let s' = publish_body small_cmd idle_sim in
     case reads (got_descriptor [fst (as_read_by_module (addr 0) s')] 0 idle_sim) 0 of None \<Rightarrow> None
     | Some r \<Rightarrow> (let t3 = then_read (rd_then r) (map (line s') (rd_addrs r)) idle_sim in if raised t3 = None then gemms t3 0 else None))"

lemma small_g_some: "map_option st_n small_g = Some 1"
  by code_simp

theorem results_are_the_gemm_witness:
  "\<exists>p u. cmds (host (publish_body small_cmd idle_sim)) 0 = Some p
     \<and> unpack_array 4 int32_unpack 4 (out_bytes p u) = Inr (gemm [1, -2, 3, 4, 5, -128] [127, 0, -1, 7, 2, 9] 2 3 2 (gemm_seed 0 0))
     \<and> checks_fired (check_done p 0 u) \<subseteq> insert C4 (checks_fired u)"
proof -
  let ?s' = "publish_body small_cmd idle_sim"
  let ?t1 = "got_descriptor [fst (as_read_by_module (addr 0) ?s')] 0 idle_sim"
  have "BUF mod LINE = 0" by (simp add: BUF_def LINE_def)
  then obtain r p where r: "reads ?t1 0 = Some r" and p: "cmds (host ?s') 0 = Some p"
    and main: "\<And>t2. raised (then_read (rd_then r) (map (line ?s') (rd_addrs r)) t2) = None \<Longrightarrow>
        \<exists>g. gemms (then_read (rd_then r) (map (line ?s') (rd_addrs r)) t2) (fresh t2) = Some g
          \<and> (\<forall>u. (\<forall>j < st_n g. line u (st_out g + j * LINE) = take LINE (drop (j * LINE) (st_raw g))) \<longrightarrow>
              unpack_array 4 int32_unpack 4 (out_bytes p u) = Inr (gemm [1, -2, 3, 4, 5, -128] [127, 0, -1, 7, 2, 9] 2 3 2 (gemm_seed 0 0))
              \<and> checks_fired (check_done p 0 u) \<subseteq> insert C4 (checks_fired u))"
    using results_are_the_gemm[OF small_published, of idle_sim]
    by (auto simp: idle_sim_simps small_cmd_def BANKS_def)
  let ?t3 = "then_read (rd_then r) (map (line ?s') (rd_addrs r)) idle_sim"
  have "raised ?t3 = None" using small_g_some r by (auto simp: small_g_def Let_def split: if_splits)
  from main[OF this] obtain g :: shots_rec where g: "\<forall>u. (\<forall>j < st_n g. line u (st_out g + j * LINE) = take LINE (drop (j * LINE) (st_raw g))) \<longrightarrow>
      unpack_array 4 int32_unpack 4 (out_bytes p u) = Inr (gemm [1, -2, 3, 4, 5, -128] [127, 0, -1, 7, 2, 9] 2 3 2 (gemm_seed 0 0))
      \<and> checks_fired (check_done p 0 u) \<subseteq> insert C4 (checks_fired u)" by blast
  have "\<forall>j < st_n g. line (idle_sim\<lparr>mem := written (st_out g) (st_n g) (part_of (st_raw g)) (mem idle_sim)\<rparr>) (st_out g + j * LINE)
      = take LINE (drop (j * LINE) (st_raw g))" by (simp add: line_def written_at part_of_def)
  from mp[OF spec[OF g] this] p show ?thesis by blast
qed

section \<open>Three things the design's host does not do\<close>

text \<open>A line of the module's is on its way to the address.\<close>

definition in_flight :: "nat \<Rightarrow> sim \<Rightarrow> bool" where
  "in_flight a s \<longleftrightarrow> list_ex (\<lambda>x. case snd x of Ev_Land a' d \<Rightarrow> a' = a | _ \<Rightarrow> False) (q s)"

definition reset_while_shooting :: sim where
  "reset_while_shooting = steps 3 (sched 0 1 Ev_Reset (steps 26 gemm_slot))"

definition writes_after_reset :: "sim \<Rightarrow> bool" where
  "writes_after_reset s \<longleftrightarrow> resets (modul s) = 2 \<and> \<not> bit (status_reg (modul s)) 0 \<and> in_flight 192 s"

text \<open>A function-level reset does not stop a GEMM whose job number is 0: the shots check the number alone, which the
  reset sets back to 0.  Here a GEMM has sent no line when it is reset, and its line leaves after that with ENABLED at 0.\<close>

lemma reset_leaves_gemm_running:
  "\<not> in_flight 192 (steps 26 gemm_slot) \<and> writes_after_reset reset_while_shooting"
proof
  show "\<not> in_flight 192 (steps 26 gemm_slot)" by code_simp
  show "writes_after_reset reset_while_shooting" by code_simp
qed

lemma bit0_status: "bit (status_reg m) 0 \<longleftrightarrow> enabled m"
  by (auto simp: status_reg_def bit_0 even_or_iff)

lemma kick_starts:
  assumes "enable (modul s)" "\<not> busy (modul s)" "halted (modul s) = 0" "\<not> wedged (modul s)" "head (modul s) \<noteq> tail (modul s)"
  shows "modul (kick s) = (modul s)\<lparr>busy := True\<rparr>" "gemms (kick s) = gemms s" "raised (kick s) = raised s"
    "\<exists>r. reads (kick s) (fresh s) = Some r \<and> rd_then r = Got_Descriptor (head (modul s)) \<and> rd_addrs r = [slot (modul s) (head (modul s))]"
  using assms by (simp_all add: kick_def read_lines_def Let_def request_line_def sched_def drawn_def upd_m_def slot_def)

text \<open>[C39] Enabling a queue that still drains does not cancel the drain.  In every state in which a disabled queue waits
  for the acknowledgement of one line of a dropped GEMM: when it is enabled, a doorbell within the ring is rung, and the
  acknowledgement comes, STATUS reads stopped while the queue is enabled and the module is busy with the new
  command.\<close>

theorem reenabled_reads_stopped:
  fixes s :: sim and v t sid :: nat
  defines "s' \<equiv> fold dispatch [Ev_Write PTQ_CTRL v, Ev_Write PTQ_TAIL t, Ev_Go (gen (modul s)) (Ordered sid)] s"
  assumes "raised s = None" "\<not> wedged (modul s)" "draining (modul s)" "\<not> enable (modul s)" "\<not> busy (modul s)" "inflight (modul s) = 1"
    and "gemms s sid = Some gm" "st_job gm \<noteq> job_no (modul s)"
    and "bit v 0" "t \<noteq> tail (modul s)" "sub32 t (tail (modul s)) \<le> 2 ^ size_log2 (modul s)" "sub32 t (tail (modul s)) \<le> 2 ^ 31"
  shows "enable (modul s') \<and> busy (modul s') \<and> \<not> bit (status_reg (modul s')) 0
    \<and> (\<exists>r. reads s' (fresh s) = Some r \<and> rd_then r = Got_Descriptor (tail (modul s)))"
proof -
  define m1 where "m1 = (modul s)\<lparr>irq_en := bit v 1, enable := True, enabled := True, head := tail (modul s), prev := None, halted := 0\<rparr>"
  have s1: "dispatch (Ev_Write PTQ_CTRL v) s = upd_m (\<lambda>_. m1) s"
    using assms(3,5,10) by (simp add: on_write_def write_ctrl_def Let_def kick_def upd_m_def m1_def)
  define s2 where "s2 = upd_m (\<lambda>_. m1\<lparr>tail := t\<rparr>) s"
  have e2: "dispatch (Ev_Write PTQ_TAIL t) (upd_m (\<lambda>_. m1) s) = kick s2"
    using assms(3,11-13) by (simp add: on_write_def write_tail_def Let_def upd_m_def m1_def s2_def reg_defs)
  have k: "modul (kick s2) = (modul s2)\<lparr>busy := True\<rparr>" "gemms (kick s2) = gemms s2" "raised (kick s2) = raised s2"
    "\<exists>r. reads (kick s2) (fresh s2) = Some r \<and> rd_then r = Got_Descriptor (head (modul s2)) \<and> rd_addrs r = [slot (modul s2) (head (modul s2))]"
    by (rule kick_starts; use assms(3,6,11) in \<open>simp add: s2_def upd_m_def m1_def\<close>)+
  have s': "s' = dispatch (Ev_Go (gen (modul s)) (Ordered sid)) (kick s2)" by (simp add: s'_def s1 e2 del: dispatch.simps)
  have m2: "modul s2 = m1\<lparr>tail := t\<rparr>" "gemms s2 = gemms s" "raised s2 = None" "fresh s2 = fresh s"
    using assms(2) by (simp_all add: s2_def upd_m_def)
  define g' where "g' = gm\<lparr>st_ordered := st_ordered gm + 1\<rparr>"
  define s3 where "s3 = (upd_m (\<lambda>m. m\<lparr>inflight := inflight m - 1\<rparr>) (kick s2))\<lparr>gemms := (gemms s)(sid \<mapsto> g')\<rparr>"
  have "then_go (Ordered sid) (upd_m (\<lambda>m. m\<lparr>inflight := inflight m - 1\<rparr>) (kick s2)) = s3"
    using assms(8,9) k(1,2) m2 by (simp add: ordered_def Let_def s3_def g'_def m1_def upd_m_def)
  moreover have "raised s3 = None" using k(3) m2(3) by (simp add: s3_def upd_m_def)
  ultimately have "s' = settle s3" unfolding s' using k(1) m2(1) by (simp add: on_go_def Let_def m1_def)
  moreover have m3: "modul s3 = (modul (kick s2))\<lparr>inflight := 0\<rparr>" "reads s3 = reads (kick s2)"
    using k(1) m2(1) assms(7) by (simp_all add: s3_def upd_m_def m1_def)
  ultimately have "modul s' = (modul s3)\<lparr>enabled := False, draining := False\<rparr>" "reads s' = reads (kick s2)"
    using k(1) m2(1) assms(4) by (simp_all add: settle_def upd_m_def m1_def)
  moreover obtain r where "reads (kick s2) (fresh s) = Some r" "rd_then r = Got_Descriptor (tail (modul s))"
    using k(4) m2(1,4) by (auto simp: m1_def)
  ultimately show ?thesis using m2(1) by (simp add: bit0_status m3 k(1) m1_def)
qed

definition draining_gemm :: sim where
  "draining_gemm = (case play 31 gemm_slot of None \<Rightarrow> gemm_slot
     | Some s \<Rightarrow> (case play 1 (sched 0 1 (Ev_Write PTQ_CTRL 0) s) of None \<Rightarrow> gemm_slot | Some s' \<Rightarrow> s'))"

definition one_line_out :: "sim \<Rightarrow> bool" where
  "one_line_out s \<longleftrightarrow> raised s = None \<and> \<not> wedged (modul s) \<and> draining (modul s) \<and> \<not> enable (modul s) \<and> \<not> busy (modul s)
     \<and> inflight (modul s) = 1 \<and> tail (modul s) = 1
     \<and> (case gemms s 2 of Some gm \<Rightarrow> st_job gm \<noteq> job_no (modul s) | None \<Rightarrow> False)"

lemma one_line_out_draining: "one_line_out draining_gemm"
  by code_simp

theorem reenabled_reads_stopped_witness:
  "\<exists>s'. s' = fold dispatch [Ev_Write PTQ_CTRL 1, Ev_Write PTQ_TAIL 2, Ev_Go (gen (modul draining_gemm)) (Ordered 2)] draining_gemm
     \<and> enable (modul s') \<and> busy (modul s') \<and> \<not> bit (status_reg (modul s')) 0"
proof -
  note o = one_line_out_draining[unfolded one_line_out_def]
  obtain gm where gm: "gemms draining_gemm 2 = Some gm" "st_job gm \<noteq> job_no (modul draining_gemm)" using o by (auto split: option.splits)
  have "sub32 2 1 = 1" by (simp add: sub32_def)
  then have "let s' = fold dispatch [Ev_Write PTQ_CTRL 1, Ev_Write PTQ_TAIL 2, Ev_Go (gen (modul draining_gemm)) (Ordered 2)] draining_gemm
      in enable (modul s') \<and> busy (modul s') \<and> \<not> bit (status_reg (modul s')) 0
        \<and> (\<exists>r. reads s' (fresh draining_gemm) = Some r \<and> rd_then r = Got_Descriptor (tail (modul draining_gemm)))"
    unfolding Let_def by (intro reenabled_reads_stopped[OF _ _ _ _ _ _ gm]) (use o in \<open>simp_all add: bit_0\<close>)
  then show ?thesis unfolding Let_def by blast
qed

text \<open>[C40] The doorbell is not cut to 32 bits where \<open>PTQ_HEAD\<close> is.  When the host has published \<open>2 ^ 32\<close> commands and all
  but the last have ended, \<open>ring\<close> writes the unwrapped index to \<open>PTQ_TAIL\<close>; the module keeps it, and once the last
  command ends its head, cut to 0, is unlike its tail: though no slot is left between them it goes on to read the slot of
  a command the host has not published.\<close>

theorem wrap_runs_past_tail:
  fixes s s3 :: sim and st :: nat
  defines "s1 \<equiv> ring s"
  defines "s2 \<equiv> dispatch (Ev_Write PTQ_TAIL (nxt (host s))) s1"
  defines "s4 \<equiv> ended M32 st (job_no (modul s)) s3"
  assumes "enable (modul s)" "\<not> busy (modul s)" "halted (modul s) = 0" "\<not> wedged (modul s)"
    and "head (modul s) = M32" "tail (modul s) = M32" "nxt (host s) = M32 + 1"
    and "\<exists>w e. modul s3 = (modul s2)\<lparr>gemm_ct := w, inflight := e\<rparr>" "planted_fault s3 = None"
  shows "((now s + L, 1, seqno s + 1), Ev_Write PTQ_TAIL (nxt (host s))) \<in> set (q s1) \<and> busy (modul s2)
    \<and> head (modul s4) = 0 \<and> sub32 (nxt (host s)) (head (modul s4)) = 0 \<and> busy (modul s4)
    \<and> (\<exists>r. reads s4 (fresh s3) = Some r \<and> rd_then r = Got_Descriptor 0 \<and> rd_addrs r = [slot (modul s) 0])"
proof -
  have M: "M32 + 1 = 2 ^ 32" by (simp add: M32_def)
  have z: "take_bit 32 (Suc M32) = 0" by (simp add: M32_def)
  have d: "sub32 (Suc M32) M32 = 1" by (simp add: sub32_def)
  have q1: "((now s + L, 1, seqno s + 1), Ev_Write PTQ_TAIL (nxt (host s))) \<in> set (q s1)" and m1: "modul s1 = modul s"
    by (simp_all add: s1_def ring_def host_write_def mmio_write_def sched_def set_insort_key reg_defs upd_h_def)
  define t1 where "t1 = upd_m (\<lambda>m. m\<lparr>tail := Suc M32\<rparr>) s1"
  have "s2 = kick t1" using assms(4,7-9) d
    by (simp add: s2_def t1_def on_write_def write_tail_def Let_def m1 assms(10) reg_defs)
  then have m2: "modul s2 = (modul s)\<lparr>tail := 2 ^ 32, busy := True\<rparr>"
    using kick_starts(1)[of t1] assms(4-8) by (simp add: t1_def m1 upd_m_def M32_def)
  then obtain w e where m3: "modul s3 = (modul s)\<lparr>tail := 2 ^ 32, busy := True, gemm_ct := w, inflight := e\<rparr>" using assms(11) by auto
  define t4 where "t4 = upd_m (\<lambda>m. m\<lparr>head := take_bit 32 (M32 + 1), prev := Some st\<rparr>) (upd_m (\<lambda>m. m\<lparr>busy := False\<rparr>) s3)"
  define t5 where "t5 = irq (head (modul t4)) t4"
  have t5: "modul t5 = modul t4" "fresh t5 = fresh t4" by (simp_all add: t5_def irq_def sched_def)
  have s4: "s4 = kick t5" using assms(4,12) m3 by (simp add: s4_def t5_def t4_def ended_def Let_def faulty_def)
  have m4: "modul t4 = (modul s)\<lparr>tail := 2 ^ 32, busy := False, gemm_ct := w, inflight := e, head := 0, prev := Some st\<rparr>" "fresh t4 = fresh s3"
    using z by (simp_all add: t4_def m3 upd_m_def)
  have k: "modul (kick t5) = (modul t5)\<lparr>busy := True\<rparr>"
    "\<exists>r. reads (kick t5) (fresh t5) = Some r \<and> rd_then r = Got_Descriptor (head (modul t5)) \<and> rd_addrs r = [slot (modul t5) (head (modul t5))]"
    by (rule kick_starts; use assms(4,6,7) in \<open>simp add: t5 m4\<close>)+
  show ?thesis using q1 m2 k unfolding s4 t5 m4 assms(10) M by (simp add: sub32_def slot_def)
qed

text \<open>A host that has published \<open>2 ^ 32\<close> commands and a queue enabled at the last of them.\<close>

definition before_wrap :: sim where
  "before_wrap = (powered_on (\<lambda>_. 0))\<lparr>host := host_init\<lparr>nxt := M32 + 1\<rparr>\<rparr>"

definition at_wrap :: sim where
  "at_wrap = (case play 2 (sched 0 1 (Ev_Write PTQ_CTRL 1) (sched 0 1 (Ev_Write PTQ_TAIL M32) before_wrap)) of None \<Rightarrow> before_wrap | Some s \<Rightarrow> s)"

definition last_left :: "sim \<Rightarrow> bool" where
  "last_left s \<longleftrightarrow> enable (modul s) \<and> \<not> busy (modul s) \<and> halted (modul s) = 0 \<and> \<not> wedged (modul s) \<and> head (modul s) = M32
     \<and> tail (modul s) = M32 \<and> nxt (host s) = M32 + 1 \<and> planted_fault s = None"

lemma last_left_at_wrap: "last_left at_wrap"
  by code_simp

lemma reached_at_wrap: "reached at_wrap"
proof -
  have "mstep (powered_on (\<lambda>_. 0)) before_wrap"
    using mstep.host_vars[where s = "powered_on (\<lambda>_. 0)" and h = "host_init\<lparr>nxt := M32 + 1\<rparr>"
        and b = "boxes (powered_on (\<lambda>_. 0))" and f = "fired (powered_on (\<lambda>_. 0))"]
    by (simp add: before_wrap_def)
  then have "reached before_wrap" by (rule reached.step[OF reached.power])
  then have "reached (sched 0 1 (Ev_Write PTQ_TAIL M32) before_wrap)" by (rule reached.step) (rule mstep.access, simp add: reg_defs M32_def)
  then have "reached (sched 0 1 (Ev_Write PTQ_CTRL 1) (sched 0 1 (Ev_Write PTQ_TAIL M32) before_wrap))"
    by (rule reached.step) (rule mstep.access, simp add: reg_defs)
  then show ?thesis using reached_play \<open>reached before_wrap\<close> by (auto simp: at_wrap_def split: option.split)
qed

theorem wrap_runs_past_tail_witness:
  "\<exists>s3 r. s3 = dispatch (Ev_Write PTQ_TAIL (nxt (host at_wrap))) (ring at_wrap)
     \<and> reads (ended M32 DONE (job_no (modul at_wrap)) s3) (fresh s3) = Some r \<and> rd_then r = Got_Descriptor 0
     \<and> reached at_wrap \<and> nxt (host at_wrap) = 2 ^ 32"
proof -
  note l = last_left_at_wrap[unfolded last_left_def]
  then have l1: "enable (modul at_wrap)" "\<not> busy (modul at_wrap)" "halted (modul at_wrap) = 0" "\<not> wedged (modul at_wrap)"
    "head (modul at_wrap) = M32" "tail (modul at_wrap) = M32" "nxt (host at_wrap) = M32 + 1" by simp_all
  let ?s3 = "dispatch (Ev_Write PTQ_TAIL (nxt (host at_wrap))) (ring at_wrap)"
  have pf: "planted_fault (kick s) = planted_fault s" for s
    by (simp add: kick_def read_lines_def Let_def request_line_def sched_def drawn_def)
  have "modul ?s3 = (modul ?s3)\<lparr>gemm_ct := gemm_ct (modul ?s3), inflight := inflight (modul ?s3)\<rparr>" by simp
  then have m: "\<exists>w e. modul ?s3 = (modul ?s3)\<lparr>gemm_ct := w, inflight := e\<rparr>" by blast
  have "planted_fault ?s3 = None" using l
    by (simp add: on_write_def write_tail_def Let_def pf ring_def host_write_def mmio_write_def reg_defs upd_h_def)
  note w = wrap_runs_past_tail[OF l1 m this, of DONE]
  obtain r :: read_rec where "reads (ended M32 DONE (job_no (modul at_wrap)) ?s3) (fresh ?s3) = Some r" "rd_then r = Got_Descriptor 0"
    using w by (elim conjE exE)
  then show ?thesis using l reached_at_wrap by (intro exI[of _ ?s3] exI[of _ r]) (simp add: M32_def)
qed

end
