(* ===== verification/Transport_Host.thy ===== *)
theory Transport_Host
  imports Transport_Run
begin

text \<open>
  The host's side of the ring, over whole runs of the simulation.  The slots outstanding are a queue
  no longer than the ring: \<open>publish\<close> adds at one end, \<open>try_end\<close> and \<open>end_lost\<close> take from the other.  From that the
  host's two rules about slots follow for every run: a slot is not reused before it has ended (the check C8), and
  none is left pending at a teardown (C10), unless the fault written for the check is planted.
\<close>

section \<open>The ring as the host keeps it\<close>

definition outstanding :: "sim \<Rightarrow> nat list" where
  "outstanding s = [hhead (host s)..<nxt (host s)]"

definition ring_limit :: "sim \<Rightarrow> nat" where
  "ring_limit s = ring_size + of_bool (faulty s Slot_Reuse)"

definition ring_ok :: "sim \<Rightarrow> bool" where
  "ring_ok s \<longleftrightarrow> hhead (host s) \<le> nxt (host s) \<and> length (outstanding s) \<le> ring_limit s
     \<and> {..<hhead (host s)} \<subseteq> h_ended (host s)
     \<and> (\<forall>i p. slot_of (host s) i = Some p \<longrightarrow> p < nxt (host s) \<and> take_bit RING_LOG2 p = i)"

text \<open>The faults written for the checks that have fired.\<close>

definition caught :: "sim \<Rightarrow> check_id set" where
  "caught s = {c. \<exists>g w. planted_fault s = Some g \<and> (g, w, c) \<in> set FAULTS}"

definition host_ok :: "fault option \<Rightarrow> sim \<Rightarrow> bool" where
  "host_ok F s \<longleftrightarrow> planted_fault s = F \<and> ring_ok s \<and> checks_fired s \<inter> {C8, C10} \<subseteq> caught s"

lemma caught_host: "C8 \<in> caught s \<longleftrightarrow> faulty s Slot_Reuse" "C10 \<in> caught s \<longleftrightarrow> faulty s Lost_Left_Pending"
  by (auto simp: caught_def FAULTS_def faulty_def)

lemma host_ok_same:
  assumes "host_ok F s" "planted_fault s' = planted_fault s" "nxt (host s') = nxt (host s)" "hhead (host s') = hhead (host s)"
    "h_ended (host s') = h_ended (host s)" "slot_of (host s') = slot_of (host s)"
    "checks_fired s' \<inter> {C8, C10} \<subseteq> checks_fired s"
  shows "host_ok F s'"
proof -
  have "caught s' = caught s" "ring_ok s' = ring_ok s"
    using assms(2-6) by (simp_all add: caught_def ring_ok_def outstanding_def ring_limit_def faulty_def)
  moreover have "checks_fired s' \<inter> {C8, C10} \<subseteq> checks_fired s \<inter> {C8, C10}" using assms(7) by (rule Int_greatest) (rule Int_lower2)
  ultimately show ?thesis using assms(1,2) unfolding host_ok_def by (metis subset_trans)
qed

lemma host_ok_leaves:
  assumes "leaves s s'" "host_ok F s"
  shows "host_ok F s'"
proof -
  have "checks_fired s' \<subseteq> checks_fired s \<union> {C5, C6, C9, C11}" using assms(1) unfolding leaves_def by (elim conjE)
  then have "checks_fired s' \<inter> {C8, C10} \<subseteq> (checks_fired s \<union> {C5, C6, C9, C11}) \<inter> {C8, C10}" by (rule Int_mono) (rule order_refl)
  also have "\<dots> \<subseteq> checks_fired s" by auto
  finally have "checks_fired s' \<inter> {C8, C10} \<subseteq> checks_fired s" .
  then show ?thesis using host_ok_same[OF assms(2)] assms(1) by (simp add: leaves_def)
qed

text \<open>A bounded queue: elements leave at the front, or one joins at the back where there is room.\<close>

definition queue_step :: "nat \<Rightarrow> nat list \<Rightarrow> nat list \<Rightarrow> bool" where
  "queue_step limit xs ys \<longleftrightarrow> (\<exists>k. ys = drop k xs) \<or> (length xs < limit \<and> (\<exists>x. ys = xs @ [x]))"

definition moves :: "sim \<Rightarrow> sim \<Rightarrow> bool" where
  "moves s s' \<longleftrightarrow> nxt (host s') = nxt (host s) \<and> hhead (host s) \<le> hhead (host s')"

definition host_step :: "fault option \<Rightarrow> sim \<Rightarrow> sim \<Rightarrow> bool" where
  "host_step F s s' \<longleftrightarrow> host_ok F s' \<and> (moves s s' \<or> nxt (host s') = nxt (host s) + 1 \<and> hhead (host s') = hhead (host s)
     \<and> length (outstanding s) < ring_limit s)"

lemma moves_leaves: "leaves s s' \<Longrightarrow> moves s s'"
  by (simp add: leaves_def moves_def)

lemma host_step_leaves: "leaves s s' \<Longrightarrow> host_ok F s \<Longrightarrow> host_step F s s'"
  using host_ok_leaves moves_leaves by (auto simp: host_step_def)

lemma host_step_then: "host_step F s s1 \<Longrightarrow> leaves s1 s2 \<Longrightarrow> host_step F s s2"
  using host_ok_leaves by (auto simp: host_step_def leaves_def moves_def)

lemma host_step_after: "leaves s s1 \<Longrightarrow> host_step F s1 s2 \<Longrightarrow> host_step F s s2"
  by (auto simp: host_step_def leaves_def moves_def outstanding_def ring_limit_def faulty_def)

lemma host_step_queue:
  assumes "host_step F s s'" "host_ok F s"
  shows "queue_step (ring_limit s) (outstanding s) (outstanding s')"
proof (cases "moves s s'")
  case True
  then have "outstanding s' = drop (hhead (host s') - hhead (host s)) (outstanding s)"
    by (simp add: moves_def outstanding_def drop_upt)
  then show ?thesis unfolding queue_step_def by blast
next
  case False
  then have "outstanding s' = outstanding s @ [nxt (host s)]" "length (outstanding s) < ring_limit s"
    using assms by (auto simp: host_step_def host_ok_def ring_ok_def outstanding_def)
  then show ?thesis unfolding queue_step_def by blast
qed

section \<open>Ending a slot\<close>

text \<open>The checks of \<open>complete\<close> change nothing of the ring and none of them is C8 or C10.\<close>

definition checked :: "sim \<Rightarrow> sim \<Rightarrow> bool" where
  "checked s0 s \<longleftrightarrow> mem s = mem s0 \<and> planted_fault s = planted_fault s0 \<and> nxt (host s) = nxt (host s0) \<and> hhead (host s) = hhead (host s0)
     \<and> h_ended (host s) = h_ended (host s0) \<and> slot_of (host s) = slot_of (host s0)
     \<and> checks_fired s \<inter> {C8, C10} \<subseteq> checks_fired s0"

named_theorems checked_intros

lemma checked_basic [checked_intros]:
  "checked s s" "checked s0 s \<Longrightarrow> c \<notin> {C8, C10} \<Longrightarrow> checked s0 (fail c s)" "checked s0 s \<Longrightarrow> checked s0 (raise_err e s)"
  "checked s0 s \<Longrightarrow> checked s0 (upd_h (\<lambda>h. h\<lparr>last_index := l, restart := r, slack := k\<rparr>) s)"
  "checked s0 s \<Longrightarrow> checked s0 s' \<Longrightarrow> checked s0 (if b then s else s')"
  by (auto simp: checked_def)

lemma checked_sum [checked_intros]:
  "(\<And>x. checked s0 (f x)) \<Longrightarrow> (\<And>x. checked s0 (g x)) \<Longrightarrow> checked s0 (case y of Inl x \<Rightarrow> f x | Inr x \<Rightarrow> g x)"
  by (cases y) simp_all

lemma checked_checks [checked_intros]:
  "checked s0 s \<Longrightarrow> checked s0 (check_fields c r s)" "checked s0 s \<Longrightarrow> checked s0 (check_status c st s)"
  "checked s0 s \<Longrightarrow> checked s0 (check_done c ix s)" "checked s0 s \<Longrightarrow> checked s0 (check_not_run c ix s)"
  unfolding check_fields_def check_status_def check_done_def check_not_run_def Let_def
  by (intro checked_intros; simp)+

lemma checked_outcome [checked_intros]: "checked s0 s \<Longrightarrow> checked s0 (check_outcome c st ix s)"
  unfolding check_outcome_def by (intro checked_intros)

text \<open>\<open>complete\<close> ends the slot it is given, or raises and ends none.\<close>

definition ends_slot :: "nat \<Rightarrow> sim \<Rightarrow> sim \<Rightarrow> bool" where
  "ends_slot idx s s' \<longleftrightarrow> (\<exists>s1. checked s s1 \<and> (raised s' \<noteq> None \<and> s' = s1
      \<or> (\<exists>e. s' = upd_h (\<lambda>h. h\<lparr>ends := e h, h_ended := insert idx (h_ended h), hhead := idx + 1\<rparr>) s1)))"

lemma ends_slot_complete: "ends_slot idx s (complete idx rec s)"
proof (cases "cmds (host s) idx")
  case None
  then show ?thesis using checked_basic(3)[OF checked_basic(1), of s KeyError] by (auto simp: ends_slot_def complete_def)
next
  case (Some c)
  define s3 where "s3 = check_outcome c (word_at 0x30 rec) (word_at 0x34 rec) (check_status c (word_at 0x30 rec) (check_fields c rec s))"
  have "checked s s3" unfolding s3_def by (intro checked_intros)
  moreover have "complete idx rec s = (if raised s3 \<noteq> None then s3
      else upd_h (\<lambda>h. h\<lparr>ends := (ends h)[min (word_at 0x30 rec) 5 := ends h ! min (word_at 0x30 rec) 5 + 1],
        h_ended := insert idx (h_ended h), hhead := idx + 1\<rparr>) s3)"
    unfolding complete_def Some option.case Let_def s3_def[symmetric] ..
  ultimately show ?thesis unfolding ends_slot_def by (cases "raised s3 = None") auto
qed

lemma ends_slot_ok:
  assumes "ends_slot (hhead (host s)) s s'" "host_ok F s" "hhead (host s) < nxt (host s)"
  shows "host_ok F s' \<and> mem s' = mem s \<and> moves s s' \<and> planted_fault s' = planted_fault s
    \<and> (raised s' = None \<longrightarrow> hhead (host s') = hhead (host s) + 1)"
proof -
  obtain s1 where c: "checked s s1" and s': "raised s' \<noteq> None \<and> s' = s1
      \<or> (\<exists>e. s' = upd_h (\<lambda>h. h\<lparr>ends := e h, h_ended := insert (hhead (host s)) (h_ended h), hhead := hhead (host s) + 1\<rparr>) s1)"
    using assms(1) by (auto simp: ends_slot_def)
  have s1: "host_ok F s1" using c host_ok_same[OF assms(2)] by (simp add: checked_def)
  have "host_ok F (upd_h (\<lambda>h. h\<lparr>ends := e h, h_ended := insert (hhead (host s)) (h_ended h), hhead := hhead (host s) + 1\<rparr>) s1)" for e
  proof -
    let ?s = "upd_h (\<lambda>h. h\<lparr>ends := e h, h_ended := insert (hhead (host s)) (h_ended h), hhead := hhead (host s) + 1\<rparr>) s1"
    have "caught ?s = caught s1" "faulty ?s = faulty s1" by (simp_all add: caught_def faulty_def fun_eq_iff)
    then show ?thesis using s1 c assms(3)
      by (auto simp: checked_def host_ok_def ring_ok_def outstanding_def ring_limit_def less_Suc_eq)
  qed
  then show ?thesis using s' s1 c by (auto simp: checked_def moves_def)
qed

lemma try_end_step:
  assumes "try_end s = (ok, s')" "host_ok F s"
  shows "host_step F s s'"
proof (cases ok)
  case True
  then have "hhead (host s) \<noteq> nxt (host s)" "s' = complete (hhead (host s)) (line s (addr (hhead (host s)))) s"
    using assms(1) by (auto simp: try_end_def Let_def split: if_splits)
  moreover have "hhead (host s) \<le> nxt (host s)" using assms(2) by (simp add: host_ok_def ring_ok_def)
  ultimately show ?thesis using ends_slot_ok[OF ends_slot_complete assms(2)] by (simp add: host_step_def)
next
  case False
  then show ?thesis using assms try_end_False[of s s'] host_step_leaves[OF leaves_refl] by simp
qed

section \<open>A teardown leaves nothing pending\<close>

text \<open>Once marked, a slot is not pending, and marking others does not change that.\<close>

lemma word_at_field: "length d = i \<Longrightarrow> word_at i (d @ le_pack 4 v @ d') = v mod 256 ^ 4"
  by (simp only: word_at_def drop_append drop_all le_unpack_pack take_append length_le_pack) (simp add: le_unpack_pack)

lemma status_marked:
  assumes "raised (mark_lost i s) = None" "i = j \<or> status s j \<noteq> PENDING"
  shows "status (mark_lost i s) j \<noteq> PENDING"
proof -
  define d where "d = take 0x30 (line s (addr i)) @ le_pack 4 LOST @ drop 0x34 (line s (addr i))"
  have e: "mark_lost i s = store (addr i) d s" by (simp only: mark_lost_def Let_def d_def)
  then have len: "length d = LINE" and m: "mem (mark_lost i s) = (mem s)(addr i \<mapsto> d)"
    using assms(1) by (auto simp: store_def split: if_splits)
  have "length (take 0x30 (line s (addr i))) = 0x30" using len unfolding d_def by (simp add: LINE_def)
  then have "word_at 0x30 d = LOST" unfolding d_def by (simp only: word_at_field) (simp add: LOST_def)
  then show ?thesis using m assms(2) by (cases "addr i = addr j") (auto simp: status_def line_def status_defs)
qed

lemma status_fold_marked:
  assumes "raised (fold mark_lost xs s) = None" "j \<in> set xs \<or> status s j \<noteq> PENDING"
  shows "status (fold mark_lost xs s) j \<noteq> PENDING"
  using assms
proof (induction xs arbitrary: s)
  case (Cons x xs)
  then have "raised (mark_lost x s) = None" using mark_lost_raised by simp
  then show ?case using Cons status_marked[of x s j] by (cases "x = j") auto
qed simp

lemma end_one_lost_slot:
  assumes "raised s = None" "status s idx \<noteq> PENDING \<or> faulty s Lost_Left_Pending"
    "host_ok F s" "hhead (host s) = idx" "idx < nxt (host s)"
  shows "host_ok F (end_one_lost idx s) \<and> mem (end_one_lost idx s) = mem s \<and> moves s (end_one_lost idx s)
    \<and> planted_fault (end_one_lost idx s) = planted_fault s
    \<and> (raised (end_one_lost idx s) = None \<longrightarrow> hhead (host (end_one_lost idx s)) = idx + 1)"
proof (cases "status s idx = PENDING")
  case True
  then have f: "faulty s Lost_Left_Pending" using assms(2) by simp
  let ?s1 = "fail C10 s"
  have "caught ?s1 = caught s" "ring_ok ?s1 = ring_ok s" by (simp_all add: caught_def ring_ok_def outstanding_def ring_limit_def faulty_def)
  then have "host_ok F ?s1" using assms(3) caught_host(2)[of s] f by (auto simp: host_ok_def)
  moreover have "ends_slot idx ?s1 (end_one_lost idx s)"
    unfolding ends_slot_def end_one_lost_def using True assms(1)
    by (intro exI[of _ ?s1] conjI checked_basic disjI2 exI[of _ ends]) simp
  ultimately show ?thesis using ends_slot_ok[of ?s1 "end_one_lost idx s"] assms(4,5) by (simp add: moves_def)
next
  case False
  then have "end_one_lost idx s = complete idx (line s (addr idx)) s" using assms(1) by (simp add: end_one_lost_def)
  then show ?thesis using ends_slot_ok[OF ends_slot_complete assms(3)] assms(4,5) by simp
qed

lemma fold_end_one_lost_ok:
  assumes "\<forall>j \<in> {a..<b}. status s j \<noteq> PENDING \<or> faulty s Lost_Left_Pending"
    "host_ok F s" "hhead (host s) = a" "b \<le> nxt (host s)"
  shows "host_ok F (fold end_one_lost [a..<b] s) \<and> moves s (fold end_one_lost [a..<b] s)"
  using assms
proof (induction "b - a" arbitrary: a s)
  case (Suc n)
  then have ab: "a < b" by simp
  show ?case
  proof (cases "raised s = None")
    case True
    let ?s = "end_one_lost a s"
    have e: "host_ok F ?s" "mem ?s = mem s" "moves s ?s" "planted_fault ?s = planted_fault s"
      "raised ?s = None \<Longrightarrow> hhead (host ?s) = a + 1"
      using end_one_lost_slot[OF True _ Suc.prems(2,3)] Suc.prems(1,4) ab by auto
    have "fold end_one_lost [a..<b] s = fold end_one_lost [a + 1..<b] ?s" using ab by (simp add: upt_conv_Cons)
    moreover have "host_ok F (fold end_one_lost [a + 1..<b] ?s) \<and> moves ?s (fold end_one_lost [a + 1..<b] ?s)"
    proof (cases "raised ?s = None")
      case True
      have "status ?s = status s" "faulty ?s = faulty s" using e(2,4) by (simp_all add: status_def line_def faulty_def fun_eq_iff)
      then show ?thesis using Suc.hyps(2) Suc.prems(1,4) e True by (intro Suc.hyps(1)) (auto simp: moves_def)
    next
      case False
      then show ?thesis using raised_end_one_lost e(1) by (simp add: moves_def)
    qed
    ultimately show ?thesis using e(3) by (simp add: moves_def)
  next
    case False
    then show ?thesis using raised_end_one_lost Suc.prems(2) by (simp add: moves_def)
  qed
qed (simp add: moves_def)

lemma leaves_mark_lost: "leaves s0 s \<Longrightarrow> leaves s0 (mark_lost i s)"
  by (auto simp: mark_lost_def store_def Let_def intro: left.kept_mem left.kept_raise)

lemma end_lost_step:
  assumes "host_ok F s"
  shows "host_step F s (end_lost s)"
proof -
  let ?n = "nxt (host s) - of_bool (faulty s Lost_Left_Pending)"
  define s1 where "s1 = fold mark_lost [hhead (host s)..<?n] s"
  have lv: "leaves s s1" unfolding s1_def by (intro left.kept_fold leaves_mark_lost leaves_refl)
  then have ok: "host_ok F s1" using host_ok_leaves assms by blast
  let ?s2 = "fold end_one_lost [hhead (host s)..<nxt (host s)] s1"
  have "host_ok F ?s2 \<and> moves s1 ?s2"
  proof (cases "raised s1 = None")
    case True
    have "status s1 j \<noteq> PENDING \<or> faulty s1 Lost_Left_Pending" if "j \<in> {hhead (host s)..<nxt (host s)}" for j
    proof (cases "faulty s Lost_Left_Pending")
      case True
      then show ?thesis using lv by (simp add: leaves_def faulty_def)
    next
      case False
      then have "s1 = fold mark_lost [hhead (host s)..<nxt (host s)] s" by (simp add: s1_def)
      then show ?thesis using status_fold_marked[of _ s j] \<open>raised s1 = None\<close> that by simp
    qed
    then show ?thesis by (intro fold_end_one_lost_ok ballI ok) (use lv in \<open>simp_all add: leaves_def\<close>)
  next
    case False
    then show ?thesis using raised_end_one_lost ok by (simp add: moves_def)
  qed
  then have "host_step F s1 ?s2" by (simp add: host_step_def)
  then have "host_step F s ?s2" by (rule host_step_after[OF lv])
  then show ?thesis unfolding end_lost_def Let_def s1_def[symmetric]
    by (rule host_step_then) (auto simp: leaves_def)
qed

section \<open>Publishing\<close>

text \<open>The slot a command takes was last taken by one that has ended.\<close>

lemma same_slot:
  assumes "p < n" "take_bit RING_LOG2 p = take_bit RING_LOG2 n"
  shows "p + ring_size \<le> n"
proof -
  have "p mod ring_size = n mod ring_size" using assms(2) by (simp add: take_bit_eq_mod)
  then have "ring_size dvd n - p" using assms(1) by (metis less_imp_le_nat mod_eq_dvd_iff_nat)
  then show ?thesis using assms(1) by (auto dest: dvd_imp_le)
qed

lemma room_limit: "0 < room s \<Longrightarrow> length (outstanding s) < ring_limit s"
  by (cases "faulty s Slot_Reuse") (auto simp: room_def ring_limit_def outstanding_def RING_LOG2_def)

lemma publish_slot_ok:
  assumes "host_ok F s" "0 < room s"
  shows "host_ok F (publish_slot c s)"
proof -
  let ?n = "nxt (host s)"
  define s1 where "s1 = (case slot_of (host s) (take_bit RING_LOG2 ?n) of
      Some p \<Rightarrow> if p \<notin> h_ended (host s) then fail C8 s else s | None \<Rightarrow> s)"
  have ring: "ring_ok s" using assms(1) by (simp add: host_ok_def)
  have room: "?n < hhead (host s) + ring_limit s" using assms(2)
    by (cases "faulty s Slot_Reuse") (simp_all add: room_def ring_limit_def RING_LOG2_def)
  have "faulty s Slot_Reuse" if p: "slot_of (host s) (take_bit RING_LOG2 ?n) = Some p" "p \<notin> h_ended (host s)" for p
  proof (rule ccontr)
    assume "\<not> faulty s Slot_Reuse"
    moreover have "p + ring_size \<le> ?n" using ring p(1) by (intro same_slot) (auto simp: ring_ok_def)
    moreover have "hhead (host s) \<le> p" using ring p(2) by (force simp: ring_ok_def)
    ultimately show False using room by (simp add: ring_limit_def)
  qed
  then have s1: "host s1 = host s" "planted_fault s1 = planted_fault s" "checks_fired s1 \<subseteq> checks_fired s \<union> caught s"
    by (auto simp: s1_def caught_host split: option.splits if_splits)
  let ?s = "publish_slot c s"
  have e: "nxt (host ?s) = ?n + 1" "hhead (host ?s) = hhead (host s)" "h_ended (host ?s) = h_ended (host s)"
    "slot_of (host ?s) = (slot_of (host s))(take_bit RING_LOG2 ?n \<mapsto> ?n)" "planted_fault ?s = planted_fault s" "fired ?s = fired s1"
    unfolding publish_slot_def Let_def s1_def[symmetric] by (simp_all add: store_def s1)
  have "caught ?s = caught s" "ring_limit ?s = ring_limit s" using e(5) by (simp_all add: caught_def ring_limit_def faulty_def)
  moreover have "ring_ok ?s" using ring room calculation(2)
    by (auto simp: ring_ok_def outstanding_def e less_Suc_eq split: if_splits)
  moreover have "checks_fired ?s \<inter> {C8, C10} \<subseteq> caught s" using s1(3) assms(1) unfolding e(6) host_ok_def by blast
  moreover have "planted_fault ?s = F" using assms(1) e(5) by (simp add: host_ok_def)
  ultimately show ?thesis by (simp add: host_ok_def)
qed

lemma publish_slot_step: "host_ok F s \<Longrightarrow> 0 < room s \<Longrightarrow> host_step F s (publish_slot c s)"
  using publish_slot_ok[of F s c] publish_slot_effect[of c s] by (simp add: host_step_def room_limit)

lemma publish_body_step:
  assumes "host_ok F s" "0 < room s"
  shows "host_step F s (publish_body c s)"
proof (cases rule: publish_body_slot[of c s])
  case (slot p s4)
  have "0 < room s4" using assms(2) slot(3) by (simp add: room_def leaves_def faulty_def)
  then show ?thesis using host_step_after[OF slot(3)] publish_slot_step host_ok_leaves[OF slot(3) assms(1)] slot(1) by simp
next
  case raise
  then show ?thesis using host_step_leaves assms(1) by blast
qed

section \<open>The script, the run\<close>

named_theorems leaves_intros

lemma leaves_upd_h [leaves_intros]:
  assumes "leaves s0 s" "\<And>h. nxt (g h) = nxt h" "\<And>h. hhead (g h) = hhead h" "\<And>h. h_ended (g h) = h_ended h" "\<And>h. slot_of (g h) = slot_of h"
  shows "leaves s0 (upd_h g s)"
  using assms by (simp add: leaves_def)

lemma leaves_sched [leaves_intros]: "leaves s0 s \<Longrightarrow> leaves s0 (sched dt p e s)"
  by (simp add: leaves_def)

lemmas leaves_basic [leaves_intros] = leaves_refl left.kept_upd_m left.kept_if left.kept_fold

lemma leaves_host_write [leaves_intros]: "leaves s0 s \<Longrightarrow> leaves s0 (host_write off val s)"
  unfolding host_write_def mmio_write_def by (intro leaves_intros) simp_all

lemma leaves_host_ops [leaves_intros]:
  "leaves s0 s \<Longrightarrow> leaves s0 (set_seed sd s)" "leaves s0 s \<Longrightarrow> leaves s0 (ring s)" "leaves s0 s \<Longrightarrow> leaves s0 (restart_queue s)"
  unfolding set_seed_def ring_def restart_queue_def Let_def by (intro leaves_intros; simp)+

lemma leaves_setup_ring [leaves_intros]: "leaves s0 s \<Longrightarrow> leaves s0 (setup_ring s)"
  unfolding setup_ring_def by (auto intro!: leaves_intros)

lemma leaves_new_box: "leaves s (snd (new_box off s))"
  by (simp add: new_box_def mmio_read_def leaves_def Let_def) blast

lemma frame_host_step:
  assumes "frame_step f s = ((fs, y), s')" "host_ok F s"
  shows "host_step F s s'"
proof (cases f)
  case (Fr_Publish c)
  show ?thesis
  proof (cases "room s \<le> 0")
    case True
    then show ?thesis using assms Fr_Publish try_end_step[of s] by (cases "try_end s") auto
  next
    case False
    then show ?thesis using assms Fr_Publish publish_body_step[of _ s c] by simp
  qed
next
  case (Fr_Drain_Loop quiet)
  obtain ok s1 where t: "try_end s = (ok, s1)" by force
  note st = try_end_step[OF t assms(2)]
  have "leaves s1 (upd_h (\<lambda>h. h\<lparr>timeouts := timeouts h + 1\<rparr>) s1)" by (intro leaves_intros) simp_all
  then show ?thesis using assms Fr_Drain_Loop t st host_step_then[OF st] host_step_leaves[OF leaves_refl]
    by (auto split: if_splits)
next
  case (Fr_Got_Head b)
  obtain ok s1 where t: "try_end s = (ok, s1)" by force
  have "host_step F s s1" "host_step F s (restart_queue (end_lost s))"
    using try_end_step[OF t assms(2)] host_step_then[OF end_lost_step[OF assms(2)] leaves_host_ops(3)[OF leaves_refl]] by simp_all
  then show ?thesis using assms Fr_Got_Head t host_step_leaves[OF leaves_refl] by (auto split: if_splits list.splits)
next
  case Fr_Reset_Resume
  let ?s1 = "set_seed (h_seed (host s)) (setup_ring s)"
  have lv: "leaves s ?s1" by (intro leaves_intros)
  then have "host_step F s (end_lost ?s1)" using host_step_after end_lost_step host_ok_leaves assms(2) by blast
  moreover have "leaves (end_lost ?s1) s'" using assms(1) Fr_Reset_Resume by (auto intro!: leaves_intros)
  ultimately show ?thesis by (rule host_step_then)
next
  case (Fr_Poll_Status t0)
  then show ?thesis using assms leaves_new_box[of s PTQ_STATUS] host_step_leaves by (cases "new_box PTQ_STATUS s") auto
next
  case Fr_Read_Head
  then show ?thesis using assms leaves_new_box[of s PTQ_HEAD] host_step_leaves by (cases "new_box PTQ_HEAD s") auto
next
  case (Fr_Got_Status t0 b)
  then show ?thesis using assms host_step_leaves[OF leaves_refl] by (auto split: if_splits list.splits)
next
  case (Fr_Await_Loop n quiet)
  then show ?thesis using assms host_step_leaves[OF leaves_refl] by (auto split: if_splits)
qed (use assms in \<open>auto intro!: host_step_leaves leaves_intros\<close>)

lemma frame_ok: "frame_step f s = ((fs, y), s') \<Longrightarrow> host_ok F s \<Longrightarrow> host_ok F s'"
  using frame_host_step by (auto simp: host_step_def)

lemma resume_ok:
  assumes "resume s = Some r"
  shows "host_ok F s \<longrightarrow> host_ok F (snd r)"
  using _ assms
proof (rule resume.raw_induct)
  fix rec s r
  assume IH: "\<And>s r. rec s = Some r \<Longrightarrow> host_ok F s \<longrightarrow> host_ok F (snd r)"
    and body: "(if frames (host s) = [] \<or> raised s \<noteq> None then Some (None, s)
      else case resume_step s of (Some dt, s') \<Rightarrow> Some (if raised s' = None then Some dt else None, s') | (None, s') \<Rightarrow> rec s') = Some r"
  show "host_ok F s \<longrightarrow> host_ok F (snd r)"
  proof (cases "frames (host s) = [] \<or> raised s \<noteq> None")
    case False
    then obtain f fs where f: "frames (host s) = f # fs" by (cases "frames (host s)") auto
    obtain new y s1 where st: "frame_step f s = ((new, y), s1)" by (metis prod.exhaust)
    let ?s2 = "upd_h (\<lambda>h. h\<lparr>frames := new @ fs\<rparr>) s1"
    have ok: "host_ok F ?s2" if "host_ok F s" using host_ok_leaves[OF leaves_upd_h[OF leaves_refl] frame_ok[OF st that]] by simp
    have "resume_step s = (y, ?s2)" by (simp add: resume_step_def f st)
    then show ?thesis using IH[of ?s2 r] body ok False by (cases y) auto
  qed (use body in auto)
qed

lemma host_ok_finish: "host_ok F s \<Longrightarrow> host_ok F (finish s)" "host_ok F s \<Longrightarrow> host_ok F (fail C12 s)"
  by (rule host_ok_same[of _ s], simp_all add: finish_def Let_def)+

lemma host_ok_drain_due: "host_ok F s \<Longrightarrow> host_ok F (watch (drain_due s))" "host_ok F s \<Longrightarrow> host_ok F (drain_due s)"
  by (blast intro: host_ok_leaves left.kept_watch leaves_drain_due leaves_refl)+

lemma run_loop_ok:
  assumes "run_loop limit wake s = Some r"
  shows "host_ok F s \<longrightarrow> host_ok F r"
  using _ assms
proof (rule run_loop.raw_induct)
  fix rec limit wake s r
  let ?s2 = "watch (drain_due s)"
  assume IH: "\<And>limit wake s r. rec limit wake s = Some r \<Longrightarrow> host_ok F s \<longrightarrow> host_ok F r"
    and body: "(let s1 = drain_due s in
      if raised s1 \<noteq> None then Some s1
      else let s2 = watch s1 in
        case (if wake \<le> now s2 then resume s2 else Some (Some (wake - now s2), s2)) of
          None \<Rightarrow> None
        | Some (None, s3) \<Rightarrow> Some (if raised s3 \<noteq> None then s3 else finish s3)
        | Some (Some dt, s3) \<Rightarrow>
            if limit < now s3 then Some (finish (fail C12 s3))
            else rec limit (now s3 + dt) (s3\<lparr>now := now s3 + 1\<rparr>)) = Some r"
  show "host_ok F s \<longrightarrow> host_ok F r"
  proof
    assume ok: "host_ok F s"
    show "host_ok F r"
    proof (cases "raised (drain_due s) = None")
      case True
      obtain y s3 where y: "(if wake \<le> now ?s2 then resume ?s2 else Some (Some (wake - now ?s2), ?s2)) = Some (y, s3)"
        using body True by (cases "if wake \<le> now ?s2 then resume ?s2 else Some (Some (wake - now ?s2), ?s2)") (auto simp: Let_def)
      have s3: "host_ok F s3" using y resume_ok[of ?s2 "(y, s3)"] host_ok_drain_due(1)[OF ok] by (auto split: if_splits)
      then have tick: "host_ok F (s3\<lparr>now := now s3 + 1\<rparr>)" by (rule host_ok_same) simp_all
      show ?thesis
      proof (cases y)
        case None
        then show ?thesis using body True y s3 host_ok_finish by (auto simp: Let_def split: if_splits)
      next
        case (Some dt)
        then have "r = finish (fail C12 s3) \<or> rec limit (now s3 + dt) (s3\<lparr>now := now s3 + 1\<rparr>) = Some r"
          using body True y by (simp add: Let_def split: if_splits)
        then show ?thesis using IH tick s3 host_ok_finish by blast
      qed
    next
      case False
      then show ?thesis using body host_ok_drain_due(2)[OF ok] by (auto simp: Let_def)
    qed
  qed
qed

lemma host_ok_init: "host_ok f (sim_init f link_raw cmd_raw)"
  by (simp add: host_ok_def ring_ok_def outstanding_def sim_init_def new_sim_def host_init_def)

text \<open>[C7] Every piece of the host's script refines one step of a bounded queue on the slots outstanding: it takes
  some from the front, or adds one at the back where the ring has room.\<close>

theorem frame_refines_queue:
  assumes "host_ok F s" "frame_step f s = ((fs, y), s')"
  shows "host_ok F s' \<and> queue_step (ring_limit s) (outstanding s) (outstanding s')"
  using frame_host_step[OF assms(2,1)] host_step_queue[OF _ assms(1)] by (simp add: host_step_def)

text \<open>The first command of a run, published into the empty ring.\<close>

definition first_cmd :: cmd where
  "first_cmd = \<lparr>cM = 1, cK = 1, cN = 1, bank = 0, cflags = 0, cfmt = 0, cexpect = DONE, teardown_cmd = False, cA = [3], cW = [5]\<rparr>"

definition fresh_run :: sim where
  "fresh_run = sim_init None (\<lambda>_. 0) (\<lambda>_. 0)"

theorem frame_refines_queue_witness:
  "queue_step (ring_limit fresh_run) (outstanding fresh_run) (outstanding (publish_body first_cmd fresh_run))
    \<and> outstanding fresh_run = []"
proof -
  have "0 < room fresh_run" "outstanding fresh_run = []"
    by (simp_all add: room_def outstanding_def fresh_run_def sim_init_def new_sim_def host_init_def)
  moreover from this have "frame_step (Fr_Publish first_cmd) fresh_run = (([], None), publish_body first_cmd fresh_run)" by simp
  moreover have "host_ok None fresh_run" unfolding fresh_run_def by (rule host_ok_init)
  ultimately show ?thesis using frame_refines_queue by blast
qed

text \<open>[C6] Over every run, with any fault planted or none, any delays on the link and any drawn commands: the slots
  outstanding are at most the ring's, one more where reuse is planted; every slot the host has passed has ended; and
  the host's checks on slots, C8 (a slot reused before it ended) and C10 (a slot left pending at a teardown), fire
  only where the planted fault is the one written for them.\<close>

theorem host_keeps_slots:
  "\<exists>s. run f link_raw cmd_raw = Some s \<and> hhead (host s) \<le> nxt (host s)
    \<and> nxt (host s) - hhead (host s) \<le> ring_size + of_bool (f = Some Slot_Reuse)
    \<and> {..<hhead (host s)} \<subseteq> h_ended (host s)
    \<and> fst ` set (fired s) \<inter> {C8, C10} \<subseteq> {c. \<exists>g w. f = Some g \<and> (g, w, c) \<in> set FAULTS}"
proof -
  let ?s0 = "sim_init f link_raw cmd_raw"
  have ok: "host_ok f ?s0" by (rule host_ok_init)
  then have "hhead (host ?s0) \<le> nxt (host ?s0)" by (simp add: host_ok_def ring_ok_def)
  then obtain s where s: "run f link_raw cmd_raw = Some s" unfolding run_def using run_loop_total by blast
  then have "host_ok f s" using run_loop_ok ok unfolding run_def by blast
  then have "ring_ok s" "fst ` set (fired s) \<inter> {C8, C10} \<subseteq> {c. \<exists>g w. f = Some g \<and> (g, w, c) \<in> set FAULTS}"
    "planted_fault s = f" by (auto simp: host_ok_def caught_def)
  then show ?thesis using s by (auto simp: ring_ok_def outstanding_def ring_limit_def faulty_def)
qed

end
