(* ===== verification/Canary_Tensors.thy ===== *)
theory Canary_Tensors
  imports Transport_Slot Py_Text "HOL-Library.AList"
begin

text \<open>
  \<^verbatim>\<open>docs/designs/pta_board_canary_golden.py\<close>: the declared format's arithmetic and the run that works every
  integer tensor of the canary out again.  The bundle is an association list from file names to bytes, in place of
  the folder; numbers are Python's integers.  The lemmas say what the two shifts compute (rounding, half up,
  and saturation), what the class of a vector is, that the assertions of the run keep every sum in an
  int32, and that no tensor the run works out can fail to encode.
\<close>

section \<open>Constants and files\<close>

definition N :: nat where "N = 1000"
definition C :: nat where "C = 1000"
definition IN :: nat where "IN = 64"
definition HID :: nat where "HID = 64"
definition OUT :: nat where "OUT = 16"
definition SH :: "nat \<times> nat" where "SH = (9, 9)"
definition S :: nat where "S = 9"
definition H_A :: nat where "H_A = 2"
definition H_W :: nat where "H_W = 2"
definition STEP :: int where "STEP = push_bit (S - H_A - H_W) 1"
definition LIM_CODE :: int where "LIM_CODE = 128"

type_synonym folder = "(string \<times> bytes) list"

definition raw :: "folder \<Rightarrow> string \<Rightarrow> py_error + bytes" where
  "raw fs name = (case map_of fs name of None \<Rightarrow> Inl OSError | Some b \<Rightarrow> Inr b)"

definition i8 :: "bytes \<Rightarrow> int list" where
  "i8 b = map sint b"

definition u8 :: "bytes \<Rightarrow> int list" where
  "u8 b = map uint b"

definition i32 :: "bytes \<Rightarrow> py_error + int list" where
  "i32 b = (if length b mod 4 \<noteq> 0 then Inl StructError else unpack_array 4 int32_unpack (length b div 4) b)"

definition rows :: "int list \<Rightarrow> nat \<Rightarrow> int list list" where
  "rows xs width = map (\<lambda>j. take width (drop (j * width) xs)) [0..<(length xs + width - 1) div width]"

section \<open>The declared format's arithmetic\<close>

definition rescale :: "int \<Rightarrow> nat \<Rightarrow> int" where
  "rescale v s =
     (let v1 = max v 0;
          v2 = (if s \<noteq> 0 then drop_bit s (v1 + push_bit (s - 1) 1) else v1)
      in min v2 127)"

definition act_code :: "int \<Rightarrow> int" where
  "act_code x = min (drop_bit 2 (x + 2)) 31"

definition converter :: "int \<Rightarrow> int \<times> bool" where
  "converter s =
     (let t = drop_bit 8 (drop_bit S (s * push_bit (H_A + H_W) 1 * 256) + 128)
      in (max (- LIM_CODE) (min (LIM_CODE - 1) t), \<not> (- LIM_CODE \<le> t \<and> t \<le> LIM_CODE - 1)))"

text \<open>\<open>sum(map(mul, x, wr))\<close>.\<close>

definition dot :: "int list \<Rightarrow> int list \<Rightarrow> int" where
  "dot x wr = sum_list (map2 (*) x wr)"

definition layer :: "int list \<Rightarrow> int list list \<Rightarrow> int list \<Rightarrow> nat \<Rightarrow> int list" where
  "layer x w b s = map (\<lambda>(wr, bn). rescale (dot x wr + bn) s) (zip w b)"

text \<open>\<open>classify\<close>: the loop over the codes with their positions; \<open>best\<close> is \<open>None\<close> before the first.\<close>

definition classify_step :: "int list \<Rightarrow> nat \<times> int \<Rightarrow> (int \<times> nat) option \<Rightarrow> py_error + (int \<times> nat) option" where
  "classify_step b = (\<lambda>(i, c) best.
     if length b \<le> i then Inl IndexError
     else let v = c * push_bit S 1 + b ! i in
       Inr (case best of None \<Rightarrow> Some (v, i) | Some (bv, _) \<Rightarrow> if bv < v then Some (v, i) else best))"

definition classify :: "int list \<Rightarrow> int list \<Rightarrow> py_error + nat" where
  "classify codes b =
     bindE (foldE (classify_step b) (List.enumerate 0 codes) None)
       (\<lambda>best. case best of None \<Rightarrow> Inl TypeError | Some (_, i) \<Rightarrow> Inr i)"

text \<open>\<open>hand_cases\<close>, assertion by assertion.\<close>

definition hand_cases :: "py_error + unit" where
  "hand_cases = assert_all
    [Inr (map (\<lambda>v. rescale v 9) [-5, 0, 255, 256, 767, 768, 65023, 65024, push_bit 30 1] = [0, 0, 0, 1, 1, 2, 127, 127, 127]),
     Inr (rescale 65279 9 = 127 \<and> rescale 64767 9 = 126),
     Inr (map act_code [0, 1, 2, 5, 6, 121, 122, 125, 126, 127] = [0, 0, 1, 1, 2, 30, 31, 31, 31, 31]),
     Inr (map (\<lambda>s. fst (converter s)) [0, 15, 16, 47, 48, -16, -17, -48, -49] = [0, 0, 1, 1, 2, 0, -1, -1, -2]),
     Inr (converter (127 * 32 + 15) = (127, False) \<and> converter (127 * 32 + 16) = (127, True)),
     Inr (converter (-128 * 32 - 16) = (-128, False) \<and> converter (-128 * 32 - 17) = (-128, True)),
     Inr (STEP = 32),
     bindE (classify [0, 0, 1] [0, 0, 0]) (\<lambda>c. if c \<noteq> 2 then Inr False else bindE (classify [1, 1, 0] [0, 0, 0]) (\<lambda>c'. Inr (c' = 0))),
     bindE (classify [1, 0] [0, 513]) (\<lambda>c. if c \<noteq> 1 then Inr False else bindE (classify [1, 0] [0, 512]) (\<lambda>c'. Inr (c' = 0))),
     Inr (N div 16 = 62 \<and> N mod 16 = 8)]"

section \<open>The run\<close>

record network =
  w1 :: "int list list"
  b1 :: "int list"
  w2 :: "int list list"
  b2 :: "int list"
  w3 :: "int list list"
  b3 :: "int list"

record corpus =
  px :: "int list list"
  x0 :: "int list list"
  labels :: "int list"
  cal_labels :: "int list"

definition load_corpus :: "folder \<Rightarrow> py_error + corpus" where
  "load_corpus fs =
     bindE (raw fs ''pixels_u8.bin'') (\<lambda>p.
     bindE (raw fs ''inputs_int8.bin'') (\<lambda>x.
     bindE (raw fs ''labels_u8.bin'') (\<lambda>l.
     bindE (raw fs ''cal_labels_u8.bin'') (\<lambda>cl.
       Inr \<lparr>px = rows (u8 p) IN, x0 = rows (i8 x) IN, labels = u8 l, cal_labels = u8 cl\<rparr>))))"

definition load_layer :: "folder \<Rightarrow> string \<Rightarrow> string \<Rightarrow> nat \<Rightarrow> py_error + int list list \<times> int list" where
  "load_layer fs wname bname width =
     bindE (raw fs wname) (\<lambda>w. bindE (raw fs bname) (\<lambda>b. bindE (i32 b) (\<lambda>bs. Inr (rows (i8 w) width, bs))))"

definition load_network :: "folder \<Rightarrow> py_error + network" where
  "load_network fs =
     bindE (load_layer fs ''fc1_weights_int8.bin'' ''fc1_bias_int32.bin'' IN) (\<lambda>(u1, c1).
     bindE (load_layer fs ''fc2_weights_int8.bin'' ''fc2_bias_int32.bin'' HID) (\<lambda>(u2, c2).
     bindE (load_layer fs ''fc3_weights_int8.bin'' ''fc3_bias_int32.bin'' HID) (\<lambda>(u3, c3).
       Inr \<lparr>w1 = u1, b1 = c1, w2 = u2, b2 = c2, w3 = u3, b3 = c3\<rparr>)))"

definition bias_room :: "int list \<Rightarrow> py_error + bool" where
  "bias_room bs = (case map abs bs of [] \<Rightarrow> Inl ValueError
     | v # vs \<Rightarrow> Inr (foldl max v vs + int IN * 127 * 128 < push_bit 31 1))"

definition shape_asserts :: "corpus \<Rightarrow> network \<Rightarrow> py_error + unit" where
  "shape_asserts co net = assert_all
    [Inr (length (px co) = length (x0 co) \<and> length (x0 co) = length (labels co) \<and> length (labels co) = N \<and> length (cal_labels co) = C),
     Inr (length (w1 net) = length (w2 net) \<and> length (w2 net) = HID \<and> length (w3 net) = OUT
       \<and> length (b1 net) = length (b2 net) \<and> length (b2 net) = HID \<and> length (b3 net) = OUT),
     Inr (list_all (list_all (\<lambda>v. -32 \<le> v \<and> v \<le> 31)) (w3 net) \<and> list_all (\<lambda>v. 0 \<le> v \<and> v \<le> 9) (labels co @ cal_labels co)),
     Inr (list_all (\<lambda>(pr, xr). list_all (\<lambda>(p, x). x = (127 * p + 127) div 255) (zip pr xr)) (zip (px co) (x0 co))),
     bias_room (b1 net @ b2 net)]"

text \<open>\<open>got\<close>, \<open>held\<close>, \<open>lo\<close> and \<open>hi\<close>.\<close>

record tensors =
  fc1_relu :: "int list"
  fc2_relu :: "int list"
  fc3_act_codes :: "int list"
  fc3_sums :: "int list"
  fc3_codes :: "int list"
  class_ids :: "int list"
  cal_fc3_codes :: "int list"
  held :: nat
  lo :: int
  hi :: int

definition no_tensors :: tensors where
  "no_tensors = \<lparr>fc1_relu = [], fc2_relu = [], fc3_act_codes = [], fc3_sums = [], fc3_codes = [], class_ids = [],
     cal_fc3_codes = [], held = 0, lo = LIM_CODE, hi = - LIM_CODE\<rparr>"

text \<open>One vector through the three layers: the two hidden outputs, FC3's activation codes, its sums, and the
  converter's codes of them with whether each was held.\<close>

definition forward :: "network \<Rightarrow> int list \<Rightarrow> int list \<times> int list \<times> int list \<times> int list \<times> (int \<times> bool) list" where
  "forward net x =
     (let a1 = layer x (w1 net) (b1 net) (fst SH);
          a2 = layer a1 (w2 net) (b2 net) (snd SH);
          ca = map act_code a2;
          s = map (dot ca) (w3 net)
      in (a1, a2, ca, s, map converter s))"

definition held_in :: "(int \<times> bool) list \<Rightarrow> nat" where
  "held_in cv = length (filter snd cv)"

definition run_cal :: "network \<Rightarrow> int list \<Rightarrow> tensors \<Rightarrow> tensors" where
  "run_cal net x t =
     (case forward net x of (a1, a2, ca, s, cv) \<Rightarrow>
        t\<lparr>held := held t + held_in cv, cal_fc3_codes := cal_fc3_codes t @ map fst cv\<rparr>)"

definition run_acc :: "network \<Rightarrow> int list \<Rightarrow> tensors \<Rightarrow> py_error + tensors" where
  "run_acc net x t =
     (case forward net x of (a1, a2, ca, s, cv) \<Rightarrow>
        let codes = map fst cv in
        if codes = [] then Inl TypeError
        else bindE (classify codes (b3 net)) (\<lambda>cl.
          Inr (t\<lparr>held := held t + held_in cv, lo := foldl min (lo t) codes, hi := foldl max (hi t) codes,
                 fc1_relu := fc1_relu t @ a1, fc2_relu := fc2_relu t @ a2, fc3_act_codes := fc3_act_codes t @ ca,
                 fc3_sums := fc3_sums t @ s, fc3_codes := fc3_codes t @ codes, class_ids := class_ids t @ [int cl]\<rparr>)))"

definition work :: "network \<Rightarrow> int list list \<Rightarrow> int list list \<Rightarrow> py_error + tensors" where
  "work net xs cal = bindE (foldE (run_acc net) xs no_tensors) (\<lambda>t. Inr (fold (run_cal net) cal t))"

definition got :: "tensors \<Rightarrow> (string \<times> int list) list" where
  "got t = [(''fc1_relu_int8.bin'', fc1_relu t), (''fc2_relu_int8.bin'', fc2_relu t), (''fc3_act_codes_u8.bin'', fc3_act_codes t),
     (''fc3_sums_int32.bin'', fc3_sums t), (''fc3_codes_int8.bin'', fc3_codes t), (''class_ids_u8.bin'', class_ids t),
     (''cal_fc3_codes_int8.bin'', cal_fc3_codes t)]"

text \<open>The bytes of a tensor, by its file's name; \<open>bytes(xs)\<close> refuses what is not a byte.\<close>

definition ends_with :: "string \<Rightarrow> string \<Rightarrow> bool" where
  "ends_with s e \<longleftrightarrow> length e \<le> length s \<and> drop (length s - length e) s = e"

definition encode :: "string \<Rightarrow> int list \<Rightarrow> py_error + bytes" where
  "encode f xs =
     (if ends_with f ''int32.bin'' then pack_array int32_ok int32_pack xs
      else if contains f ''_u8'' then (if list_all (\<lambda>v. 0 \<le> v \<and> v \<le> 255) xs then Inr (map word_of_int xs) else Inl ValueError)
      else pack_array int8_ok int8_pack xs)"

definition compare_one :: "folder \<Rightarrow> string \<times> int list \<Rightarrow> py_error + bool" where
  "compare_one fs = (\<lambda>(f, xs). bindE (raw fs f) (\<lambda>b. bindE (encode f xs) (\<lambda>mine. Inr (mine = b))))"

definition integer_checks :: "folder \<Rightarrow> py_error + tensors" where
  "integer_checks fs =
     bindE (load_corpus fs) (\<lambda>co.
     bindE (load_network fs) (\<lambda>net.
     bindE (shape_asserts co net) (\<lambda>_.
     bindE (raw fs ''cal_inputs_int8.bin'') (\<lambda>cal.
     bindE (work net (x0 co) (rows (i8 cal) IN)) (\<lambda>t.
     bindE (assert_all (Inr (held t = 0) # map (compare_one fs) (got t))) (\<lambda>_. Inr t))))))"

section \<open>What the shifts compute\<close>

lemma floor_half_up:
  assumes "0 < k"
  shows "\<lfloor>real_of_int a / real_of_int (2 * k) + 1 / 2\<rfloor> = (a + k) div (2 * k)"
proof -
  have "real_of_int a / real_of_int (2 * k) + 1 / 2 = real_of_int (a + k) / real_of_int (2 * k)"
    using assms by (simp add: field_simps)
  then show ?thesis using floor_divide_of_int_eq[of "a + k" "2 * k"] by simp
qed

lemma shift_half_up: "drop_bit (Suc n) (v + push_bit n 1) = \<lfloor>real_of_int v / 2 ^ Suc n + 1 / 2\<rfloor>"
  using floor_half_up[of "2 ^ n" v] by (simp add: drop_bit_eq_div push_bit_eq_mult)

lemma converter_shift: "drop_bit 8 (drop_bit S ((s :: int) * push_bit (H_A + H_W) 1 * 256) + 128) = (s + 16) div 32"
proof -
  have "(s * 16 * 256) div 512 = s * 8" for s :: int by simp
  moreover have "(s * 8 + 128) div 256 = (s + 16) div 32" for s :: int by simp
  ultimately show ?thesis by (simp add: drop_bit_eq_div push_bit_eq_mult S_def H_A_def H_W_def)
qed

text \<open>[C22] The declared format's arithmetic, against the real numbers: a hidden layer's output is the ReLU over
  \<open>2\<^sup>s\<close> rounded half up and held at 127, an activation code a quarter rounded half up and held at 31, and the
  converter's code the sum over its step of 32 rounded half up, held to a signed byte, the flag telling
  exactly the sums that were held.\<close>

theorem declared_format_rounds:
  "rescale v s = min 127 \<lfloor>real_of_int (max v 0) / 2 ^ s + 1 / 2\<rfloor>
   \<and> act_code v = min 31 \<lfloor>real_of_int v / 4 + 1 / 2\<rfloor>
   \<and> fst (converter v) = max (- 128) (min 127 \<lfloor>real_of_int v / real_of_int STEP + 1 / 2\<rfloor>)
   \<and> (snd (converter v) \<longleftrightarrow> fst (converter v) \<noteq> \<lfloor>real_of_int v / real_of_int STEP + 1 / 2\<rfloor>)"
proof (intro conjI)
  show "rescale v s = min 127 \<lfloor>real_of_int (max v 0) / 2 ^ s + 1 / 2\<rfloor>"
  proof (cases s)
    case 0
    have "\<lfloor>real_of_int (max v 0) + 1 / 2\<rfloor> = max v 0" by linarith
    then show ?thesis using 0 by (simp add: rescale_def min.commute)
  next
    case (Suc n)
    then show ?thesis using shift_half_up[of n "max v 0"] by (simp add: rescale_def min.commute)
  qed
  show "act_code v = min 31 \<lfloor>real_of_int v / 4 + 1 / 2\<rfloor>"
    using shift_half_up[of 1 v] by (simp add: act_code_def min.commute numeral_2_eq_2)
  have c: "\<lfloor>real_of_int v / real_of_int STEP + 1 / 2\<rfloor> = (v + 16) div 32"
    using floor_half_up[of 16 v] by (simp add: STEP_def S_def H_A_def H_W_def)
  show "fst (converter v) = max (- 128) (min 127 \<lfloor>real_of_int v / real_of_int STEP + 1 / 2\<rfloor>)"
    unfolding c converter_def Let_def converter_shift LIM_CODE_def by simp
  show "snd (converter v) \<longleftrightarrow> fst (converter v) \<noteq> \<lfloor>real_of_int v / real_of_int STEP + 1 / 2\<rfloor>"
    unfolding c converter_def Let_def converter_shift LIM_CODE_def by auto
qed

section \<open>The class\<close>

lemma classify_loop:
  assumes "k + length cs \<le> length b"
  shows "\<exists>v i. foldE (classify_step b) (List.enumerate k cs) (Some (bv, j)) = Inr (Some (v, i)) \<and> bv \<le> v
    \<and> (\<forall>m < length cs. cs ! m * 2 ^ S + b ! (k + m) \<le> v)
    \<and> (i = j \<and> v = bv \<or> (\<exists>m < length cs. i = k + m \<and> v = cs ! m * 2 ^ S + b ! i \<and> bv < v
          \<and> (\<forall>m' < m. cs ! m' * 2 ^ S + b ! (k + m') < v)))"
  using assms
proof (induction cs arbitrary: k bv j)
  case (Cons c cs)
  let ?v = "c * 2 ^ S + b ! k"
  let ?n = "if bv < ?v then (?v, k) else (bv, j)"
  have step: "classify_step b (k, c) (Some (bv, j)) = Inr (Some ?n)"
    using Cons.prems by (auto simp: classify_step_def Let_def push_bit_eq_mult)
  obtain v i where vi: "foldE (classify_step b) (List.enumerate (Suc k) cs) (Some ?n) = Inr (Some (v, i))"
    "fst ?n \<le> v" "\<forall>m < length cs. cs ! m * 2 ^ S + b ! (Suc k + m) \<le> v"
    "i = snd ?n \<and> v = fst ?n \<or> (\<exists>m < length cs. i = Suc k + m \<and> v = cs ! m * 2 ^ S + b ! i \<and> fst ?n < v
          \<and> (\<forall>m' < m. cs ! m' * 2 ^ S + b ! (Suc k + m') < v))"
    using Cons.IH[of "Suc k" "fst ?n" "snd ?n"] Cons.prems by auto
  have le: "\<forall>m < length (c # cs). (c # cs) ! m * 2 ^ S + b ! (k + m) \<le> v"
    using vi(2,3) by (auto simp: nth_Cons split: nat.splits if_splits)
  have pos: "i = j \<and> v = bv \<or> (\<exists>m < length (c # cs). i = k + m \<and> v = (c # cs) ! m * 2 ^ S + b ! i \<and> bv < v
          \<and> (\<forall>m' < m. (c # cs) ! m' * 2 ^ S + b ! (k + m') < v))"
    using vi(4)
  proof
    assume e: "i = snd ?n \<and> v = fst ?n"
    show ?thesis
    proof (cases "bv < ?v")
      case True
      then have "i = k + 0 \<and> v = (c # cs) ! 0 * 2 ^ S + b ! i \<and> bv < v" using e by simp
      then show ?thesis by blast
    qed (use e in simp)
  next
    assume "\<exists>m < length cs. i = Suc k + m \<and> v = cs ! m * 2 ^ S + b ! i \<and> fst ?n < v
          \<and> (\<forall>m' < m. cs ! m' * 2 ^ S + b ! (Suc k + m') < v)"
    then obtain m where m: "m < length cs" "i = Suc k + m" "v = cs ! m * 2 ^ S + b ! i" "fst ?n < v"
      "\<forall>m' < m. cs ! m' * 2 ^ S + b ! (Suc k + m') < v" by blast
    have "\<forall>m' < Suc m. (c # cs) ! m' * 2 ^ S + b ! (k + m') < v"
      using m(4,5) by (auto simp: nth_Cons split: nat.splits if_splits)
    moreover have "bv < v" using m(4) by (auto split: if_splits)
    ultimately show ?thesis using m by (intro disjI2 exI[of _ "Suc m"]) simp
  qed
  show ?case using step vi(1,2) le pos by (auto split: if_splits)
qed simp

lemma classify_first:
  assumes "codes \<noteq> []" "length codes \<le> length b"
  shows "\<exists>i < length codes. classify codes b = Inr i
    \<and> (\<forall>m < length codes. codes ! m * 2 ^ S + b ! m \<le> codes ! i * 2 ^ S + b ! i)
    \<and> (\<forall>m < i. codes ! m * 2 ^ S + b ! m < codes ! i * 2 ^ S + b ! i)"
proof -
  obtain c cs where c: "codes = c # cs" using assms(1) by (cases codes) auto
  let ?v = "c * 2 ^ S + b ! 0"
  have step: "classify_step b (0, c) None = Inr (Some (?v, 0))"
    using assms c by (auto simp: classify_step_def Let_def push_bit_eq_mult)
  obtain v i where vi: "foldE (classify_step b) (List.enumerate 1 cs) (Some (?v, 0)) = Inr (Some (v, i))" "?v \<le> v"
    "\<forall>m < length cs. cs ! m * 2 ^ S + b ! (1 + m) \<le> v"
    "i = 0 \<and> v = ?v \<or> (\<exists>m < length cs. i = 1 + m \<and> v = cs ! m * 2 ^ S + b ! i \<and> ?v < v
          \<and> (\<forall>m' < m. cs ! m' * 2 ^ S + b ! (1 + m') < v))"
    using classify_loop[of 1 cs b ?v 0] assms c by auto
  have "classify codes b = Inr i" using step vi(1) c by (simp add: classify_def)
  moreover have v: "i < length codes \<and> v = codes ! i * 2 ^ S + b ! i" using vi(4) c by auto
  moreover have "\<forall>m < length codes. codes ! m * 2 ^ S + b ! m \<le> v"
    using vi(2,3) c by (auto simp: nth_Cons split: nat.splits)
  moreover have "\<forall>m < i. codes ! m * 2 ^ S + b ! m < v"
    using vi(4) c by (auto simp: nth_Cons split: nat.splits)
  ultimately show ?thesis by metis
qed

text \<open>[C23] The class of a vector is the output with the largest code at its step with its bias, the lowest index
  on a tie.\<close>

theorem classify_first_largest:
  assumes "codes \<noteq> []" "length codes \<le> length b"
  shows "\<exists>i < length codes. classify codes b = Inr i
    \<and> (\<forall>m < length codes. codes ! m * 2 ^ S + b ! m \<le> codes ! i * 2 ^ S + b ! i)
    \<and> (\<forall>m < i. codes ! m * 2 ^ S + b ! m < codes ! i * 2 ^ S + b ! i)"
  by (rule classify_first[OF assms])

theorem classify_first_largest_witness: "classify [1, 3, 3] [0, -512, -512] = Inr 1"
proof -
  obtain i where i: "i < length [1, 3, 3 :: int]" "classify [1, 3, 3] [0, -512, -512] = Inr i"
    "\<forall>m < length [1, 3, 3 :: int]. [1, 3, 3] ! m * 2 ^ S + [0, -512, -512] ! m \<le> [1, 3, 3] ! i * 2 ^ S + ([0, -512, -512] :: int list) ! i"
    "\<forall>m < i. [1, 3, 3] ! m * 2 ^ S + [0, -512, -512] ! m < [1, 3, 3] ! i * 2 ^ S + ([0, -512, -512] :: int list) ! i"
    using classify_first_largest[of "[1, 3, 3]" "[0, -512, -512]"] by auto
  have "i < 3" using i(1) by simp
  then consider "i = 0" | "i = 1" | "i = 2" by linarith
  then have "i = 1"
  proof cases
    case 1 then show ?thesis using i(3)[rule_format, of 1] by (simp add: S_def)
  next
    case 3 then show ?thesis using i(4)[rule_format, of 1] by (simp add: S_def)
  qed
  then show ?thesis using i(2) by simp
qed

section \<open>Bounds\<close>

lemma dot_bound:
  assumes "list_all (\<lambda>v. 0 \<le> v \<and> v \<le> p) x" "list_all (\<lambda>v. - q \<le> v \<and> v \<le> q) wr" "length x \<le> n" "0 \<le> p" "0 \<le> q"
  shows "\<bar>dot x wr\<bar> \<le> int n * (p * q)"
proof -
  have "\<bar>dot x wr\<bar> \<le> int (length x) * (p * q)"
    using assms(1,2)
  proof (induction x arbitrary: wr)
    case (Cons a x)
    show ?case
    proof (cases wr)
      case Nil
      then show ?thesis using assms(4,5) by (simp add: dot_def)
    next
      case (Cons c ws)
      have a: "0 \<le> a" "a \<le> p" "\<bar>c\<bar> \<le> q" using Cons.prems Cons by auto
      have "\<bar>a * c\<bar> \<le> p * q" unfolding abs_mult using a by (intro mult_mono) auto
      moreover have "\<bar>dot x ws\<bar> \<le> int (length x) * (p * q)" using Cons.IH Cons.prems Cons by simp
      moreover have "dot (a # x) wr = a * c + dot x ws" using Cons by (simp add: dot_def)
      ultimately show ?thesis by (simp add: distrib_right)
    qed
  qed (simp add: dot_def)
  moreover have "int (length x) * (p * q) \<le> int n * (p * q)"
    using assms(3-5) by (intro mult_right_mono) auto
  ultimately show ?thesis by linarith
qed

lemma rescale_range: "0 \<le> rescale v s \<and> rescale v s \<le> 127"
  by (simp add: rescale_def Let_def drop_bit_eq_div pos_imp_zdiv_nonneg_iff)

lemma act_code_range: "0 \<le> x \<Longrightarrow> 0 \<le> act_code x \<and> act_code x \<le> 31"
  by (simp add: act_code_def drop_bit_eq_div)

lemma converter_range: "- 128 \<le> fst (converter v) \<and> fst (converter v) \<le> 127"
  by (simp add: converter_def Let_def LIM_CODE_def)

lemma layer_range: "v \<in> set (layer x w b s) \<Longrightarrow> 0 \<le> v \<and> v \<le> 127"
  using rescale_range by (auto simp: layer_def)

lemma length_layer [simp]: "length (layer x w b s) = min (length w) (length b)"
  by (simp add: layer_def)

section \<open>The sums in thirty-two bits\<close>

text \<open>The same layer on a 32-bit accumulator that wraps.\<close>

definition layer_int32 :: "int list \<Rightarrow> int list list \<Rightarrow> int list \<Rightarrow> nat \<Rightarrow> int list" where
  "layer_int32 x w b s =
     map (\<lambda>(wr, bn). rescale (sint (fold (\<lambda>(a, c) acc. acc + word_of_int a * word_of_int c) (zip x wr) (word_of_int bn) :: 32 word)) s) (zip w b)"

lemma fold_word: "fold (\<lambda>(a, c) acc. acc + word_of_int a * word_of_int c) (zip x wr) (word_of_int bn :: 'a::len word) = word_of_int (bn + dot x wr)"
proof (induction x arbitrary: wr bn)
  case (Cons a x)
  show ?case
  proof (cases wr)
    case (Cons c ws)
    have "fold (\<lambda>(a, c) acc. acc + word_of_int a * word_of_int c) (zip x ws) (word_of_int (bn + a * c) :: 'a word) = word_of_int (bn + a * c + dot x ws)"
      by (rule Cons.IH)
    then show ?thesis using Cons by (simp add: dot_def algebra_simps)
  qed (simp add: dot_def)
qed (simp add: dot_def)

lemma sint_word32: "int32_ok z \<Longrightarrow> sint (word_of_int z :: 32 word) = z"
  by (simp add: sint_sbintrunc' int32_ok_def signed_take_bit_int_eq_self_iff)

lemma foldl_max_ge: "a \<le> foldl max (a :: int) vs \<and> (\<forall>v \<in> set vs. v \<le> foldl max a vs)"
proof (induction vs arbitrary: a)
  case (Cons v vs)
  have "max a v \<le> foldl max (max a v) vs" "\<forall>u \<in> set vs. u \<le> foldl max (max a v) vs" using Cons[of "max a v"] by auto
  then show ?case by auto
qed simp

lemma bias_roomD: "bias_room bs = Inr True \<Longrightarrow> v \<in> set bs \<Longrightarrow> \<bar>v\<bar> + 64 * 127 * 128 < 2 ^ 31"
  using foldl_max_ge[of "hd (map abs bs)" "tl (map abs bs)"]
  by (cases bs) (auto simp: bias_room_def IN_def)

text \<open>[C21] An int32 sum holds every product and bias, as the run asserts it: with the biases its assertion
  admits, signed-byte weights and at most 64 inputs from 0 to 127, a layer worked out on a 32-bit accumulator that wraps is
  the layer over the unbounded integers.\<close>

theorem layer_fits_int32:
  assumes "bias_room (c1 @ c2) = Inr True" "set b \<subseteq> set (c1 @ c2)" "list_all (\<lambda>v. 0 \<le> v \<and> v \<le> 127) x" "length x \<le> IN"
    "list_all (list_all int8_ok) w"
  shows "layer_int32 x w b s = layer x w b s"
proof -
  have "int32_ok (bn + dot x wr)" if "(wr, bn) \<in> set (zip w b)" for wr bn
  proof -
    have "list_all int8_ok wr" using set_zip_leftD[OF that] assms(5) by (simp add: list_all_iff)
    then have "list_all (\<lambda>v. - 128 \<le> v \<and> v \<le> 128) wr" by (auto simp: list_all_iff int8_ok_def)
    then have "\<bar>dot x wr\<bar> \<le> 64 * (127 * 128)" using dot_bound[OF assms(3), of 128 wr 64] assms(4) by (simp add: IN_def)
    moreover have "\<bar>bn\<bar> + 64 * 127 * 128 < 2 ^ 31"
      using bias_roomD[OF assms(1)] set_zip_rightD[OF that] assms(2) by blast
    ultimately show ?thesis unfolding int32_ok_def by (simp add: abs_le_iff abs_less_iff)
  qed
  then have "sint (fold (\<lambda>(a, c) acc. acc + word_of_int a * word_of_int c) (zip x wr) (word_of_int bn) :: 32 word) = dot x wr + bn"
    if "(wr, bn) \<in> set (zip w b)" for wr bn
    unfolding fold_word using sint_word32 that by (metis add.commute)
  then show ?thesis unfolding layer_int32_def layer_def by (intro map_cong) auto
qed

theorem layer_fits_int32_witness:
  "layer_int32 [127, 127] [[127, -128], [-128, -128]] [2146443263, - 2146443263] 9 = layer [127, 127] [[127, -128], [-128, -128]] [2146443263, - 2146443263] 9"
  by (rule layer_fits_int32[of "[2146443263]" "[- 2146443263]"]) (simp_all add: bias_room_def IN_def int8_ok_def)

section \<open>What the run works out\<close>

text \<open>Every number of every tensor is one its file's type can hold.\<close>

definition encodable :: "tensors \<Rightarrow> bool" where
  "encodable t \<longleftrightarrow> list_all (\<lambda>v. 0 \<le> v \<and> v \<le> 127) (fc1_relu t) \<and> list_all (\<lambda>v. 0 \<le> v \<and> v \<le> 127) (fc2_relu t)
     \<and> list_all (\<lambda>v. 0 \<le> v \<and> v \<le> 31) (fc3_act_codes t) \<and> list_all int32_ok (fc3_sums t) \<and> list_all int8_ok (fc3_codes t)
     \<and> list_all (\<lambda>v. 0 \<le> v \<and> v < int OUT) (class_ids t) \<and> list_all int8_ok (cal_fc3_codes t)"

lemma forward_range:
  assumes "forward net x = (a1, a2, ca, s, cv)" "list_all (list_all (\<lambda>v. -32 \<le> v \<and> v \<le> 31)) (w3 net)" "length (w2 net) \<le> HID"
  shows "list_all (\<lambda>v. 0 \<le> v \<and> v \<le> 127) a1" "list_all (\<lambda>v. 0 \<le> v \<and> v \<le> 127) a2"
    "list_all (\<lambda>v. 0 \<le> v \<and> v \<le> 31) ca" "list_all int32_ok s" "list_all int8_ok (map fst cv)" "length cv = length (w3 net)"
proof -
  have e: "a1 = layer x (w1 net) (b1 net) (fst SH)" "a2 = layer a1 (w2 net) (b2 net) (snd SH)" "ca = map act_code a2"
    "s = map (dot ca) (w3 net)" "cv = map converter s"
    using assms(1) by (auto simp: forward_def Let_def)
  show "list_all (\<lambda>v. 0 \<le> v \<and> v \<le> 127) a1" "list_all (\<lambda>v. 0 \<le> v \<and> v \<le> 127) a2"
    using layer_range unfolding e(1,2) by (auto simp: list_all_iff)
  show ca: "list_all (\<lambda>v. 0 \<le> v \<and> v \<le> 31) ca"
    using layer_range[of _ a1 "w2 net" "b2 net" "snd SH"] act_code_range unfolding e(2,3) by (fastforce simp: list_all_iff)
  have "int32_ok (dot ca wr)" if "wr \<in> set (w3 net)" for wr
  proof -
    have "list_all (\<lambda>v. -32 \<le> v \<and> v \<le> 31) wr" using that assms(2) by (simp add: list_all_iff)
    then have "list_all (\<lambda>v. -32 \<le> v \<and> v \<le> 32) wr" by (auto simp: list_all_iff)
    moreover have "length ca \<le> 64" using assms(3) by (simp add: e(2,3) HID_def)
    ultimately have "\<bar>dot ca wr\<bar> \<le> 64 * (31 * 32)" using dot_bound[OF ca, of 32 wr 64] by simp
    then show ?thesis by (simp add: int32_ok_def abs_le_iff)
  qed
  then show "list_all int32_ok s" by (simp add: e(4) list_all_iff)
  show "list_all int8_ok (map fst cv)" using converter_range by (simp add: e(5) list_all_iff int8_ok_def)
  show "length cv = length (w3 net)" by (simp add: e(4,5))
qed

lemma run_acc_encodable:
  assumes net: "list_all (list_all (\<lambda>v. -32 \<le> v \<and> v \<le> 31)) (w3 net)" "length (w2 net) \<le> HID" "length (w3 net) = OUT" "length (b3 net) = OUT"
    and "encodable t"
  shows "\<exists>t'. run_acc net x t = Inr t' \<and> encodable t' \<and> length (fc3_codes t') = length (fc3_codes t) + OUT
    \<and> length (class_ids t') = length (class_ids t) + 1"
proof -
  obtain a1 a2 ca s cv where f: "forward net x = (a1, a2, ca, s, cv)" by (metis prod_cases5)
  note r = forward_range[OF f net(1,2)]
  have "map fst cv \<noteq> []" using r(6) net(3) by (auto simp: OUT_def)
  moreover obtain i where "i < length (map fst cv)" "classify (map fst cv) (b3 net) = Inr i"
    using classify_first[of "map fst cv" "b3 net"] r(6) net(3,4) calculation by auto
  ultimately show ?thesis using assms(5) r net(3)
    by (simp add: run_acc_def f encodable_def Let_def)
qed

lemma run_cal_encodable:
  assumes "list_all (list_all (\<lambda>v. -32 \<le> v \<and> v \<le> 31)) (w3 net)" "length (w2 net) \<le> HID" "encodable t"
  shows "encodable (run_cal net x t) \<and> fc3_codes (run_cal net x t) = fc3_codes t \<and> class_ids (run_cal net x t) = class_ids t"
proof -
  obtain a1 a2 ca s cv where f: "forward net x = (a1, a2, ca, s, cv)" by (metis prod_cases5)
  show ?thesis using forward_range(5)[OF f assms(1,2)] assms(3) by (simp add: run_cal_def f encodable_def)
qed

lemma foldE_run_acc:
  assumes net: "list_all (list_all (\<lambda>v. -32 \<le> v \<and> v \<le> 31)) (w3 net)" "length (w2 net) \<le> HID" "length (w3 net) = OUT" "length (b3 net) = OUT"
    and "encodable t"
  shows "\<exists>t'. foldE (run_acc net) xs t = Inr t' \<and> encodable t' \<and> length (fc3_codes t') = length (fc3_codes t) + length xs * OUT
    \<and> length (class_ids t') = length (class_ids t) + length xs"
  using assms(5)
proof (induction xs arbitrary: t)
  case (Cons x xs)
  obtain t1 where t1: "run_acc net x t = Inr t1" "encodable t1" "length (fc3_codes t1) = length (fc3_codes t) + OUT"
    "length (class_ids t1) = length (class_ids t) + 1"
    using run_acc_encodable[OF net Cons.prems] by blast
  obtain t2 where "foldE (run_acc net) xs t1 = Inr t2" "encodable t2" "length (fc3_codes t2) = length (fc3_codes t1) + length xs * OUT"
    "length (class_ids t2) = length (class_ids t1) + length xs"
    using Cons.IH[OF t1(2)] by blast
  then show ?case using t1 by simp
qed simp

lemma fold_run_cal:
  assumes "list_all (list_all (\<lambda>v. -32 \<le> v \<and> v \<le> 31)) (w3 net)" "length (w2 net) \<le> HID" "encodable t"
  shows "encodable (fold (run_cal net) xs t) \<and> fc3_codes (fold (run_cal net) xs t) = fc3_codes t
    \<and> class_ids (fold (run_cal net) xs t) = class_ids t"
  using assms(3) run_cal_encodable[OF assms(1,2)] by (induction xs arbitrary: t) auto

lemma encode_int8:
  "f \<in> {''fc1_relu_int8.bin'', ''fc2_relu_int8.bin'', ''fc3_codes_int8.bin'', ''cal_fc3_codes_int8.bin''}
    \<Longrightarrow> encode f xs = pack_array int8_ok int8_pack xs"
proof -
  have "list_all (\<lambda>f. \<not> ends_with f ''int32.bin'' \<and> \<not> contains f ''_u8'')
    [''fc1_relu_int8.bin'', ''fc2_relu_int8.bin'', ''fc3_codes_int8.bin'', ''cal_fc3_codes_int8.bin'']" by code_simp
  then show "f \<in> {''fc1_relu_int8.bin'', ''fc2_relu_int8.bin'', ''fc3_codes_int8.bin'', ''cal_fc3_codes_int8.bin''}
    \<Longrightarrow> encode f xs = pack_array int8_ok int8_pack xs"
    unfolding list_all_iff encode_def by auto
qed

lemma encode_int32: "encode ''fc3_sums_int32.bin'' xs = pack_array int32_ok int32_pack xs"
proof -
  have "ends_with ''fc3_sums_int32.bin'' ''int32.bin''" by code_simp
  then show ?thesis by (simp add: encode_def)
qed

lemma encode_u8:
  "f \<in> {''fc3_act_codes_u8.bin'', ''class_ids_u8.bin''} \<Longrightarrow> list_all (\<lambda>v. 0 \<le> v \<and> v \<le> 255) xs
    \<Longrightarrow> encode f xs = Inr (map word_of_int xs)"
proof -
  have "list_all (\<lambda>f. \<not> ends_with f ''int32.bin'' \<and> contains f ''_u8'') [''fc3_act_codes_u8.bin'', ''class_ids_u8.bin'']" by code_simp
  then show "f \<in> {''fc3_act_codes_u8.bin'', ''class_ids_u8.bin''} \<Longrightarrow> list_all (\<lambda>v. 0 \<le> v \<and> v \<le> 255) xs
    \<Longrightarrow> encode f xs = Inr (map word_of_int xs)"
    unfolding list_all_iff encode_def by auto
qed

definition encodes :: "string \<Rightarrow> int list \<Rightarrow> bool" where
  "encodes f xs \<longleftrightarrow> (\<exists>d. encode f xs = Inr d \<and> length d = (if f = ''fc3_sums_int32.bin'' then 4 else 1) * length xs)"

lemma encodes_int8:
  assumes "list_all int8_ok xs" "f \<in> {''fc1_relu_int8.bin'', ''fc2_relu_int8.bin'', ''fc3_codes_int8.bin'', ''cal_fc3_codes_int8.bin''}"
  shows "encodes f xs"
proof -
  have "f \<noteq> ''fc3_sums_int32.bin''" using assms(2) by auto
  then show ?thesis unfolding encodes_def encode_int8[OF assms(2)] using assms(1) int8.length_packed[OF assms(1)] by (simp add: pack_array_def)
qed

lemma encodes_u8:
  assumes "list_all (\<lambda>v. 0 \<le> v \<and> v \<le> 255) xs" "f \<in> {''fc3_act_codes_u8.bin'', ''class_ids_u8.bin''}"
  shows "encodes f xs"
proof -
  have "f \<noteq> ''fc3_sums_int32.bin''" using assms(2) by auto
  then show ?thesis unfolding encodes_def encode_u8[OF assms(2,1)] by simp
qed

lemma encodes_int32: "list_all int32_ok xs \<Longrightarrow> encodes ''fc3_sums_int32.bin'' xs"
  unfolding encodes_def encode_int32 using int32.length_packed[of xs] by (simp add: pack_array_def)

lemma encode_got:
  assumes "encodable t" "(f, xs) \<in> set (got t)"
  shows "encodes f xs"
proof -
  note e = assms(1)[unfolded encodable_def]
  have up: "list_all (\<lambda>v. 0 \<le> v \<and> v \<le> 127) ys \<Longrightarrow> list_all int8_ok ys" for ys by (auto simp: list_all_iff int8_ok_def)
  have byte: "list_all (\<lambda>v. 0 \<le> v \<and> v \<le> 31) ys \<Longrightarrow> list_all (\<lambda>v. 0 \<le> v \<and> v \<le> 255) ys"
    "list_all (\<lambda>v. 0 \<le> v \<and> v < int OUT) ys \<Longrightarrow> list_all (\<lambda>v. 0 \<le> v \<and> v \<le> 255) ys" for ys
    by (auto simp: list_all_iff OUT_def)
  have "encodes ''fc1_relu_int8.bin'' (fc1_relu t)" by (rule encodes_int8) (use e up in simp_all)
  moreover have "encodes ''fc2_relu_int8.bin'' (fc2_relu t)" by (rule encodes_int8) (use e up in simp_all)
  moreover have "encodes ''fc3_act_codes_u8.bin'' (fc3_act_codes t)" by (rule encodes_u8) (use e byte in simp_all)
  moreover have "encodes ''fc3_sums_int32.bin'' (fc3_sums t)" by (rule encodes_int32) (use e in simp)
  moreover have "encodes ''fc3_codes_int8.bin'' (fc3_codes t)" by (rule encodes_int8) (use e in simp_all)
  moreover have "encodes ''class_ids_u8.bin'' (class_ids t)" by (rule encodes_u8) (use e byte in simp_all)
  moreover have "encodes ''cal_fc3_codes_int8.bin'' (cal_fc3_codes t)" by (rule encodes_int8) (use e in simp_all)
  moreover have "list_all (\<lambda>(f, xs). encodes f xs) (got t)" unfolding got_def
    by (simp only: list.pred_inject case_prod_conv calculation simp_thms)
  ultimately show ?thesis using assms(2) by (auto simp only: list_all_iff)
qed

text \<open>[C18] The run that works the tensors out again never fails on its own arithmetic: with a network whose FC3 weights
  its assertions admit, whatever the inputs, every vector gets a class, every tensor encodes in its file's type, and
  a vector adds sixteen codes and one class.\<close>

theorem golden_run_encodes:
  assumes "list_all (list_all (\<lambda>v. -32 \<le> v \<and> v \<le> 31)) (w3 net)" "length (w2 net) = HID" "length (w3 net) = OUT" "length (b3 net) = OUT"
  shows "\<exists>t. work net xs cal = Inr t \<and> length (fc3_codes t) = OUT * length xs \<and> length (class_ids t) = length xs
    \<and> (\<forall>(f, vs) \<in> set (got t). \<exists>d. encode f vs = Inr d \<and> length d = (if f = ''fc3_sums_int32.bin'' then 4 else 1) * length vs)"
proof -
  have n: "length (w2 net) \<le> HID" using assms(2) by simp
  have "encodable no_tensors" by (simp add: encodable_def no_tensors_def)
  then obtain t1 where t1: "foldE (run_acc net) xs no_tensors = Inr t1" "encodable t1"
    "length (fc3_codes t1) = length xs * OUT" "length (class_ids t1) = length xs"
    using foldE_run_acc[OF assms(1) n assms(3,4), of no_tensors xs] by (auto simp: no_tensors_def)
  let ?t = "fold (run_cal net) cal t1"
  have f: "encodable ?t" "fc3_codes ?t = fc3_codes t1" "class_ids ?t = class_ids t1"
    using fold_run_cal[OF assms(1) n t1(2), of cal] by blast+
  show ?thesis
  proof (rule exI[of _ ?t], intro conjI)
    show "\<forall>(f, vs) \<in> set (got ?t). \<exists>d. encode f vs = Inr d \<and> length d = (if f = ''fc3_sums_int32.bin'' then 4 else 1) * length vs"
      using encode_got[OF f(1)] unfolding encodes_def Ball_def split_paired_All case_prod_conv by blast
  qed (use t1 f in \<open>simp_all add: work_def mult.commute\<close>)
qed

text \<open>A network with one weight in its third output.\<close>

definition one_weight :: network where
  "one_weight = \<lparr>w1 = replicate 64 (replicate 64 1), b1 = replicate 64 256, w2 = replicate 64 (replicate 64 16), b2 = replicate 64 0,
     w3 = replicate 2 (replicate 64 0) @ [31 # replicate 63 0] @ replicate 13 (replicate 64 0), b3 = replicate 16 0\<rparr>"

theorem golden_run_encodes_witness:
  "\<exists>t. work one_weight [replicate 64 127, replicate 64 0] [] = Inr t \<and> length (fc3_codes t) = 32
    \<and> list_all (\<lambda>(f, vs). encode f vs \<noteq> Inl StructError) (got t)"
proof -
  have "list_all (list_all (\<lambda>v. -32 \<le> v \<and> v \<le> 31)) (w3 one_weight)" "length (w2 one_weight) = HID"
    "length (w3 one_weight) = OUT" "length (b3 one_weight) = OUT"
    by (simp_all add: one_weight_def HID_def OUT_def list_all_iff)
  then obtain t where t: "work one_weight [replicate 64 127, replicate 64 0] [] = Inr t"
    "length (fc3_codes t) = OUT * length [replicate 64 127, replicate 64 (0 :: int)]"
    "\<forall>(f, vs) \<in> set (got t). \<exists>d. encode f vs = Inr d \<and> length d = (if f = ''fc3_sums_int32.bin'' then 4 else 1) * length vs"
    using golden_run_encodes[of one_weight "[replicate 64 127, replicate 64 0]" "[]"] by blast
  have "list_all (\<lambda>(f, vs). encode f vs \<noteq> Inl StructError) (got t)"
    unfolding list_all_iff
  proof
    fix p assume "p \<in> set (got t)"
    moreover obtain f vs where "p = (f, vs)" by force
    ultimately show "case p of (f, vs) \<Rightarrow> encode f vs \<noteq> Inl StructError" using t(3) by fastforce
  qed
  then show ?thesis using t(1,2) by (intro exI[of _ t]) (simp add: OUT_def)
qed

text \<open>Every assertion of \<open>hand_cases\<close> holds.\<close>

lemma hand_cases_pass: "hand_cases = Inr ()"
  by code_simp

end
