(* ===== verification/Canary_Package.thy ===== *)
theory Canary_Package
  imports Canary_Tensors "HOL-Library.Code_Target_Nat"
begin

text \<open>
  \<^verbatim>\<open>docs/designs/pta_board_canary_golden.py\<close>: the bundle against its manifest, and what a freeze still needs.
  The manifest is the value \<open>json.loads\<close> returns; SHA-256 is an argument, and every statement holds for
  each function in its place.  Text files are ASCII: \<open>decode\<close> refuses a byte above 127.  The lemmas say what a
  bundle that passes is held to, and when the freeze gate finds nothing open.
\<close>

section \<open>Values of the manifest\<close>

text \<open>A dictionary keeps the order of its keys; a float is its exact value.\<close>

datatype json =
    JNull | JBool bool | JInt int | JFloat rat | JStr string | JList "json list" | JDict "(string \<times> json) list"

text \<open>\<open>x[key]\<close>, and what a \<open>for\<close> runs over: the elements of a list, the characters of a string, the keys of a dictionary.\<close>

definition item :: "string \<Rightarrow> json \<Rightarrow> py_error + json" where
  "item k x = (case x of JDict kvs \<Rightarrow> (case map_of kvs k of None \<Rightarrow> Inl KeyError | Some v \<Rightarrow> Inr v) | _ \<Rightarrow> Inl TypeError)"

definition elements :: "json \<Rightarrow> py_error + json list" where
  "elements x =
     (case x of
        JList xs \<Rightarrow> Inr xs
      | JStr s \<Rightarrow> Inr (map (\<lambda>c. JStr [c]) s)
      | JDict kvs \<Rightarrow> Inr (map (\<lambda>(k, _). JStr k) kvs)
      | _ \<Rightarrow> Inl TypeError)"

definition items_of :: "json \<Rightarrow> py_error + (string \<times> json) list" where
  "items_of x = (case x of JDict kvs \<Rightarrow> Inr kvs | _ \<Rightarrow> Inl AttributeError)"

text \<open>\<open>n == x\<close> for an integer \<open>n\<close>: Python's numbers compare by value, and \<open>True\<close> is 1.\<close>

definition eq_int :: "int \<Rightarrow> json \<Rightarrow> bool" where
  "eq_int n x = (case x of JInt i \<Rightarrow> i = n | JBool b \<Rightarrow> of_bool b = n | JFloat r \<Rightarrow> r = of_int n | _ \<Rightarrow> False)"

fun has_float :: "json \<Rightarrow> bool" where
  "has_float (JFloat r) \<longleftrightarrow> True"
| "has_float (JDict kvs) \<longleftrightarrow> list_ex has_float (map snd kvs)"
| "has_float (JList xs) \<longleftrightarrow> list_ex has_float xs"
| "has_float _ \<longleftrightarrow> False"

section \<open>The package\<close>

definition decode :: "bytes \<Rightarrow> py_error + string" where
  "decode b = (if list_all (\<lambda>c. c < 128) b then Inr (map (\<lambda>c. char_of (unat c)) b) else Inl UnicodeDecodeError)"

text \<open>A key of a dictionary: numbers are equal by value, and a list or a dictionary is no key.\<close>

datatype path_key = Key_Str string | Key_Num rat | Key_None

definition dict_key :: "json \<Rightarrow> py_error + path_key" where
  "dict_key x =
     (case x of
        JStr s \<Rightarrow> Inr (Key_Str s)
      | JInt i \<Rightarrow> Inr (Key_Num (of_int i))
      | JBool b \<Rightarrow> Inr (Key_Num (of_bool b))
      | JFloat r \<Rightarrow> Inr (Key_Num r)
      | JNull \<Rightarrow> Inr Key_None
      | _ \<Rightarrow> Inl TypeError)"

text \<open>\<open>{a["path"]: a for a in xs}\<close>.\<close>

definition by_path :: "json \<Rightarrow> py_error + (path_key \<times> json) list" where
  "by_path x = bindE (elements x) (\<lambda>xs.
     foldE (\<lambda>a d. bindE (item ''path'' a) (\<lambda>p. bindE (dict_key p) (\<lambda>k. Inr (AList.update k a d)))) xs [])"

text \<open>The keys as paths: sorting them among strings, or joining one to a folder, raises for any that is not a string.\<close>

definition path_of :: "path_key \<Rightarrow> py_error + string" where
  "path_of k = (case k of Key_Str s \<Rightarrow> Inr s | _ \<Rightarrow> Inl TypeError)"

definition paths :: "(path_key \<times> json) list \<Rightarrow> py_error + (string \<times> json) list" where
  "paths = mapE (\<lambda>(k, v). bindE (path_of k) (\<lambda>s. Inr (s, v)))"

text \<open>\<open>len(b) == e["byte_length"] and sha(b) == e["sha256"]\<close>.\<close>

definition entry_holds :: "(bytes \<Rightarrow> string) \<Rightarrow> folder \<Rightarrow> string \<times> json \<Rightarrow> py_error + bool" where
  "entry_holds sha fs = (\<lambda>(p, e).
     bindE (raw fs p) (\<lambda>b.
     bindE (item ''byte_length'' e) (\<lambda>n.
       if \<not> eq_int (int (length b)) n then Inr False
       else bindE (item ''sha256'' e) (\<lambda>d. Inr (JStr (sha b) = d)))))"

text \<open>\<open>reversed(line.split("  ", 1))\<close> as an entry of a dictionary.\<close>

fun split_once :: "string \<Rightarrow> (string \<times> string) option" where
  "split_once [] = None"
| "split_once [c] = None"
| "split_once (c # d # s) =
     (if c = CHR '' '' \<and> d = CHR '' '' then Some ([], s) else map_option (\<lambda>(a, b). (c # a, b)) (split_once (d # s)))"

definition sums_line :: "string \<Rightarrow> (string \<times> json) list \<Rightarrow> py_error + (string \<times> json) list" where
  "sums_line line d = (case split_once line of None \<Rightarrow> Inl ValueError | Some (digest, path) \<Rightarrow> Inr (AList.update path (JStr digest) d))"

definition same_dict :: "(string \<times> json) list \<Rightarrow> (string \<times> json) list \<Rightarrow> bool" where
  "same_dict a b \<longleftrightarrow> set (map fst a) = set (map fst b) \<and> list_all (\<lambda>k. map_of a k = map_of b k) (map fst a)"

definition merged :: "(string \<times> json) list \<Rightarrow> (string \<times> json) list \<Rightarrow> (string \<times> json) list" where
  "merged a b = fold (\<lambda>(k, v). AList.update k v) b a"

definition sums_hold :: "(bytes \<Rightarrow> string) \<Rightarrow> folder \<Rightarrow> (string \<times> json) list \<Rightarrow> py_error + bool" where
  "sums_hold sha fs entries =
     bindE (raw fs ''SHA256SUMS'') (\<lambda>b. bindE (decode b) (\<lambda>text.
     bindE (foldE sums_line (splitlines text) []) (\<lambda>listed.
     bindE (mapE (\<lambda>(p, e). bindE (item ''sha256'' e) (\<lambda>d. Inr (p, d))) entries) (\<lambda>ds.
     bindE (raw fs ''manifest.json'') (\<lambda>m.
       Inr (same_dict listed (AList.update ''manifest.json'' (JStr (sha m)) ds)))))))"

text \<open>\<open>sha(raw("harness/" + f)) == d and f"{d}  {f}" in script\<close>; only a string can equal a digest.\<close>

definition harness_holds :: "(bytes \<Rightarrow> string) \<Rightarrow> folder \<Rightarrow> string \<Rightarrow> string \<times> json \<Rightarrow> py_error + bool" where
  "harness_holds sha fs script = (\<lambda>(f, d).
     bindE (raw fs (''harness/'' @ f)) (\<lambda>b. Inr (JStr (sha b) = d \<and> contains script (sha b @ ''  '' @ f))))"

definition PINNED :: "string list" where
  "PINNED = [''pta_mnist.c'', ''pta_mnist.sh'', ''pta_tile_model.c'', ''pta_tile_model.h'']"

definition package_holds :: "(bytes \<Rightarrow> string) \<Rightarrow> folder \<Rightarrow> json \<Rightarrow> py_error + nat \<times> nat" where
  "package_holds sha fs manifest =
     bindE (item ''artifacts'' manifest) (\<lambda>a. bindE (by_path a) (\<lambda>by_art.
     bindE (item ''package'' manifest) (\<lambda>p. bindE (by_path p) (\<lambda>by_pkg.
     bindE (paths by_art) (\<lambda>arts. bindE (paths by_pkg) (\<lambda>pkg.
     let entries = merged arts pkg in
     bindE (assert_all [Inr (sort (map fst fs) = sort (map fst arts @ map fst pkg @ [''manifest.json'', ''SHA256SUMS'']))]) (\<lambda>_.
     bindE (assert_all (map (entry_holds sha fs) entries)) (\<lambda>_.
     bindE (assert_all [sums_hold sha fs entries]) (\<lambda>_.
     bindE (item ''reference_contract'' manifest) (\<lambda>r. bindE (item ''source_sha256'' r) (\<lambda>pin. bindE (items_of pin) (\<lambda>pinned.
     bindE (raw fs ''regenerate.sh'') (\<lambda>b. bindE (decode b) (\<lambda>script.
     bindE (assert_all (Inr (sort (map fst pinned) = PINNED) # map (harness_holds sha fs script) pinned)) (\<lambda>_.
     bindE (item ''training'' manifest) (\<lambda>tr. bindE (item ''dependency_lock_digest_sha256'' tr) (\<lambda>lk.
     bindE (raw fs ''environment.lock'') (\<lambda>lb.
     bindE (assert_all [Inr (lk = JStr (sha lb))]) (\<lambda>_.
       Inr (length arts, length pkg))))))))))))))))))))"

section \<open>The freeze gate\<close>

text \<open>One open item: what \<open>walk\<close> reports of a value at its path, a blocker, a status that is not frozen.\<close>

datatype open_item = Is_Empty string | Not_Done string string | Blocker string | Not_Frozen string json

definition starts_with :: "string \<Rightarrow> string \<Rightarrow> bool" where
  "starts_with s p \<longleftrightarrow> take (length p) s = p"

fun walk :: "json \<Rightarrow> string \<Rightarrow> open_item list"
and walk_items :: "(string \<times> json) list \<Rightarrow> string \<Rightarrow> open_item list"
and walk_list :: "nat \<Rightarrow> json list \<Rightarrow> string \<Rightarrow> open_item list" where
  "walk JNull path = [Is_Empty path]"
| "walk (JStr s) path = (if starts_with s ''pending'' \<or> starts_with s ''missing'' then [Not_Done path s] else [])"
| "walk (JDict kvs) path = walk_items kvs path"
| "walk (JList xs) path = walk_list 0 xs path"
| "walk (JBool b) path = []"
| "walk (JInt i) path = []"
| "walk (JFloat r) path = []"
| "walk_items [] path = []"
| "walk_items ((k, v) # kvs) path = walk v (if path \<noteq> [] then path @ ''.'' @ k else k) @ walk_items kvs path"
| "walk_list i [] path = []"
| "walk_list i (v # vs) path = walk v (path @ ''['' @ digits_of i @ '']'') @ walk_list (Suc i) vs path"

definition blocker :: "json \<Rightarrow> py_error + open_item" where
  "blocker b = (case b of JStr s \<Rightarrow> Inr (Blocker s) | _ \<Rightarrow> Inl TypeError)"

definition not_frozen :: "string \<Rightarrow> json \<Rightarrow> open_item list" where
  "not_frozen path v = (if v \<noteq> JStr ''frozen'' then [Not_Frozen path v] else [])"

definition open_items :: "json \<Rightarrow> py_error + open_item list" where
  "open_items manifest =
     bindE (items_of manifest) (\<lambda>kvs.
     bindE (item ''freeze_blockers'' manifest) (\<lambda>bs. bindE (elements bs) (\<lambda>bl. bindE (mapE blocker bl) (\<lambda>blockers.
     bindE (item ''manifest_status'' manifest) (\<lambda>ms.
     bindE (item ''approval'' manifest) (\<lambda>ap. bindE (item ''status'' ap) (\<lambda>st.
       Inr (walk (JDict (filter (\<lambda>(k, _). k \<noteq> ''freeze_blockers'') kvs)) [] @ blockers
            @ not_frozen ''manifest_status'' ms @ not_frozen ''approval.status'' st))))))))"

text \<open>The end of \<open>main\<close> under \<open>--freeze\<close>: exit code 1 with anything open, else 0.\<close>

definition freeze_exit :: "json \<Rightarrow> py_error + int" where
  "freeze_exit manifest = bindE (open_items manifest) (\<lambda>its. Inr (if its \<noteq> [] then 1 else 0))"

section \<open>The files of the run\<close>

text \<open>\<open>main\<close>'s assertions before the tensors: the artifacts' digests, the package's, the corpus and the two
  lists of ids.\<close>

definition CORPUS :: "(string \<times> string) list" where
  "CORPUS =
    [(''inputs_int8.bin'', ''d968e50d76c4c3bfe3b0d0020db73fc0a1bade8f794cba389216f0777f0f23c4''),
     (''labels_u8.bin'', ''d14ba0a1a3818edefa35518ed001ece84b7ac0eabe9394551c73928493175d3f''),
     (''ids.txt'', ''81e4e1694930066d6e678be2ac3b828a0677756e8dc0632048e605541c754711''),
     (''pixels_u8.bin'', ''49008ed471ac4de4f40e3779615eab182248422ead8bf269ad840424b48da444''),
     (''cal_inputs_int8.bin'', ''c23d0a98df1376ce6dd6a43fa94926d1a0f37978945274f2674c9a5586b34f1c''),
     (''cal_labels_u8.bin'', ''e9b9c3471c38b1ac45a646a16235eb657be54efdb54e30974f4f839d24a7c7a2'')]"

definition pad5 :: "nat \<Rightarrow> string" where
  "pad5 n = (let d = digits_of n in replicate (5 - length d) (CHR ''0'') @ d)"

definition id_lines :: "string \<Rightarrow> nat \<Rightarrow> nat \<Rightarrow> string" where
  "id_lines stem first num = concat (map (\<lambda>n. stem @ pad5 (first + n) @ [CHR 0x0A]) [0..<num])"

definition ids_hold :: "folder \<Rightarrow> string \<Rightarrow> string \<Rightarrow> py_error + bool" where
  "ids_hold fs name want = bindE (raw fs name) (\<lambda>b. bindE (decode b) (\<lambda>text. Inr (text = want)))"

definition file_checks :: "(bytes \<Rightarrow> string) \<Rightarrow> folder \<Rightarrow> json \<Rightarrow> bool \<Rightarrow> bool \<Rightarrow> py_error + unit" where
  "file_checks sha fs manifest recompute_only report =
     bindE (item ''artifacts'' manifest) (\<lambda>a. bindE (by_path a) (\<lambda>arts.
     bindE (if recompute_only then Inr ()
            else bindE (assert_all (map (\<lambda>(k, e). bindE (path_of k) (\<lambda>s. entry_holds sha fs (s, e))) arts)) (\<lambda>_.
              if report then Inr () else bindE (package_holds sha fs manifest) (\<lambda>_. Inr ()))) (\<lambda>_.
     assert_all (map (\<lambda>(f, d). bindE (raw fs f) (\<lambda>b. Inr (sha b = d))) CORPUS
       @ [ids_hold fs ''ids.txt'' (id_lines ''mnist-t10k-'' 0 N),
          ids_hold fs ''cal_ids.txt'' (id_lines ''mnist-train-'' 54000 C)]))))"

section \<open>What a package that passes is held to\<close>

lemma assert_all_Cons: "assert_all (c # cs) = Inr () \<longleftrightarrow> c = Inr True \<and> assert_all cs = Inr ()"
  by (cases c) auto

lemma raw_Inr: "raw fs p = Inr b \<longleftrightarrow> map_of fs p = Some b"
  by (auto simp: raw_def split: option.splits)

lemma map_of_merged: "map_of (merged a b) = map_of a ++ map_of (rev b)"
proof (induction b arbitrary: a)
  case (Cons x b)
  obtain k v where "x = (k, v)" by force
  then show ?case using Cons[of "AList.update k v a"]
    by (simp add: merged_def update_conv' map_add_assoc fun_eq_iff map_add_def split: option.splits)
qed (simp add: merged_def)

lemma entry_holds_iff:
  "entry_holds sha fs (p, e) = Inr True \<longleftrightarrow>
     (\<exists>b n. map_of fs p = Some b \<and> item ''byte_length'' e = Inr n \<and> eq_int (int (length b)) n \<and> item ''sha256'' e = Inr (JStr (sha b)))"
  by (auto simp: entry_holds_def bindE_Inr raw_Inr)

text \<open>The entries \<open>package_holds\<close> reads from the manifest.\<close>

definition manifest_entries :: "json \<Rightarrow> (string \<times> json) list \<Rightarrow> bool" where
  "manifest_entries m es \<longleftrightarrow> (\<exists>a p by_art by_pkg arts pkg. item ''artifacts'' m = Inr a \<and> by_path a = Inr by_art
     \<and> item ''package'' m = Inr p \<and> by_path p = Inr by_pkg \<and> paths by_art = Inr arts \<and> paths by_pkg = Inr pkg \<and> es = merged arts pkg)"

lemma package_holdsD:
  assumes "package_holds sha fs m = Inr k"
  shows "\<exists>es. manifest_entries m es \<and> set (map fst fs) = set (map fst es) \<union> {''manifest.json'', ''SHA256SUMS''}
    \<and> (\<forall>x \<in> set es. entry_holds sha fs x = Inr True) \<and> sums_hold sha fs es = Inr True"
proof -
  obtain a p by_art by_pkg arts pkg where m: "item ''artifacts'' m = Inr a" "by_path a = Inr by_art" "item ''package'' m = Inr p"
      "by_path p = Inr by_pkg" "paths by_art = Inr arts" "paths by_pkg = Inr pkg"
    and srt: "sort (map fst fs) = sort (map fst arts @ map fst pkg @ [''manifest.json'', ''SHA256SUMS''])"
    and ent: "assert_all (map (entry_holds sha fs) (merged arts pkg)) = Inr ()"
    and sm: "assert_all [sums_hold sha fs (merged arts pkg)] = Inr ()"
    using assms unfolding package_holds_def Let_def bindE_Inr by (auto split: if_splits)
  have "set (map fst fs) = set (map fst arts @ map fst pkg @ [''manifest.json'', ''SHA256SUMS''])"
    using arg_cong[OF srt, of set] by (simp only: set_sort)
  moreover have "set (map fst (merged arts pkg)) = set (map fst arts) \<union> set (map fst pkg)"
    using dom_map_of_conv_image_fst[of "merged arts pkg"] by (simp add: map_of_merged dom_map_of_conv_image_fst Un_commute)
  ultimately have "set (map fst fs) = set (map fst (merged arts pkg)) \<union> {''manifest.json'', ''SHA256SUMS''}" by auto
  moreover have "\<forall>x \<in> set (merged arts pkg). entry_holds sha fs x = Inr True" using ent by (auto simp: assert_all_ok)
  moreover have "sums_hold sha fs (merged arts pkg) = Inr True" using sm by (simp only: assert_all_Cons)
  ultimately show ?thesis using m by (auto simp: manifest_entries_def)
qed

text \<open>[C19] Two folders that both pass against one manifest hold files of the same names, none missing or left over, and each
  but \<open>manifest.json\<close> and \<open>SHA256SUMS\<close> has the same length and the same digest in both: for a digest without
  collisions the two folders agree in all but those two files.\<close>

theorem package_fixes_folder:
  assumes "package_holds sha fs m = Inr k" "package_holds sha fs' m = Inr k'"
  shows "set (map fst fs) = set (map fst fs')
    \<and> (\<forall>p b b'. map_of fs p = Some b \<longrightarrow> map_of fs' p = Some b' \<longrightarrow> p \<notin> {''manifest.json'', ''SHA256SUMS''}
        \<longrightarrow> length b = length b' \<and> sha b = sha b')"
proof -
  obtain es es' where es: "manifest_entries m es" "set (map fst fs) = set (map fst es) \<union> {''manifest.json'', ''SHA256SUMS''}"
      "\<forall>x \<in> set es. entry_holds sha fs x = Inr True"
    and es': "manifest_entries m es'" "set (map fst fs') = set (map fst es') \<union> {''manifest.json'', ''SHA256SUMS''}"
      "\<forall>x \<in> set es'. entry_holds sha fs' x = Inr True"
    using package_holdsD[OF assms(1)] package_holdsD[OF assms(2)] by blast
  have eq: "es' = es" using es(1) es'(1) by (auto simp: manifest_entries_def)
  have "length b = length b' \<and> sha b = sha b'" if "map_of fs p = Some b" "map_of fs' p = Some b'" "p \<notin> {''manifest.json'', ''SHA256SUMS''}" for p b b'
  proof -
    note found = that
    have "p \<in> set (map fst es)" using that(1,3) es(2) weak_map_of_SomeI[of p _ fs] map_of_SomeD[OF that(1)] by force
    then obtain e where e: "(p, e) \<in> set es" by auto
    have h: "entry_holds sha fs (p, e) = Inr True" "entry_holds sha fs' (p, e) = Inr True" using es(3) es'(3) e eq by auto
    obtain n where "item ''byte_length'' e = Inr n" "eq_int (int (length b)) n" "item ''sha256'' e = Inr (JStr (sha b))"
      using h(1) found(1) unfolding entry_holds_iff by fastforce
    moreover obtain n' where "item ''byte_length'' e = Inr n'" "eq_int (int (length b')) n'" "item ''sha256'' e = Inr (JStr (sha b'))"
      using h(2) found(2) unfolding entry_holds_iff by fastforce
    ultimately show ?thesis by (auto simp: eq_int_def split: json.splits)
  qed
  then show ?thesis using es(2) es'(2) eq by blast
qed

text \<open>Decoding by bits, for evaluation.\<close>

lemma byte_below: "(c :: 8 word) < 128 \<longleftrightarrow> \<not> bit c 7"
proof -
  have "unat c < 256" using unsigned_less[of c, where ?'a = nat] by simp
  then have "odd (unat c div 128) \<longleftrightarrow> \<not> unat c < 128"
    by (cases "unat c < 128") (auto simp: le_div_geq)
  then have "bit (unat c) 7 \<longleftrightarrow> \<not> unat c < 128" by (simp add: bit_iff_odd)
  then show ?thesis by (simp add: word_less_nat_alt bit_unsigned_iff)
qed

lemma char_of_byte:
  "char_of (unat (c :: 8 word)) = Char (bit c 0) (bit c 1) (bit c 2) (bit c 3) (bit c 4) (bit c 5) (bit c 6) (bit c 7)"
  by (simp add: char_of_def bit_unsigned_iff flip: bit_0)

lemma decode_bits [code]:
  "decode b = (if list_all (\<lambda>c. \<not> bit c 7) b
     then Inr (map (\<lambda>c. Char (bit c 0) (bit c 1) (bit c 2) (bit c 3) (bit c 4) (bit c 5) (bit c 6) (bit c 7)) b)
     else Inl UnicodeDecodeError)"
  unfolding decode_def byte_below char_of_byte ..

text \<open>A small package: the four pinned files, the script that names them, the lock; a digest that is a file's
  length.\<close>

definition ascii :: "string \<Rightarrow> bytes" where
  "ascii t = map (\<lambda>c. word_of_int (of_char c)) t"

definition length_digest :: "bytes \<Rightarrow> string" where
  "length_digest b = digits_of (length b)"

definition small_entries :: "(string \<times> nat) list" where
  "small_entries = map (\<lambda>f. (''harness/'' @ f, 1)) PINNED @ [(''regenerate.sh'', 71), (''environment.lock'', 2)]"

definition small_manifest :: json where
  "small_manifest = JDict [(''artifacts'', JList []),
     (''package'', JList (map (\<lambda>(p, n). JDict [(''path'', JStr p), (''byte_length'', JInt (int n)), (''sha256'', JStr (digits_of n))]) small_entries)),
     (''reference_contract'', JDict [(''source_sha256'', JDict (map (\<lambda>f. (f, JStr ''1'')) PINNED))]),
     (''training'', JDict [(''dependency_lock_digest_sha256'', JStr ''2'')])]"

definition small_folder :: "string \<Rightarrow> folder" where
  "small_folder body =
     map (\<lambda>f. (''harness/'' @ f, ascii body)) PINNED
     @ [(''regenerate.sh'', ascii (concat (map (\<lambda>f. ''1  '' @ f @ [CHR 0x0A]) PINNED))), (''environment.lock'', ascii ''ok''),
        (''manifest.json'', ascii ''{}''),
        (''SHA256SUMS'', ascii (concat (map (\<lambda>(p, n). digits_of n @ ''  '' @ p @ [CHR 0x0A]) (small_entries @ [(''manifest.json'', 2)]))))]"

theorem package_fixes_folder_witness:
  "set (map fst (small_folder ''a'')) = set (map fst (small_folder ''b'')) \<and> length (ascii ''a'') = length (ascii ''b'')"
proof -
  have "package_holds length_digest (small_folder ''a'') small_manifest = Inr (0, 6)"
    "package_holds length_digest (small_folder ''b'') small_manifest = Inr (0, 6)" by code_simp+
  note h = package_fixes_folder[OF this]
  moreover have "map_of (small_folder ''a'') ''harness/pta_mnist.c'' = Some (ascii ''a'')"
    "map_of (small_folder ''b'') ''harness/pta_mnist.c'' = Some (ascii ''b'')"
    "''harness/pta_mnist.c'' \<notin> {''manifest.json'', ''SHA256SUMS''}" by code_simp+
  ultimately show ?thesis by blast
qed

section \<open>When nothing is open\<close>

text \<open>A value that stands in another, itself included.\<close>

inductive occurs_in :: "json \<Rightarrow> json \<Rightarrow> bool" where
  Here: "occurs_in x x"
| In_Dict: "(k, v) \<in> set kvs \<Longrightarrow> occurs_in x v \<Longrightarrow> occurs_in x (JDict kvs)"
| In_List: "v \<in> set vs \<Longrightarrow> occurs_in x v \<Longrightarrow> occurs_in x (JList vs)"

inductive_simps occurs_in_simps: "occurs_in x JNull" "occurs_in x (JStr s)" "occurs_in x (JBool b)" "occurs_in x (JInt i)" "occurs_in x (JFloat r)"
  "occurs_in x (JDict kvs)" "occurs_in x (JList vs)"

definition settled :: "json \<Rightarrow> bool" where
  "settled x \<longleftrightarrow> x \<noteq> JNull \<and> (\<forall>s. x = JStr s \<longrightarrow> \<not> starts_with s ''pending'' \<and> \<not> starts_with s ''missing'')"

lemma settled_simps [simp]:
  "\<not> settled JNull" "settled (JStr s) \<longleftrightarrow> \<not> starts_with s ''pending'' \<and> \<not> starts_with s ''missing''"
  "settled (JBool b)" "settled (JInt i)" "settled (JFloat r)" "settled (JDict kvs)" "settled (JList vs)"
  by (auto simp: settled_def)

lemma walk_Nil:
  "walk x path = [] \<longleftrightarrow> (\<forall>y. occurs_in y x \<longrightarrow> settled y)"
  "walk_items kvs path = [] \<longleftrightarrow> (\<forall>(k, v) \<in> set kvs. \<forall>y. occurs_in y v \<longrightarrow> settled y)"
  "walk_list i vs path = [] \<longleftrightarrow> (\<forall>v \<in> set vs. \<forall>y. occurs_in y v \<longrightarrow> settled y)"
proof (induction x path and kvs path and i vs path rule: walk_walk_items_walk_list.induct)
  case (3 kvs path)
  then show ?case by (auto simp: occurs_in_simps)
next
  case (4 xs path)
  then show ?case by (auto simp: occurs_in_simps)
qed (auto simp: occurs_in_simps)

text \<open>A value over which a \<open>for\<close> has nothing to do.\<close>

definition empty_iter :: "json \<Rightarrow> bool" where
  "empty_iter x \<longleftrightarrow> x \<in> {JList [], JStr [], JDict []}"

lemma elements_Nil: "elements x = Inr [] \<longleftrightarrow> empty_iter x"
  by (auto simp: elements_def empty_iter_def split: json.splits)

text \<open>[C20] Once the assertions before it have passed, the end of \<open>main\<close> under \<open>--freeze\<close> exits 0 exactly when the manifest's
  blockers are empty (an empty list, or an empty string or object, over which the comprehension finds nothing either),
  both statuses are frozen, and no value anywhere outside the blockers is null or a string that starts as pending or
  missing.\<close>

theorem freeze_ready_iff:
  "freeze_exit (JDict kvs) = Inr 0 \<longleftrightarrow>
     (\<exists>bs. item ''freeze_blockers'' (JDict kvs) = Inr bs \<and> empty_iter bs) \<and> item ''manifest_status'' (JDict kvs) = Inr (JStr ''frozen'')
     \<and> (\<exists>ap. item ''approval'' (JDict kvs) = Inr ap \<and> item ''status'' ap = Inr (JStr ''frozen''))
     \<and> (\<forall>k v y. (k, v) \<in> set kvs \<longrightarrow> k \<noteq> ''freeze_blockers'' \<longrightarrow> occurs_in y v \<longrightarrow> settled y)" (is "?l \<longleftrightarrow> ?r")
proof -
  have w: "walk (JDict (filter (\<lambda>(k, _). k \<noteq> ''freeze_blockers'') kvs)) [] = []
    \<longleftrightarrow> (\<forall>k v y. (k, v) \<in> set kvs \<longrightarrow> k \<noteq> ''freeze_blockers'' \<longrightarrow> occurs_in y v \<longrightarrow> settled y)"
    unfolding walk.simps walk_Nil by fastforce
  have b: "mapE blocker bl = Inr [] \<longleftrightarrow> bl = []" for bl by (auto simp: mapE_Inr)
  have "?l \<longleftrightarrow> open_items (JDict kvs) = Inr []" by (auto simp: freeze_exit_def bindE_Inr split: if_splits)
  also have "\<dots> \<longleftrightarrow> (\<exists>bs bl. item ''freeze_blockers'' (JDict kvs) = Inr bs \<and> elements bs = Inr bl \<and> mapE blocker bl = Inr []
      \<and> (\<exists>ms. item ''manifest_status'' (JDict kvs) = Inr ms \<and> not_frozen ''manifest_status'' ms = []
      \<and> (\<exists>ap st. item ''approval'' (JDict kvs) = Inr ap \<and> item ''status'' ap = Inr st \<and> not_frozen ''approval.status'' st = []
      \<and> walk (JDict (filter (\<lambda>(k, _). k \<noteq> ''freeze_blockers'') kvs)) [] = [])))"
    unfolding open_items_def bindE_Inr items_of_def json.case by (simp only: sum.inject append_is_Nil_conv) blast
  also have "\<dots> \<longleftrightarrow> ?r" unfolding w b not_frozen_def using elements_Nil by (auto split: if_splits)
  finally show ?thesis .
qed

text \<open>A field left as the empty string is not reported.\<close>

definition undated :: "(string \<times> json) list" where
  "undated = [(''manifest_status'', JStr ''frozen''), (''freeze_blockers'', JList []),
     (''approval'', JDict [(''status'', JStr ''frozen''), (''note'', JStr '''')])]"

theorem freeze_ready_iff_witness: "freeze_exit (JDict undated) = Inr 0"
  unfolding freeze_ready_iff
  by (auto simp: undated_def item_def occurs_in_simps starts_with_def empty_iter_def)

end
