(* ===== verification/Feed_Model.thy ===== *)
theory Feed_Model
  imports Tw_Sweep "HOL-Library.Code_Target_Nat"
begin

text \<open>
  \<^verbatim>\<open>docs/designs/pta_feed_model.py\<close>: the DMA that feeds the array, in cycles.  A row of operands lands every
  \<open>period\<close> cycles while the core asks for one every \<open>row_time\<close>; \<open>race\<close> is what the core waits, \<open>margin\<close> how early
  the tightest row is.  The assertions of \<open>main\<close> are lists, section by section; what it prints is left out.  The
  lemmas relate the two loops for every row count, start and rate.
\<close>

section \<open>Constants\<close>

definition HANDOFF :: int where "HANDOFF = 3"
definition DONE_CYCLE :: int where "DONE_CYCLE = 1"
definition PF1_IDLE :: int where "PF1_IDLE = 2"
definition FIRST_ROW :: int where "FIRST_ROW = 1"
definition CORE_START :: int where "CORE_START = 2"
definition HOP_RUN :: int where "HOP_RUN = 64"
definition BYTES_PER_BEAT :: int where "BYTES_PER_BEAT = 8"
definition READ_BEAT :: int where "READ_BEAT = 2"
definition READ_SETUP :: int where "READ_SETUP = 2"
definition WRITE_BEAT_WALK :: int where "WRITE_BEAT_WALK = 5"
definition WRITE_BEAT :: int where "WRITE_BEAT = 1"
definition WRITE_SETUP :: int where "WRITE_SETUP = 3"
definition WRITE_FILL :: int where "WRITE_FILL = 1"
definition WORDS_PER_BEAT :: int where "WORDS_PER_BEAT = 2"

definition F0_SHAPE :: "int \<times> int \<times> int" where "F0_SHAPE = (M_dim, N_dim, K_dim)"
definition SOC_SHAPE :: "int \<times> int \<times> int" where "SOC_SHAPE = (8, 12, 16)"

record soc_reading =
  core :: int
  gemm_walk :: int
  gemm_ct :: int
  wall_walk :: "int option"
  wall :: int

definition MEASURED_F2 :: "(string \<times> soc_reading) list" where
  "MEASURED_F2 =
    [(''EO-scan'', \<lparr>core = 576, gemm_walk = 909, gemm_ct = 721, wall_walk = None, wall = 1823\<rparr>),
     (''EO-res'', \<lparr>core = 388, gemm_walk = 721, gemm_ct = 533, wall_walk = Some 1807, wall = 1624\<rparr>)]"

record dma_level =
  read_a :: int
  read_b :: int
  pf1_busy :: int
  write_c :: int
  drain :: int

definition LEVELS :: "(string \<times> dma_level) list" where
  "LEVELS =
    [(''NPU bench'', \<lparr>read_a = 66, read_b = 514, pf1_busy = 2142, write_c = 1283, drain = 145\<rparr>),
     (''SoC'', \<lparr>read_a = 69, read_b = 517, pf1_busy = 2331, write_c = 1410, drain = 132\<rparr>)]"

definition MEASURED :: "((string \<times> int) \<times> int \<times> int \<times> int) list" where
  "MEASURED =
    [((''NPU bench'', DIGITAL_RUN), 71734, 566, 73601), ((''SoC'', DIGITAL_RUN), 71923, 755, 73923),
     ((''NPU bench'', HOP_RUN), 165375, 0, 167242), ((''SoC'', HOP_RUN), 165375, 0, 167375)]"

record bench_reading =
  b_write_c :: int
  b_gemm :: int
  b_read_a :: int
  b_read_b :: int
  b_arow :: int
  wbeats :: int
  b_drain :: int
  pf2_busy :: int
  pf2_ars :: int
  pf2_beats :: int

definition BENCH_F2 :: bench_reading where
  "BENCH_F2 = \<lparr>b_write_c = 260, b_gemm = 166219, b_read_a = 66, b_read_b = 514, b_arow = 0, wbeats = 256, b_drain = 3,
     pf2_busy = 260, pf2_ars = 1, pf2_beats = 29\<rparr>"

definition MEASURED_PF2_OFF_Q4 :: "(string \<times> int) list" where
  "MEASURED_PF2_OFF_Q4 = [(''EO-scan'', 4), (''EO-res'', - 8)]"

definition MEASURED_F2_WALL_DRIFT :: int where "MEASURED_F2_WALL_DRIFT = 45"
definition MEASURED_PF2_OFF_Q1_IS_NOOP :: bool where "MEASURED_PF2_OFF_Q1_IS_NOOP = True"

section \<open>The feed's parts\<close>

definition beats_of :: "int \<Rightarrow> int \<Rightarrow> int" where
  "beats_of elems elem_bytes = ceil_div (elems * elem_bytes) BYTES_PER_BEAT"

definition c_beats_of :: "int \<Rightarrow> int" where
  "c_beats_of words = ceil_div words WORDS_PER_BEAT"

definition feed_part :: "int \<Rightarrow> string \<Rightarrow> bool \<Rightarrow> int" where
  "feed_part beats kind walk =
     (if kind = ''read'' then beats * READ_BEAT + READ_SETUP
      else if walk then beats * WRITE_BEAT_WALK + WRITE_SETUP
      else beats * WRITE_BEAT + WRITE_SETUP + WRITE_FILL)"

definition level_of :: "string \<Rightarrow> py_error + dma_level" where
  "level_of level = (case map_of LEVELS level of None \<Rightarrow> Inl KeyError | Some p \<Rightarrow> Inr p)"

definition period :: "string \<Rightarrow> py_error + int" where
  "period level = bindE (level_of level) (\<lambda>p.
     if pf1_busy p mod (M_dim - 1) \<noteq> 0 then Inl AssertionError else Inr (pf1_busy p div (M_dim - 1) + PF1_IDLE))"

text \<open>One turn of \<open>race\<close>'s loop and of \<open>margin\<close>'s, with the row that \<open>FIRST_ROW\<close> names as an argument.\<close>

definition race_step :: "int \<Rightarrow> int \<Rightarrow> int \<Rightarrow> nat \<Rightarrow> int \<times> int \<Rightarrow> int \<times> int" where
  "race_step first row_time per r = (\<lambda>(t, wait).
     let t1 = t + row_time; lands = first + int r * per in
     if t1 \<le> lands then (lands + 1, wait + (lands + 1 - t1)) else (t1, wait))"

definition race_from :: "int \<Rightarrow> int \<Rightarrow> int \<Rightarrow> int \<Rightarrow> nat \<Rightarrow> int" where
  "race_from first start row_time per m = snd (fold (race_step first row_time per) [1..<m] (start, 0))"

definition race :: "int \<Rightarrow> int \<Rightarrow> int \<Rightarrow> nat \<Rightarrow> int" where
  "race = race_from FIRST_ROW"

definition margin_step :: "int \<Rightarrow> int \<Rightarrow> nat \<Rightarrow> int \<times> int option \<Rightarrow> int \<times> int option" where
  "margin_step row_time per r = (\<lambda>(t, out).
     let t1 = t + row_time; lands = FIRST_ROW + int r * per; slack = t1 - lands;
         out1 = (case out of None \<Rightarrow> slack | Some v \<Rightarrow> min v slack)
     in (if t1 \<le> lands then lands + 1 else t1, Some out1))"

definition margin :: "int \<Rightarrow> int \<Rightarrow> int \<Rightarrow> nat \<Rightarrow> int option" where
  "margin start row_time per m = snd (fold (margin_step row_time per) [1..<m] (start, None))"

definition arow_interchanged :: "int \<Rightarrow> int \<Rightarrow> int \<Rightarrow> int \<Rightarrow> int" where
  "arow_interchanged tw ts td per = race (CORE_START + tw) (ts + td) per (nat M_dim)"

definition margin_interchanged :: "int \<Rightarrow> int \<Rightarrow> int \<Rightarrow> int \<Rightarrow> int option" where
  "margin_interchanged tw ts td per = margin (CORE_START + tw) (ts + td) per (nat M_dim)"

definition margin_shipped :: "int \<Rightarrow> int \<Rightarrow> int \<Rightarrow> int \<Rightarrow> int option" where
  "margin_shipped tw ts td per = margin CORE_START (KT * (tw + ts) + td) per (nat M_dim)"

definition arow_shipped :: "int \<Rightarrow> int \<Rightarrow> int \<Rightarrow> int \<Rightarrow> int" where
  "arow_shipped tw ts td per = race CORE_START (KT * (tw + ts) + td) per (nat M_dim)"

definition gemm_dma :: "string \<Rightarrow> int \<Rightarrow> int \<Rightarrow> bool \<Rightarrow> py_error + int" where
  "gemm_dma level cr arow queued = bindE (level_of level) (\<lambda>p.
     let total = read_a p + read_b p + cr + arow + HANDOFF + write_c p + DONE_CYCLE
     in Inr (total + (if queued then drain p else 0)))"

definition gemm_stream :: "string \<Rightarrow> int \<Rightarrow> int \<Rightarrow> (int \<times> int \<times> int) option \<Rightarrow> bool \<Rightarrow> py_error + int" where
  "gemm_stream level cr arow shape queued = bindE (level_of level) (\<lambda>p.
     case (case shape of Some s \<Rightarrow> s | None \<Rightarrow> F0_SHAPE) of (m, n, _) \<Rightarrow>
     let wr = feed_part (c_beats_of (m * n)) ''write'' False;
         total = read_a p + read_b p + cr + arow + HANDOFF + wr + DONE_CYCLE
     in Inr (total + (if queued then b_drain BENCH_F2 else 0)))"

section \<open>The assertions of \<open>main\<close>\<close>

text \<open>A failure to read a level's period or total is the assertion's.\<close>

definition asserts :: "py_error + 'a \<Rightarrow> ('a \<Rightarrow> (py_error + bool) list) \<Rightarrow> (py_error + bool) list" where
  "asserts x f = (case x of Inl e \<Rightarrow> [Inl e] | Inr v \<Rightarrow> f v)"

definition feed_section1 :: "(py_error + bool) list" where
  "feed_section1 = concat (map (\<lambda>((level, run), core_m, arow_m, gemm_m).
     asserts (period level) (\<lambda>per.
       let cr = interchanged SCAN run TD M_dim NT KT True;
           arow = arow_interchanged SCAN run TD per;
           slack = (if run = HOP_RUN then 1 else 0)
       in asserts (gemm_dma level cr arow False) (\<lambda>total.
            [Inr (arow = arow_m), Inr (0 \<le> cr + arow - core_m \<and> cr + arow - core_m \<le> slack),
             Inr (0 \<le> total - gemm_m \<and> total - gemm_m \<le> slack)]))) MEASURED)"

definition feed_points :: "(string \<times> int \<times> int \<times> bool) list" where
  "feed_points = [(''TO-1ms'', 100000, 5, True), (''TO-10us'', 1000, 5, True), (''EO-scan'', 0, 1, True), (''EO-res'', 0, 1, False),
     (''EO-res, 1-cycle select'', 1, 1, False)]"

definition feed_section2c :: "(py_error + bool) list" where
  "feed_section2c = concat (map (\<lambda>(name, pta_tw, pta_ts, scanned).
     if \<not> scanned \<and> pta_tw \<noteq> 0 then []
     else let tw = (if scanned then SCAN else 0) + pta_tw;
              here = interchanged tw (pta_ts + SHOT_FLOOR) TD M_dim NT KT True;
              there = core_cycles pta_tw pta_ts M_dim N_dim K_dim NUM_ROWS NUM_COLS scanned
          in Inr (here = there) # (case map_of MEASURED_C2 name of None \<Rightarrow> []
             | Some got \<Rightarrow> [Inr (here - core_band \<le> got \<and> got \<le> here)])) feed_points)"

definition feed_section5 :: "(py_error + bool) list" where
  "feed_section5 =
     concat (map (\<lambda>(level, p).
       map (\<lambda>(beats, want, kind).
          let got = feed_part beats kind True in Inr (if level = ''NPU bench'' then got = want else got \<le> want))
         [(beats_of K_dim 1, read_a p, ''read''), (beats_of (K_dim * N_dim) 1, read_b p, ''read''),
          (c_beats_of (M_dim * N_dim), write_c p, ''write'')]) LEVELS)
     @ (let cb = c_beats_of (M_dim * N_dim);
            want = feed_part cb ''write'' False;
            walked = feed_part cb ''write'' True
        in [Inr (want = b_write_c BENCH_F2), Inr (wbeats BENCH_F2 = cb),
            (case map_of MEASURED (''NPU bench'', HOP_RUN) of None \<Rightarrow> Inl KeyError
             | Some (_, _, before) \<Rightarrow> Inr (before - b_gemm BENCH_F2 = walked - want))])"

definition soc_floor :: "bool \<Rightarrow> int" where
  "soc_floor walk = (case SOC_SHAPE of (m, n, k) \<Rightarrow>
     feed_part (beats_of k 1) ''read'' False + feed_part (beats_of (k * n) 1) ''read'' False + HANDOFF + DONE_CYCLE
     + feed_part (c_beats_of (m * n)) ''write'' walk)"

definition feed_section5c :: "(py_error + bool) list" where
  "feed_section5c = map (\<lambda>(name, d).
     let ew = gemm_walk d - core d - soc_floor True; es = gemm_ct d - core d - soc_floor False
     in Inr (\<bar>es - ew\<bar> \<le> 8)) MEASURED_F2"

definition feed_section5d :: "(py_error + bool) list" where
  "feed_section5d = concat (map (\<lambda>(name, d). case wall_walk d of None \<Rightarrow> []
     | Some ww \<Rightarrow> (let hw = ww - gemm_walk d; hs = wall d - gemm_ct d in [Inr (\<bar>hs - hw\<bar> \<le> 16)])) MEASURED_F2)"

definition feed_section6 :: "(py_error + bool) list" where
  "feed_section6 = Inr MEASURED_PF2_OFF_Q1_IS_NOOP # map (\<lambda>(_, d). Inr (\<bar>d\<bar> < MEASURED_F2_WALL_DRIFT)) MEASURED_PF2_OFF_Q4"

text \<open>\<open>mg > 0\<close> with \<open>mg\<close> None raises; sixty-four rows always have a margin.\<close>

definition feed_section7 :: "(py_error + bool) list" where
  "feed_section7 = concat (map (\<lambda>((name, pta_tw, pta_ts, scanned), inter).
     if inter \<and> \<not> scanned \<or> \<not> inter \<and> scanned \<and> pta_tw \<noteq> 0 then []
     else let tw = (if scanned then SCAN else 0) + pta_tw; ts = pta_ts + SHOT_FLOOR in
       asserts (period ''NPU bench'') (\<lambda>per.
         let mg = (if inter then margin_interchanged tw ts TD per else margin_shipped tw ts TD per);
             aw = (if inter then arow_interchanged tw ts TD per else arow_shipped tw ts TD per)
         in [case mg of None \<Rightarrow> Inl TypeError | Some g \<Rightarrow> Inr ((aw = 0) = (0 < g))]))
     (concat (map (\<lambda>p. [(p, True), (p, False)]) (take 4 feed_points))))"

definition feed_main :: "py_error + unit" where
  "feed_main = assert_all (feed_section1 @ feed_section2c @ feed_section5 @ feed_section5c @ feed_section5d @ feed_section6 @ feed_section7)"

section \<open>The race and its margin\<close>

text \<open>No row after row 0 and before row \<open>m\<close> lands at or after the cycle the core asks for it.\<close>

definition on_time :: "int \<Rightarrow> int \<Rightarrow> int \<Rightarrow> int \<Rightarrow> nat \<Rightarrow> bool" where
  "on_time first start row_time per m \<longleftrightarrow> (\<forall>r \<in> {1..<m}. first + int r * per < start + int r * row_time)"

lemma on_time_Suc: "1 \<le> m \<Longrightarrow> on_time first start row_time per (Suc m)
    \<longleftrightarrow> on_time first start row_time per m \<and> first + int m * per < start + int m * row_time"
  by (auto simp: on_time_def atLeastLessThanSuc)

text \<open>What the core has waited is how far it is behind the rows it would have had.\<close>

lemma race_loop:
  assumes "fold (race_step first row_time per) [1..<Suc m] (start, 0) = (t, w)"
  shows "t = start + int m * row_time + w \<and> 0 \<le> w \<and> (w = 0 \<longleftrightarrow> on_time first start row_time per (Suc m))"
  using assms
proof (induction m arbitrary: t w)
  case (Suc m)
  obtain t0 w0 where p: "fold (race_step first row_time per) [1..<Suc m] (start, 0) = (t0, w0)" by force
  have "race_step first row_time per (Suc m) (t0, w0) = (t, w)" using Suc.prems p by simp
  then show ?case using Suc.IH[OF p] on_time_Suc[of "Suc m" first start row_time per]
    by (auto simp: race_step_def Let_def algebra_simps split: if_splits)
qed (simp add: on_time_def)

lemma race_from_zero:
  assumes "1 \<le> m"
  shows "race_from first start row_time per m = 0 \<longleftrightarrow> on_time first start row_time per m"
  using assms race_loop[of first row_time per "m - 1" start]
  by (cases "fold (race_step first row_time per) [1..<m] (start, 0)") (auto simp: race_from_def)

lemma margin_loop:
  assumes "fold (margin_step row_time per) [1..<Suc m] (start, None) = (t, g)"
  shows "\<exists>w. t = start + int m * row_time + w \<and> 0 \<le> w \<and> (w = 0 \<longleftrightarrow> on_time FIRST_ROW start row_time per (Suc m))
    \<and> (g = None \<longleftrightarrow> m = 0)
    \<and> (\<forall>v. g = Some v \<longrightarrow> (w = 0 \<longrightarrow> (\<forall>l. l < v \<longleftrightarrow> on_time (FIRST_ROW + l) start row_time per (Suc m))) \<and> (w \<noteq> 0 \<longrightarrow> v \<le> 0))"
  using assms
proof (induction m arbitrary: t g)
  case 0
  then show ?case by (simp add: on_time_def)
next
  case (Suc m)
  obtain t0 g0 where p: "fold (margin_step row_time per) [1..<Suc m] (start, None) = (t0, g0)" by force
  obtain w0 where w0: "t0 = start + int m * row_time + w0" "0 \<le> w0" "w0 = 0 \<longleftrightarrow> on_time FIRST_ROW start row_time per (Suc m)"
      "g0 = None \<longleftrightarrow> m = 0"
      "\<And>v. g0 = Some v \<Longrightarrow> w0 = 0 \<Longrightarrow> (\<forall>l. l < v \<longleftrightarrow> on_time (FIRST_ROW + l) start row_time per (Suc m))"
      "\<And>v. g0 = Some v \<Longrightarrow> w0 \<noteq> 0 \<Longrightarrow> v \<le> 0"
    using Suc.IH[OF p] by blast
  have st: "margin_step row_time per (Suc m) (t0, g0) = (t, g)" using Suc.prems p by simp
  let ?lands = "FIRST_ROW + int (Suc m) * per" and ?t1 = "start + int (Suc m) * row_time + w0"
  let ?slack = "?t1 - ?lands"
  have t1: "t0 + row_time = ?t1" using w0(1) by (simp add: algebra_simps)
  define w where "w = (if ?t1 \<le> ?lands then w0 + (?lands + 1 - ?t1) else w0)"
  have t: "t = start + int (Suc m) * row_time + w" "0 \<le> w"
    using st w0(2) t1 by (auto simp: margin_step_def Let_def w_def split: if_splits)
  have wz: "w = 0 \<longleftrightarrow> w0 = 0 \<and> ?lands < ?t1" using w0(2) by (auto simp: w_def)
  have on: "w = 0 \<longleftrightarrow> on_time FIRST_ROW start row_time per (Suc (Suc m))"
    using wz w0(3) on_time_Suc[of "Suc m" FIRST_ROW start row_time per] by auto
  have g: "g = Some (case g0 of None \<Rightarrow> ?slack | Some v \<Rightarrow> min v ?slack)"
    using st by (simp only: margin_step_def Let_def case_prod_conv t1 prod.inject)
  have less: "l < (case g0 of None \<Rightarrow> ?slack | Some v \<Rightarrow> min v ?slack) \<longleftrightarrow> on_time (FIRST_ROW + l) start row_time per (Suc (Suc m))"
    if "w = 0" for l
  proof -
    have z: "w0 = 0" using that wz by simp
    have "(case g0 of None \<Rightarrow> True | Some v \<Rightarrow> l < v) \<longleftrightarrow> on_time (FIRST_ROW + l) start row_time per (Suc m)"
      using w0(4) w0(5)[OF _ z] by (cases g0) (auto simp: on_time_def)
    then show ?thesis using z on_time_Suc[of "Suc m" "FIRST_ROW + l" start row_time per]
      by (cases g0) (auto simp: algebra_simps)
  qed
  have le: "(case g0 of None \<Rightarrow> ?slack | Some v \<Rightarrow> min v ?slack) \<le> 0" if "w \<noteq> 0"
  proof (cases "?lands < ?t1")
    case True
    then have "w0 \<noteq> 0" using that wz by simp
    then obtain v where "g0 = Some v" using w0(3,4) by (cases g0) (auto simp: on_time_def)
    then show ?thesis using w0(6) \<open>w0 \<noteq> 0\<close> by fastforce
  qed (auto split: option.splits)
  show ?case using t on g less le by auto
qed

lemma margin_race:
  assumes "2 \<le> m" "0 \<le> l"
  shows "\<exists>g. margin start row_time per m = Some g \<and> (race_from (FIRST_ROW + l) start row_time per m = 0 \<longleftrightarrow> l < g)"
proof -
  obtain t g where f: "fold (margin_step row_time per) [1..<Suc (m - 1)] (start, None) = (t, g)" by force
  have m: "Suc (m - 1) = m" using assms(1) by simp
  obtain w :: int where w: "w = 0 \<longleftrightarrow> on_time FIRST_ROW start row_time per m" "g = None \<longleftrightarrow> m - 1 = 0"
    "\<forall>v. g = Some v \<longrightarrow> (w = 0 \<longrightarrow> (\<forall>l. l < v \<longleftrightarrow> on_time (FIRST_ROW + l) start row_time per m)) \<and> (w \<noteq> 0 \<longrightarrow> v \<le> 0)"
    using margin_loop[OF f] unfolding m by (elim exE conjE) (rule that; assumption)
  obtain v where v: "g = Some v" using w(2) assms(1) by fastforce
  have "race_from (FIRST_ROW + l) start row_time per m = 0 \<longleftrightarrow> l < v"
  proof (cases "w = 0")
    case True
    then show ?thesis using race_from_zero[of m] w(3) v assms(1) by simp
  next
    case False
    then have "\<not> on_time (FIRST_ROW + l) start row_time per m" using w(1) assms(2) by (force simp: on_time_def)
    then show ?thesis using race_from_zero[of m] w(3) v False assms by fastforce
  qed
  then show ?thesis using f m v by (simp add: margin_def)
qed

text \<open>[C26] How long the tile can wait: a link that adds \<open>l\<close> cycles to every row's arrival costs the core no wait exactly when
  \<open>l\<close> is below the margin, for every number of rows, start and rates.  With \<open>l = 0\<close>, S_AROW is zero exactly where the
  margin is positive.\<close>

theorem margin_decides_race:
  assumes "2 \<le> m" "0 \<le> l"
  shows "\<exists>g. margin start row_time per m = Some g \<and> (race_from (FIRST_ROW + l) start row_time per m = 0 \<longleftrightarrow> l < g)"
  by (rule margin_race[OF assms])

theorem margin_decides_race_witness:
  "\<exists>g. margin CORE_START 128 36 64 = Some g \<and> (race_from (FIRST_ROW + 92) CORE_START 128 36 64 = 0 \<longleftrightarrow> 92 < g)"
  using margin_decides_race[of 64 92 CORE_START 128 36] by simp

text \<open>At the resident point the margin is 69 cycles, and a link that adds as many costs a wait.\<close>

lemma margin_is_late: "margin_shipped 0 3 TD 36 = Some 69 \<and> race_from (FIRST_ROW + 69) CORE_START (KT * 3 + TD) 36 (nat M_dim) = 1"
  by code_simp

section \<open>The assertions hold\<close>

lemma feed_section1_ok: "list_all (\<lambda>c. c = Inr True) feed_section1"
  by code_simp

lemma feed_section2c_ok: "list_all (\<lambda>c. c = Inr True) feed_section2c"
  by code_simp

lemma feed_section5_ok: "list_all (\<lambda>c. c = Inr True) (feed_section5 @ feed_section5c @ feed_section5d @ feed_section6)"
  by code_simp

text \<open>Section 7's agreement is the general one, at no added cycles.\<close>

lemma margin_agrees:
  assumes "2 \<le> m"
  shows "(case margin start row_time per m of None \<Rightarrow> Inl TypeError | Some g \<Rightarrow> Inr ((race start row_time per m = 0) = (0 < g))) = Inr True"
  using margin_race[OF assms, of 0 start row_time per] by (auto simp: race_def)

lemma feed_section7_ok: "list_all (\<lambda>c. c = Inr True) feed_section7"
proof -
  have "period ''NPU bench'' = Inr 36" by code_simp
  moreover have "2 \<le> nat M_dim" by simp
  ultimately show ?thesis using margin_agrees[of "nat M_dim"]
    unfolding feed_section7_def margin_interchanged_def margin_shipped_def arow_interchanged_def arow_shipped_def
    by (auto simp: list_all_iff asserts_def Let_def split: if_splits)
qed

lemma feed_main_passes: "feed_main = Inr ()"
  using feed_section1_ok feed_section2c_ok feed_section5_ok feed_section7_ok
  unfolding feed_main_def assert_all_ok list_all_iff by auto

end
