(* ===== verification/Chiplet_Link.thy ===== *)
theory Chiplet_Link
  imports Feed_Model "HOL-Library.AList"
begin

text \<open>
  \<^verbatim>\<open>docs/designs/pta_chiplet_link.py\<close>: what a layer moves across the die-to-die link, with the interface chip
  accumulating (the split) and without (thin), the rates that makes and the shot rate a link caps.  Counts
  are integers, rates exact rationals in place of floats; tile sides and batch are positive, as in every call.
\<close>

section \<open>Constants\<close>

definition CYCLE_NS :: rat where "CYCLE_NS = 10"
definition A_BYTES :: int where "A_BYTES = 1"
definition W_BYTES :: int where "W_BYTES = 1"
definition ADC_BYTES :: int where "ADC_BYTES = 1"
definition ACC_BYTES :: int where "ACC_BYTES = 4"
definition LANES :: rat where "LANES = 16"
definition GT_S :: rat where "GT_S = 32"
definition LINK_EFF :: rat where "LINK_EFF = 9 / 10"
definition ROUND_TRIP_NS :: rat where "ROUND_TRIP_NS = 100"
definition MODULE_GBS :: rat where "MODULE_GBS = LANES * GT_S / 8 * LINK_EFF"

section \<open>A layer's traffic\<close>

text \<open>\<open>int(x)\<close> of a float: towards zero.\<close>

definition py_int :: "rat \<Rightarrow> int" where
  "py_int r = (if 0 \<le> r then \<lfloor>r\<rfloor> else \<lceil>r\<rceil>)"

definition modules :: "rat \<Rightarrow> int" where
  "modules rate_gbs = ceil_div (py_int (rate_gbs * 10 ^ 9)) (py_int (MODULE_GBS * 10 ^ 9))"

record traffic =
  t_shots :: int
  t_weights :: int
  t_acts :: int
  t_results :: int
  t_into :: int
  t_out :: int

definition layer_traffic :: "int \<Rightarrow> int \<Rightarrow> int \<Rightarrow> int \<Rightarrow> int \<Rightarrow> bool \<Rightarrow> traffic" where
  "layer_traffic kin nout mb k n split =
     (let ktiles = ceil_div kin k; ngroups = ceil_div nout n;
          shots = ktiles * ngroups * mb;
          weights = ktiles * ngroups * k * n * W_BYTES;
          acts = (if split then mb * kin * A_BYTES else mb * kin * A_BYTES * ngroups);
          results = (if split then mb * nout * ACC_BYTES else mb * nout * ktiles * ADC_BYTES)
      in \<lparr>t_shots = shots, t_weights = weights, t_acts = acts, t_results = results, t_into = weights + acts, t_out = results\<rparr>)"

definition rates :: "int \<Rightarrow> int \<Rightarrow> int \<Rightarrow> int \<Rightarrow> int \<Rightarrow> rat \<Rightarrow> bool \<Rightarrow> rat \<times> rat" where
  "rates kin nout mb k n fs split =
     (let t = layer_traffic kin nout mb k n split; seconds = of_int (t_shots t) / fs
      in (of_int (t_into t) / seconds / 10 ^ 9, of_int (t_out t) / seconds / 10 ^ 9))"

definition max_shot_rate :: "int \<Rightarrow> int \<Rightarrow> int \<Rightarrow> int \<Rightarrow> int \<Rightarrow> rat \<Rightarrow> bool \<Rightarrow> rat" where
  "max_shot_rate kin nout mb k n mods split =
     (let t = layer_traffic kin nout mb k n split;
          per_shot = of_int (max (t_into t) (t_out t)) / of_int (t_shots t)
      in mods * MODULE_GBS * 10 ^ 9 / per_shot)"

section \<open>The assertions of \<open>main\<close>\<close>

definition POINTS :: "(string \<times> int \<times> int \<times> bool \<times> string) list" where
  "POINTS = [(''TO-1ms'', 100000, 5, True, ''interchanged''), (''TO-10us'', 1000, 5, True, ''interchanged''),
     (''EO-scan'', 0, 1, True, ''interchanged''), (''EO-res'', MB_TW, 1, False, ''shipped'')]"

definition GEOMETRIES :: "(int \<times> int) list" where
  "GEOMETRIES = [(8, 8), (64, 8), (128, 64), (256, 64), (256, 128)]"

definition BIG_kin :: int where "BIG_kin = 4096"
definition BIG_nout :: int where "BIG_nout = 4096"
definition BIG_mb :: int where "BIG_mb = 64"

text \<open>Section 1: the shots, the resident core, and every point's core against its reading.\<close>

definition link_section1 :: "(py_error + bool) list" where
  "link_section1 =
     [Inr (M_dim * NT * KT = 2048), Inr (shipped 0 1 TD M_dim NT KT = 2560)]
     @ (case map_of MEASURED_MB ''m-outer'' of None \<Rightarrow> [Inl KeyError]
        | Some resident \<Rightarrow>
            (let measured_core = AList.update ''EO-res'' resident MEASURED_C2 in
             map (\<lambda>(name, tw, ts, scanned, order).
               (let full_tw = (if scanned then SCAN else 0) + tw; shot = ts + SHOT_FLOOR;
                    cr = (if order = ''interchanged'' then interchanged full_tw shot TD M_dim NT KT True
                          else shipped full_tw shot TD M_dim NT KT)
                in case map_of measured_core name of None \<Rightarrow> Inl KeyError | Some got \<Rightarrow> Inr (cr = got))) POINTS))"

text \<open>Section 3: the thin chip moves no less, to a billionth.\<close>

definition link_section3 :: "bool list" where
  "link_section3 = map (\<lambda>(k, n).
     case (rates BIG_kin BIG_nout BIG_mb k n (10 ^ 9) True, rates BIG_kin BIG_nout BIG_mb k n (10 ^ 9) False) of
       ((si, so), (ti, to)) \<Rightarrow> si - 1 / 10 ^ 9 \<le> ti \<and> so - 1 / 10 ^ 9 \<le> to) GEOMETRIES"

text \<open>Section 4: what crosses but weights, with the activation stage on the chiplet or not.\<close>

fun stage_total :: "bool \<Rightarrow> bool \<Rightarrow> int \<Rightarrow> (int \<times> int) list \<Rightarrow> int" where
  "stage_total stage is_first mb [] = 0"
| "stage_total stage is_first mb ((kin, nout) # net) =
     (let t = layer_traffic kin nout mb 256 64 True in
      (if \<not> stage \<or> is_first then t_acts t else 0) + (if \<not> stage \<or> net = [] then t_results t else 0)
      + stage_total stage False mb net)"

definition link_section4 :: "bool list" where
  "link_section4 = map (\<lambda>(net, mb). stage_total True True mb net \<le> stage_total False True mb net)
     [([(784, 100), (100, 10)], 64), (replicate 4 (4096, 4096), 64)]"

definition link_main :: "py_error + unit" where
  "link_main = assert_all (link_section1 @ map Inr link_section3 @ map Inr link_section4)"

section \<open>What the split saves, and what a link caps\<close>

lemma link_main_passes: "link_main = Inr ()"
  by code_simp

text \<open>[C35] What the split saves, for every layer and tile: the activations never cross more often than on a thin chip,
  and the results take fewer bytes exactly when the layer is more than four K tiles deep, four being a sum's bytes
  over a code's; the shots and the weights are the same.\<close>

theorem split_saves:
  assumes "0 < kin" "0 < nout" "0 < mb" "0 < k" "0 < n"
  defines "s \<equiv> layer_traffic kin nout mb k n True" and "t \<equiv> layer_traffic kin nout mb k n False"
  shows "t_into s \<le> t_into t \<and> (t_into s = t_into t \<longleftrightarrow> nout \<le> n)
    \<and> (t_out s < t_out t \<longleftrightarrow> 4 * k < kin) \<and> (t_out s = t_out t \<longleftrightarrow> 3 * k < kin \<and> kin \<le> 4 * k)
    \<and> t_shots s = t_shots t \<and> t_weights s = t_weights t"
proof -
  let ?kt = "ceil_div kin k" and ?ng = "ceil_div nout n"
  have ng: "1 \<le> ?ng" using ceil_div_pos[of n nout] assms by simp
  have le: "ceil_div a b \<le> j \<longleftrightarrow> a \<le> j * b" if "0 < b" for a b j
  proof
    assume "ceil_div a b \<le> j"
    then have "ceil_div a b * b \<le> j * b" using that by (intro mult_right_mono) auto
    then show "a \<le> j * b" using ceil_div_bounds(1)[OF that, of a] by linarith
  qed (rule ceil_div_least[OF that])
  have into: "t_into t - t_into s = mb * kin * (?ng - 1)" "t_out t - t_out s = mb * nout * (?kt - 4)"
    by (simp_all add: s_def t_def layer_traffic_def Let_def A_BYTES_def ACC_BYTES_def ADC_BYTES_def algebra_simps)
  have pos: "0 < mb * kin" "0 < mb * nout" using assms by simp_all
  have "t_into s \<le> t_into t \<and> (t_into s = t_into t \<longleftrightarrow> ?ng \<le> 1)"
    using into(1) pos(1) ng by (smt (verit) mult_nonneg_nonneg mult_eq_0_iff)
  moreover have "t_out s < t_out t \<longleftrightarrow> \<not> ?kt \<le> 4"
    using into(2) pos(2) by (smt (verit) mult_pos_pos mult_nonneg_nonpos)
  moreover have "t_out s = t_out t \<longleftrightarrow> \<not> ?kt \<le> 3 \<and> ?kt \<le> 4"
    using into(2) pos(2) by (smt (verit) mult_eq_0_iff)
  ultimately show ?thesis using le assms(4,5)
    by (auto simp: s_def t_def layer_traffic_def Let_def not_le)
qed

theorem split_saves_witness:
  "t_out (layer_traffic 784 100 64 256 64 True) = t_out (layer_traffic 784 100 64 256 64 False)
   \<and> \<not> t_out (layer_traffic 100 10 64 256 64 True) \<le> t_out (layer_traffic 100 10 64 256 64 False)"
  using split_saves[of 784 100 64 256 64] split_saves[of 100 10 64 256 64] by auto

end
