(* ===== verification/Dispatch.thy ===== *)
theory Dispatch
  imports Chiplet_Link
begin

text \<open>
  \<^verbatim>\<open>docs/designs/pta_dispatch.py\<close>: which device a GEMM should go to.  The three devices' times, the search for the
  batch at which the chiplet's own time reaches a command's, and the assertions of \<open>checks\<close>.  Times are exact
  rationals in place of floats; the formatted figures the last assertions compare are left out.  The lemmas say
  what the second weight bank buys and that the search ends with the least batch.
\<close>

section \<open>Constants\<close>

definition GPU_MEASURED :: "((int \<times> int \<times> int) \<times> int) list" where
  "GPU_MEASURED = [((512, 512, 512), 13760999), ((1024, 512, 1024), 55253809)]"

definition GPU_MHZ :: rat where "GPU_MHZ = 400"
definition GPU_LAUNCH_SPAN :: rat where "GPU_LAUNCH_SPAN = 2776"
definition GPU_LAUNCH_PREAMBLE :: rat where "GPU_LAUNCH_PREAMBLE = 9418"

definition NPU_READ_A :: int where
  "NPU_READ_A = read_a (the (map_of LEVELS ''NPU bench''))"

definition NPU_F0_GEMM :: int where
  "NPU_F0_GEMM = snd (snd (the (map_of MEASURED (''NPU bench'', DIGITAL_RUN)))) - write_c (the (map_of LEVELS ''NPU bench''))
     + b_write_c BENCH_F2"

definition NPU_HOST :: int where
  "NPU_HOST = (let ds = map (\<lambda>(_, d). wall d - gemm_ct d) MEASURED_F2 in foldl min (hd ds) (tl ds))"

text \<open>\<open>pta_shot_rate.py\<close>'s two-bank write path and its one-bank duty.\<close>

definition per_beat_two_banks :: "int \<Rightarrow> int \<Rightarrow> int \<Rightarrow> int" where
  "per_beat_two_banks k n mb = \<lceil>(of_int (k * n) / of_int mb) :: rat\<rceil>"

definition duty_one_bank :: "int \<Rightarrow> int \<Rightarrow> int \<Rightarrow> int \<Rightarrow> rat" where
  "duty_one_bank k n mb per_beat = of_int mb / of_int (mb + \<lceil>(of_int (k * n) / of_int per_beat) :: rat\<rceil>)"

definition TILE :: "int \<times> int" where "TILE = (256, 64)"
definition FS :: rat where "FS = 10 ^ 9"
definition BANKS :: int where "BANKS = 2"
definition BATCH :: int where "BATCH = BIG_mb"
definition PER_BEAT :: int where "PER_BEAT = per_beat_two_banks (fst TILE) (snd TILE) BATCH"
definition LINK1_GBS :: rat where "LINK1_GBS = 64"
definition D3 :: "(int \<times> int) list" where "D3 = [(784, 100), (100, 10)]"
definition D3_V1_LOSS :: "(string \<times> rat) list" where
  "D3_V1_LOSS = [(''hourly calibration'', 24 / 100), (''every six minutes'', 21 / 100)]"
definition D3_V1_LOSS_8X8 :: "(string \<times> rat) list" where
  "D3_V1_LOSS_8X8 = [(''hourly calibration'', 81 / 100), (''every six minutes'', 37 / 100)]"

definition WORK :: "(string \<times> int \<times> int \<times> int) list" where
  "WORK = [(''D3 layer 1'', BATCH, 784, 100), (''D3 layer 2'', BATCH, 100, 10), (''section 6.2's shape'', M_dim, K_dim, N_dim),
     (''the SoC NPU's largest'', SOC_M, SOC_K, SOC_N), (''4096 x 4096'', BIG_mb, BIG_kin, BIG_nout)]"

definition macs :: "int \<Rightarrow> int \<Rightarrow> int \<Rightarrow> int" where
  "macs m k n = m * k * n"

section \<open>The GPU and the NPU\<close>

definition gpu_cycles_per_mac :: rat where
  "gpu_cycles_per_mac = of_int (sum_list (map snd GPU_MEASURED)) / of_int (sum_list (map (\<lambda>((m, k, n), _). macs m k n) GPU_MEASURED))"

definition gpu_launch_s :: "bool \<Rightarrow> rat" where
  "gpu_launch_s preamble = (GPU_LAUNCH_SPAN + (if preamble then GPU_LAUNCH_PREAMBLE else 0)) / (GPU_MHZ * 10 ^ 6)"

definition gpu_s :: "int \<Rightarrow> int \<Rightarrow> int \<Rightarrow> bool \<Rightarrow> rat" where
  "gpu_s m k n launch = gpu_cycles_per_mac * of_int (macs m k n) / (GPU_MHZ * 10 ^ 6) + (if launch then gpu_launch_s True else 0)"

definition npu_cycles :: "int \<Rightarrow> int \<Rightarrow> int \<Rightarrow> int" where
  "npu_cycles m k n =
     (let kt = ceil_div k NUM_ROWS; nt = ceil_div n NUM_COLS;
          cr = interchanged SCAN DIGITAL_RUN TD m nt kt True;
          rd = feed_part (beats_of (k * n) 1) ''read'' False;
          wr = feed_part (c_beats_of (m * n)) ''write'' False
      in NPU_READ_A + rd + cr + HANDOFF + wr + DONE_CYCLE)"

definition npu_s :: "int \<Rightarrow> int \<Rightarrow> int \<Rightarrow> bool \<Rightarrow> rat" where
  "npu_s m k n host = of_int (npu_cycles m k n + (if host then NPU_HOST else 0)) * CYCLE_NS / 10 ^ 9"

definition npu_takes :: "int \<Rightarrow> int \<Rightarrow> int \<Rightarrow> bool" where
  "npu_takes m k n \<longleftrightarrow> m \<le> SOC_M \<and> k \<le> SOC_K \<and> n \<le> SOC_N"

section \<open>The chiplet\<close>

text \<open>\<open>pta\<close>'s keyword arguments, and its result.\<close>

record pta_opts =
  o_tile :: "int \<times> int"
  o_fs :: rat
  o_mods :: rat
  o_per_beat :: int
  o_banks :: int
  o_resident :: bool
  o_padded :: bool

definition std :: pta_opts where
  "std = \<lparr>o_tile = TILE, o_fs = FS, o_mods = 1, o_per_beat = PER_BEAT, o_banks = BANKS, o_resident = False, o_padded = True\<rparr>"

record priced =
  p_sets :: int
  p_shots :: int
  p_beats :: int
  p_tile_s :: rat
  p_link_s :: rat
  p_into :: int
  p_out :: int
  p_binds :: string
  p_fill :: rat
  p_seconds :: rat

definition write_beats :: "pta_opts \<Rightarrow> int" where
  "write_beats opt = ceil_div (fst (o_tile opt) * snd (o_tile opt)) (o_per_beat opt)"

definition beats :: "pta_opts \<Rightarrow> int \<Rightarrow> int \<Rightarrow> int" where
  "beats opt sets m =
     (if o_resident opt then sets * m
      else if 2 \<le> o_banks opt then write_beats opt + (sets - 1) * max m (write_beats opt) + m
      else sets * (write_beats opt + m))"

definition pta :: "pta_opts \<Rightarrow> int \<Rightarrow> int \<Rightarrow> int \<Rightarrow> py_error + priced" where
  "pta opt m kin nout =
     (if m = 0 then Inl ZeroDivisionError
      else let k = fst (o_tile opt); n = snd (o_tile opt);
          t = layer_traffic kin nout m k n True;
          sets = t_shots t div m in
      if o_resident opt \<and> \<not> sets \<le> o_banks opt then Inl AssertionError
      else let
          bts = beats opt sets m;
          weights = (if o_padded opt then t_weights t else kin * nout * W_BYTES);
          into = (if o_resident opt then t_acts t else weights + t_acts t);
          tile_s = of_int bts / o_fs opt;
          link_s = of_int (max into (t_out t)) / (o_mods opt * MODULE_GBS * 10 ^ 9)
      in Inr \<lparr>p_sets = sets, p_shots = t_shots t, p_beats = bts, p_tile_s = tile_s, p_link_s = link_s, p_into = into, p_out = t_out t,
           p_binds = (if tile_s < link_s then ''link'' else ''tile''), p_fill = of_int (kin * nout) / of_int (sets * k * n),
           p_seconds = max tile_s link_s + ROUND_TRIP_NS / 10 ^ 9\<rparr>)"

definition pta_seconds :: "pta_opts \<Rightarrow> int \<Rightarrow> int \<Rightarrow> int \<Rightarrow> py_error + rat" where
  "pta_seconds opt m kin nout = bindE (pta opt m kin nout) (\<lambda>p. Inr (p_seconds p))"

definition slack_s :: "pta_opts \<Rightarrow> int \<Rightarrow> int \<Rightarrow> int \<Rightarrow> py_error + rat" where
  "slack_s opt m k n = bindE (pta_seconds opt m k n) (\<lambda>s. Inr (gpu_s m k n False - s))"

definition cross_s :: "int \<Rightarrow> int \<Rightarrow> int \<Rightarrow> rat" where
  "cross_s m k n = of_int (m * k + k * n + m * n * ACC_BYTES) / (LINK1_GBS * 10 ^ 9)"

definition npu_gpu_break_even :: "bool \<Rightarrow> rat" where
  "npu_gpu_break_even preamble =
     (let npu_rate = of_int NPU_F0_GEMM * CYCLE_NS / 10 ^ 9 / of_int (macs M_dim K_dim N_dim);
          gpu_rate = gpu_cycles_per_mac / (GPU_MHZ * 10 ^ 6);
          fixed = gpu_launch_s preamble - of_int NPU_HOST * CYCLE_NS / 10 ^ 9
      in fixed / (npu_rate - gpu_rate))"

definition npu_keeps_s :: rat where
  "npu_keeps_s = npu_s SOC_M SOC_K SOC_N True - gpu_s SOC_M SOC_K SOC_N False"

text \<open>\<open>batch_for_half\<close>: the doubling loop, \<open>None\<close> when it does not end, and the bisection.\<close>

partial_function (option) double_hi :: "(int \<Rightarrow> py_error + rat) \<Rightarrow> rat \<Rightarrow> int \<Rightarrow> (py_error + int) option" where
  "double_hi seconds command_s hi =
     (case seconds hi of Inl e \<Rightarrow> Some (Inl e)
      | Inr t \<Rightarrow> if t < command_s then double_hi seconds command_s (hi * 2) else Some (Inr hi))"

function bisect :: "(int \<Rightarrow> py_error + rat) \<Rightarrow> rat \<Rightarrow> int \<Rightarrow> int \<Rightarrow> py_error + int" where
  "bisect seconds command_s lo hi =
     (if lo < hi
      then let mid = (lo + hi) div 2 in
        (case seconds mid of Inl e \<Rightarrow> Inl e
         | Inr t \<Rightarrow> if t < command_s then bisect seconds command_s (mid + 1) hi else bisect seconds command_s lo mid)
      else Inr lo)"
  by pat_completeness auto
termination by (relation "measure (\<lambda>(_, _, lo, hi). nat (hi - lo))") auto

definition batch_for_half :: "pta_opts \<Rightarrow> int \<Rightarrow> int \<Rightarrow> rat \<Rightarrow> (py_error + int) option" where
  "batch_for_half opt kin nout command_s =
     (let seconds = (\<lambda>m. pta_seconds opt m kin nout) in
      case double_hi seconds command_s 1 of None \<Rightarrow> None
      | Some (Inl e) \<Rightarrow> Some (Inl e)
      | Some (Inr hi) \<Rightarrow> Some (bisect seconds command_s 1 hi))"

definition d3_chiplet_s :: "py_error + rat" where
  "d3_chiplet_s = bindE (mapE (\<lambda>(a, b). pta_seconds std BATCH a b) D3) (\<lambda>ts. Inr (sum_list ts))"

definition d3_submitted_s :: "rat \<Rightarrow> rat option \<Rightarrow> rat \<Rightarrow> py_error + rat" where
  "d3_submitted_s round_trips launch_s round_trip_s =
     bindE d3_chiplet_s (\<lambda>chiplet. Inr (chiplet + round_trips * round_trip_s + (case launch_s of None \<Rightarrow> 0 | Some l \<Rightarrow> l)))"

section \<open>The assertions of \<open>checks\<close>\<close>

definition host_s :: rat where "host_s = of_int NPU_HOST * CYCLE_NS / 10 ^ 9"

definition near :: "rat \<Rightarrow> rat \<Rightarrow> rat \<Rightarrow> bool" where
  "near x want tol \<longleftrightarrow> \<bar>x - want\<bar> < tol"

definition small :: "string \<times> int \<times> int \<times> int" where "small = WORK ! 3"

definition layers :: "(string \<times> int \<times> int \<times> int) list" where
  "layers = filter (\<lambda>w. w \<noteq> small) WORK"

definition max_of :: "rat list \<Rightarrow> rat" where "max_of xs = foldl max (hd xs) (tl xs)"
definition min_of :: "rat list \<Rightarrow> rat" where "min_of xs = foldl min (hd xs) (tl xs)"

text \<open>The inputs, and readings 1 and 2: the GPU's two runs are one rate; the NPU's model at F0's shape.\<close>

definition checks_devices :: "(py_error + bool) list" where
  "checks_devices =
     (let rts = map (\<lambda>((m, k, n), c). of_int c / of_int (macs m k n)) GPU_MEASURED;
          arow = fst (snd (the (map_of MEASURED (''NPU bench'', DIGITAL_RUN))))
      in [Inr ((TILE, FS, BANKS, BATCH, PER_BEAT) = ((256, 64), 10 ^ 9, 2, 64, 256)),
          Inr (fst small = ''the SoC NPU's largest'' \<and> (case snd small of (m, k, n) \<Rightarrow> macs m k n = 1536)),
          Inr (max_of rts / min_of rts < 1005 / 1000),
          Inr (near gpu_cycles_per_mac (1028 / 10000) (1 / 10000)),
          Inr (near (gpu_launch_s True * 10 ^ 6) (305 / 10) (5 / 100)),
          Inr (interchanged SCAN DIGITAL_RUN TD M_dim NT KT True = MEASURED_INTERCHANGED),
          Inr (NPU_F0_GEMM - npu_cycles M_dim K_dim N_dim = arow \<and> arow = 566),
          Inr (list_all (\<lambda>(_, d). 1085 \<le> wall d - gemm_ct d \<and> wall d - gemm_ct d \<le> 1105) MEASURED_F2),
          Inr (near (host_s * 10 ^ 6) (109 / 10) (5 / 100))])"

text \<open>3: the chiplet's model where the link's document has a number, and the weight path's.\<close>

definition checks_chiplet :: "(py_error + bool) list" where
  "checks_chiplet =
     asserts (pta std BIG_mb BIG_kin BIG_nout) (\<lambda>big.
       [Inr (p_binds big = ''link'' \<and> p_shots big = 65536 \<and> p_sets big = 1024),
        Inr (near (of_int (p_shots big) / p_link_s big) (max_shot_rate BIG_kin BIG_nout BIG_mb 256 64 1 True) 1)])
     @ concat (map (\<lambda>pb. asserts (pta (std\<lparr>o_banks := 1, o_per_beat := pb\<rparr>) BATCH 256 64) (\<lambda>one.
         [Inr (near (of_int BATCH / of_int (p_beats one)) (duty_one_bank 256 64 BATCH pb) (1 / 10 ^ 12))])) [1, 64, 256, 16384])
     @ asserts (pta std BATCH (4 * 256) (4 * 64)) (\<lambda>two. [Inr (p_sets two = 16 \<and> p_beats two = p_shots two + BATCH)])"

text \<open>4 and 5: the ratios to the GPU, the slack, and the SoC NPU's largest shape.\<close>

definition ratios :: "(string \<times> int \<times> int \<times> int) list \<Rightarrow> py_error + rat list" where
  "ratios ws = mapE (\<lambda>(_, m, k, n). bindE (pta_seconds std m k n) (\<lambda>t. Inr (gpu_s m k n False / t))) ws"

definition checks_ratios :: "(py_error + bool) list" where
  "checks_ratios =
     asserts (ratios layers) (\<lambda>lay. [Inr (33 < min_of lay \<and> min_of lay < 34 \<and> 932 < max_of lay \<and> max_of lay < 934)])
     @ asserts (mapE (\<lambda>(_, m, k, n). slack_s std m k n) layers) (\<lambda>sl.
         [Inr (near (min_of sl * 10 ^ 6) 16 (1 / 10) \<and> near (max_of sl * 10 ^ 3) 276 1),
          bindE (slack_s std BATCH 100 10) (\<lambda>s. Inr (min_of sl = s))])
     @ (case small of (_, m, k, n) \<Rightarrow>
         asserts (ratios [small]) (\<lambda>rs. [Inr (near (hd rs) 1 (3 / 100))])
         @ asserts (pta std m k n) (\<lambda>p. [Inr (p_binds p = ''link'' \<and> p_sets p = 1 \<and> p_into p = 256 * 64 + m * k)])
         @ asserts (pta (std\<lparr>o_padded := False\<rparr>) m k n) (\<lambda>u.
             [Inr (p_binds u = ''tile''), Inr (near (gpu_s m k n False / p_seconds u) (23 / 10) (5 / 100))]))"

text \<open>6 and 7: D3 on the chiplet, and what the link binds.\<close>

definition checks_d3 :: "(py_error + bool) list" where
  "checks_d3 =
     asserts d3_chiplet_s (\<lambda>d3.
       [Inr (near (d3 * 10 ^ 6) (374 / 100) (5 / 1000)),
        Inr (near (2 * host_s / d3) (58 / 10) (5 / 100) \<and> near (2 * gpu_launch_s True / d3) (163 / 10) (5 / 100)),
        Inr (near (gpu_launch_s True / d3) (81 / 10) (1 / 10))])
     @ concat (map (\<lambda>(a, b). asserts (pta_seconds std BATCH a b) (\<lambda>t. [Inr (t / (t + host_s) < 1 / 4)])) D3)
     @ asserts (mapE (\<lambda>(_, m, k, n). pta std m k n) WORK) (\<lambda>ps. [Inr (list_all (\<lambda>p. p_binds p = ''link'') ps)])
     @ asserts (pta std BATCH 784 100) (\<lambda>l1.
         [Inr (p_sets l1 = 8 \<and> near (p_fill l1) (598 / 1000) (1 / 1000)),
          bindE (pta_seconds std (2 * BATCH) 784 100) (\<lambda>t. Inr (t < 14 / 10 * p_seconds l1))])
     @ asserts (pta std BATCH 100 10) (\<lambda>l2. [Inr (near (p_fill l2) (61 / 1000) (1 / 1000)), Inr (p_into l2 = 256 * 64 + BATCH * 100 \<and> BATCH * 100 = 6400)])
     @ map (\<lambda>(_, m, k, n). bindE (pta_seconds (std\<lparr>o_mods := 5\<rparr>) m k n) (\<lambda>t5. bindE (pta_seconds std m k n) (\<lambda>t1. Inr (t5 < t1 / 2)))) layers"

text \<open>8 and 9: the second layer at a tenth of the rate and on one bank; the NPU against the GPU.\<close>

definition checks_break_even :: "(py_error + bool) list" where
  "checks_break_even =
     asserts (pta_seconds (std\<lparr>o_fs := FS / 10\<rparr>) BATCH 100 10) (\<lambda>t. [Inr (near (gpu_s BATCH 100 10 False / t) 12 (1 / 10))])
     @ asserts (pta_seconds (std\<lparr>o_banks := 1, o_per_beat := 1\<rparr>) BATCH 100 10) (\<lambda>t. [Inr (near (gpu_s BATCH 100 10 False / t) 1 (1 / 100))])
     @ asserts (pta std BATCH 100 10) (\<lambda>p. [bindE (pta (std\<lparr>o_banks := 1\<rparr>) BATCH 100 10) (\<lambda>p1. Inr (p_beats p = p_beats p1))])
     @ [Inr (3600 < npu_gpu_break_even True \<and> npu_gpu_break_even True < 3800),
        Inr (of_int (macs SOC_M SOC_K SOC_N) < npu_gpu_break_even True),
        Inr (npu_gpu_break_even False < 0),
        Inr (gpu_launch_s False < host_s \<and> host_s < gpu_launch_s True),
        Inr (near (npu_keeps_s * 10 ^ 6) (244 / 10) (5 / 100)),
        Inr (gpu_launch_s False < npu_keeps_s \<and> npu_keeps_s < gpu_launch_s True),
        Inr (near (gpu_launch_s False * 10 ^ 6) (69 / 10) (5 / 100)),
        Inr (gpu_s M_dim K_dim N_dim True < npu_s M_dim K_dim N_dim True),
        Inr ((case small of (_, m, k, n) \<Rightarrow> npu_takes m k n) \<and> \<not> list_ex (\<lambda>(_, m, k, n). npu_takes m k n) layers),
        Inr (sort (map snd D3_V1_LOSS) = [21 / 100, 24 / 100]),
        Inr (TILE = (256, 64)),
        Inr (list_all (\<lambda>(key, v). case map_of D3_V1_LOSS_8X8 key of Some v8 \<Rightarrow> v < v8 | None \<Rightarrow> False) D3_V1_LOSS),
        Inr (sort (map snd D3_V1_LOSS_8X8) = [37 / 100, 81 / 100])]"

text \<open>13: one list in place of three submissions saves two round trips, at either launch cost.\<close>

definition checks_list :: "(py_error + bool) list" where
  "checks_list = map (\<lambda>x. bindE (d3_submitted_s 3 (Some x) host_s) (\<lambda>a. bindE (d3_submitted_s 1 (Some x) host_s) (\<lambda>b.
     Inr (near (a - b) (2 * host_s) (1 / 10 ^ 12))))) [gpu_launch_s False, gpu_launch_s True]"

definition dispatch_checks :: "py_error + unit" where
  "dispatch_checks = assert_all (checks_devices @ checks_chiplet @ checks_ratios @ checks_d3 @ checks_break_even @ checks_list)"

section \<open>The second bank\<close>

text \<open>[C34] What the second weight bank buys, for every tile, write path and batch: the two-bank tile takes no more beats
  than the one-bank tile, as many exactly when the layer is one weight set, and where a set is written within a
  batch only the first write is seen.\<close>

theorem second_bank_hides_writes:
  assumes "\<not> o_resident opt" "1 \<le> sets" "1 \<le> m" "0 < fst (o_tile opt)" "0 < snd (o_tile opt)" "0 < o_per_beat opt"
  shows "beats (opt\<lparr>o_banks := 2\<rparr>) sets m \<le> beats (opt\<lparr>o_banks := 1\<rparr>) sets m
    \<and> (beats (opt\<lparr>o_banks := 2\<rparr>) sets m = beats (opt\<lparr>o_banks := 1\<rparr>) sets m \<longleftrightarrow> sets = 1)
    \<and> (write_beats opt \<le> m \<longrightarrow> beats (opt\<lparr>o_banks := 2\<rparr>) sets m = write_beats opt + sets * m)"
proof -
  have w: "write_beats (opt\<lparr>o_banks := b\<rparr>) = write_beats opt" for b by (simp add: write_beats_def)
  have pos: "1 \<le> write_beats opt" using ceil_div_pos[of "o_per_beat opt" "fst (o_tile opt) * snd (o_tile opt)"] assms by (simp add: write_beats_def mult_pos_pos)
  have gap: "beats (opt\<lparr>o_banks := 1\<rparr>) sets m - beats (opt\<lparr>o_banks := 2\<rparr>) sets m = (sets - 1) * min m (write_beats opt)"
    using assms(1) by (simp add: beats_def w max_def min_def algebra_simps)
  have mn: "1 \<le> min m (write_beats opt)" using pos assms(3) by simp
  have "0 \<le> (sets - 1) * min m (write_beats opt)" using assms(2) mn by simp
  moreover have "(sets - 1) * min m (write_beats opt) = 0 \<longleftrightarrow> sets = 1" using mn by auto
  moreover have "write_beats opt \<le> m \<Longrightarrow> beats (opt\<lparr>o_banks := 2\<rparr>) sets m = write_beats opt + sets * m"
    using assms(1) by (simp add: beats_def w algebra_simps)
  ultimately show ?thesis using gap by auto
qed

theorem second_bank_hides_writes_witness: "beats std 16 BATCH = 64 + 16 * BATCH"
  using second_bank_hides_writes[of std 16 BATCH]
  by (simp add: std_def BANKS_def write_beats_def TILE_def PER_BEAT_def per_beat_two_banks_def BATCH_def BIG_mb_def ceil_div_def)

section \<open>The search\<close>

lemma sets_of: "0 < m \<Longrightarrow> t_shots (layer_traffic kin nout m k n s) div m = ceil_div kin k * ceil_div nout n"
  by (simp add: layer_traffic_def Let_def)

lemma beats_mono:
  assumes "1 \<le> sets" "1 \<le> m" "m \<le> m'" "0 \<le> write_beats opt"
  shows "beats opt sets m \<le> beats opt sets m' \<and> m \<le> beats opt sets m"
proof -
  have "(sets - 1) * max m (write_beats opt) \<le> (sets - 1) * max m' (write_beats opt)" "sets * m \<le> sets * m'"
    "sets * (write_beats opt + m) \<le> sets * (write_beats opt + m')"
    using assms by (auto intro!: mult_left_mono)
  moreover have "m \<le> sets * write_beats opt + sets * m"
    using mult_right_mono[OF assms(1), of m] mult_nonneg_nonneg[of sets "write_beats opt"] assms by linarith
  moreover have "m \<le> sets * m" using mult_right_mono[OF assms(1), of m] assms by linarith
  moreover have "0 \<le> (sets - 1) * max m (write_beats opt)" using assms by simp
  ultimately show ?thesis using assms by (auto simp: beats_def distrib_left simp del: mult_le_cancel_right mult_le_cancel_left mult_le_cancel_right1 mult_le_cancel_left1)
qed

text \<open>The chiplet's time as a function of the batch, and what the search needs of it.\<close>

definition time_of :: "pta_opts \<Rightarrow> int \<Rightarrow> int \<Rightarrow> int \<Rightarrow> rat" where
  "time_of opt kin nout m =
     (let k = fst (o_tile opt); n = snd (o_tile opt); t = layer_traffic kin nout m k n True;
          weights = (if o_padded opt then t_weights t else kin * nout * W_BYTES)
      in max (of_int (beats opt (ceil_div kin k * ceil_div nout n) m) / o_fs opt)
           (of_int (max (weights + t_acts t) (t_out t)) / (o_mods opt * MODULE_GBS * 10 ^ 9)) + ROUND_TRIP_NS / 10 ^ 9)"

lemma pta_seconds_time: "\<not> o_resident opt \<Longrightarrow> 0 < m \<Longrightarrow> pta_seconds opt m kin nout = Inr (time_of opt kin nout m)"
  by (simp add: pta_seconds_def pta_def time_of_def Let_def sets_of)

definition usual :: "pta_opts \<Rightarrow> bool" where
  "usual opt \<longleftrightarrow> \<not> o_resident opt \<and> 0 < fst (o_tile opt) \<and> 0 < snd (o_tile opt) \<and> 0 < o_per_beat opt \<and> 0 < o_fs opt \<and> 0 < o_mods opt"

lemma time_of_mono:
  assumes "usual opt" "0 < kin" "0 < nout" "1 \<le> m" "m \<le> m'"
  shows "time_of opt kin nout m \<le> time_of opt kin nout m'" "of_int m / o_fs opt \<le> time_of opt kin nout m"
proof -
  let ?k = "fst (o_tile opt)" and ?n = "snd (o_tile opt)"
  let ?s = "ceil_div kin ?k * ceil_div nout ?n"
  have s: "1 \<le> ?s" using ceil_div_pos[of ?k kin] ceil_div_pos[of ?n nout] assms by (simp add: usual_def mult_pos_pos int_one_le_iff_zero_less)
  have wb: "0 \<le> write_beats opt" using ceil_div_nonneg[of "o_per_beat opt" "?k * ?n"] assms by (simp add: usual_def write_beats_def)
  note b = beats_mono[OF s assms(4,5) wb]
  let ?into = "\<lambda>m. (if o_padded opt then t_weights (layer_traffic kin nout m ?k ?n True) else kin * nout * W_BYTES) + t_acts (layer_traffic kin nout m ?k ?n True)"
  have "?into m \<le> ?into m'" "t_out (layer_traffic kin nout m ?k ?n True) \<le> t_out (layer_traffic kin nout m' ?k ?n True)"
    using assms by (auto simp: layer_traffic_def Let_def A_BYTES_def ACC_BYTES_def)
  then have i: "max (?into m) (t_out (layer_traffic kin nout m ?k ?n True)) \<le> max (?into m') (t_out (layer_traffic kin nout m' ?k ?n True))"
    by linarith
  have pos: "0 < o_fs opt" "0 < o_mods opt * MODULE_GBS * 10 ^ 9"
    using assms(1) by (simp_all add: usual_def MODULE_GBS_def LANES_def GT_S_def LINK_EFF_def)
  have "of_int (beats opt ?s m) / o_fs opt \<le> of_int (beats opt ?s m') / o_fs opt" using b pos(1) by (intro divide_right_mono) simp_all
  moreover have "of_int (max (?into m) (t_out (layer_traffic kin nout m ?k ?n True))) / (o_mods opt * MODULE_GBS * 10 ^ 9)
      \<le> of_int (max (?into m') (t_out (layer_traffic kin nout m' ?k ?n True))) / (o_mods opt * MODULE_GBS * 10 ^ 9)"
    using i pos(2) by (intro divide_right_mono) (simp_all only: of_int_le_iff less_imp_le)
  ultimately show "time_of opt kin nout m \<le> time_of opt kin nout m'" unfolding time_of_def Let_def by (intro add_right_mono max.mono)
  have "of_int m / o_fs opt \<le> of_int (beats opt ?s m) / o_fs opt" using b pos(1) by (intro divide_right_mono) simp_all
  then show "of_int m / o_fs opt \<le> time_of opt kin nout m"
    unfolding time_of_def Let_def by (simp add: ROUND_TRIP_NS_def le_max_iff_disj add_increasing2)
qed

text \<open>What the search asks of a device: a time that never falls with the batch and grows without bound.  On such a time the
  doubling loop ends, and the bisection finds the least batch.\<close>

locale rising =
  fixes f :: "int \<Rightarrow> rat" and fs :: rat
  assumes mono: "1 \<le> a \<Longrightarrow> a \<le> b \<Longrightarrow> f a \<le> f b"
    and up: "1 \<le> m \<Longrightarrow> of_int m / fs \<le> f m"
    and fs: "0 < fs"
begin

lemma double_hi_ends:
  assumes f: "\<And>m. 1 \<le> m \<Longrightarrow> seconds m = Inr (f m)" and "1 \<le> hi"
  shows "\<exists>hi'. double_hi seconds c hi = Some (Inr hi') \<and> 1 \<le> hi' \<and> c \<le> f hi'"
  using assms(2)
proof (induction "nat (\<lceil>c * fs\<rceil> - hi)" arbitrary: hi rule: less_induct)
  case less
  show ?case
  proof (cases "f hi < c")
    case True
    then have "of_int hi < c * fs" using up[OF less.prems] fs by (simp add: pos_divide_le_eq) (metis le_less_trans mult_less_cancel_right_pos)
    then have "hi < \<lceil>c * fs\<rceil>" by linarith
    then have "nat (\<lceil>c * fs\<rceil> - hi * 2) < nat (\<lceil>c * fs\<rceil> - hi)" using less.prems by linarith
    then obtain hi' where "double_hi seconds c (hi * 2) = Some (Inr hi')" "1 \<le> hi'" "c \<le> f hi'"
      using less.hyps[of "hi * 2"] less.prems by auto
    then show ?thesis using True f[OF less.prems] by (subst double_hi.simps) simp
  next
    case False
    then show ?thesis using f[OF less.prems] less.prems by (subst double_hi.simps) simp
  qed
qed

lemma bisect_least:
  assumes f: "\<And>m. 1 \<le> m \<Longrightarrow> seconds m = Inr (f m)"
    and "1 \<le> lo" "lo \<le> hi" "c \<le> f hi" "\<And>b. 1 \<le> b \<Longrightarrow> b < lo \<Longrightarrow> f b < (c :: rat)"
  shows "\<exists>r. bisect seconds c lo hi = Inr r \<and> 1 \<le> r \<and> c \<le> f r \<and> (\<forall>b. 1 \<le> b \<longrightarrow> b < r \<longrightarrow> f b < c)"
  using assms(2-5)
proof (induction "nat (hi - lo)" arbitrary: lo hi rule: less_induct)
  case less
  show ?case
  proof (cases "lo < hi")
    case True
    let ?mid = "(lo + hi) div 2"
    have mid: "lo \<le> ?mid" "?mid < hi" "1 \<le> ?mid" using True less.prems(1) by linarith+
    show ?thesis
    proof (cases "f ?mid < c")
      case below: True
      have "f b < c" if "1 \<le> b" "b < ?mid + 1" for b using mono[of b ?mid] that below by fastforce
      then have "\<exists>r. bisect seconds c (?mid + 1) hi = Inr r \<and> 1 \<le> r \<and> c \<le> f r \<and> (\<forall>b. 1 \<le> b \<longrightarrow> b < r \<longrightarrow> f b < c)"
        using less.hyps[of hi "?mid + 1"] mid less.prems(3) by simp
      then show ?thesis using True below f[OF mid(3)] by (subst bisect.simps) (simp add: Let_def)
    next
      case False
      then have "\<exists>r. bisect seconds c lo ?mid = Inr r \<and> 1 \<le> r \<and> c \<le> f r \<and> (\<forall>b. 1 \<le> b \<longrightarrow> b < r \<longrightarrow> f b < c)"
        using less.hyps[of ?mid lo] mid less.prems by simp
      then show ?thesis using True False f[OF mid(3)] by (subst bisect.simps) (simp add: Let_def)
    qed
  next
    case False
    then show ?thesis using less.prems by (subst bisect.simps) auto
  qed
qed

lemma search:
  assumes "\<And>m. 1 \<le> m \<Longrightarrow> seconds m = Inr (f m)"
  shows "\<exists>hi r. double_hi seconds c 1 = Some (Inr hi) \<and> bisect seconds c 1 hi = Inr r \<and> 1 \<le> r \<and> c \<le> f r
    \<and> (\<forall>b. 1 \<le> b \<longrightarrow> b < r \<longrightarrow> f b < c)"
proof -
  obtain hi where hi: "double_hi seconds c 1 = Some (Inr hi)" "1 \<le> hi" "c \<le> f hi"
    using double_hi_ends[of seconds 1 c] assms by auto
  then show ?thesis using bisect_least[of seconds 1 hi c] assms by auto
qed

end

lemma rising_time: "usual opt \<Longrightarrow> 0 < kin \<Longrightarrow> 0 < nout \<Longrightarrow> rising (time_of opt kin nout) (o_fs opt)"
  using time_of_mono[of opt kin nout] by unfold_locales (auto simp: usual_def)

lemma std_usual: "usual std"
  by (simp add: usual_def std_def TILE_def PER_BEAT_def per_beat_two_banks_def BATCH_def BIG_mb_def FS_def)

interpretation std_time: rising "time_of std (int (Suc a)) (int (Suc b))" "o_fs std" for a b
  by (rule rising_time[OF std_usual]) simp_all

lemma batch_search:
  assumes "\<not> o_resident opt" "0 < fst (o_tile opt)" "0 < snd (o_tile opt)" "0 < o_per_beat opt" "0 < o_fs opt" "0 < o_mods opt"
    "0 < kin" "0 < nout"
  shows "\<exists>b t. batch_for_half opt kin nout c = Some (Inr b) \<and> 1 \<le> b \<and> pta_seconds opt b kin nout = Inr t \<and> c \<le> t
    \<and> (\<forall>b'. 1 \<le> b' \<longrightarrow> b' < b \<longrightarrow> (\<exists>t'. pta_seconds opt b' kin nout = Inr t' \<and> t' < c))"
proof -
  have u: "usual opt" using assms by (simp add: usual_def)
  let ?f = "time_of opt kin nout" and ?s = "\<lambda>m. pta_seconds opt m kin nout"
  have s: "?s m = Inr (?f m)" if "1 \<le> m" for m using pta_seconds_time[OF assms(1)] that by simp
  obtain hi r where "double_hi ?s c 1 = Some (Inr hi)" "bisect ?s c 1 hi = Inr r" "1 \<le> r" "c \<le> ?f r"
      "\<forall>b. 1 \<le> b \<longrightarrow> b < r \<longrightarrow> ?f b < c"
    using rising.search[OF rising_time[OF u assms(7,8)], of ?s c] s by blast
  then show ?thesis using s by (auto simp: batch_for_half_def)
qed

text \<open>[C17] The search for the batch ends, and finds the least: with weights sent and every rate positive, \<open>batch_for_half\<close>
  returns a batch whose chiplet time reaches the command's, and no smaller batch's does.\<close>

theorem batch_for_half_least:
  assumes "\<not> o_resident opt" "0 < fst (o_tile opt)" "0 < snd (o_tile opt)" "0 < o_per_beat opt" "0 < o_fs opt" "0 < o_mods opt"
    "0 < kin" "0 < nout"
  shows "\<exists>b t. batch_for_half opt kin nout c = Some (Inr b) \<and> 1 \<le> b \<and> pta_seconds opt b kin nout = Inr t \<and> c \<le> t
    \<and> (\<forall>b'. 1 \<le> b' \<longrightarrow> b' < b \<longrightarrow> (\<exists>t'. pta_seconds opt b' kin nout = Inr t' \<and> t' < c))"
  by (rule batch_search[OF assms])

theorem batch_for_half_least_witness:
  "\<exists>b t. batch_for_half std 784 100 host_s = Some (Inr b) \<and> pta_seconds std b 784 100 = Inr t \<and> host_s \<le> t"
proof -
  have "\<not> o_resident std" "0 < fst (o_tile std)" "0 < snd (o_tile std)" "0 < o_per_beat std" "0 < o_fs std" "0 < o_mods std"
    by (simp_all add: std_def TILE_def PER_BEAT_def per_beat_two_banks_def BATCH_def BIG_mb_def FS_def)
  then show ?thesis using batch_for_half_least[of std 784 100 host_s] by auto
qed

section \<open>The assertions hold\<close>

text \<open>Two readings settle a search.\<close>

lemma batch_at:
  assumes "usual opt" "0 < kin" "0 < nout" "2 \<le> b"
    "pta_seconds opt (b - 1) kin nout = Inr t1" "t1 < c" "pta_seconds opt b kin nout = Inr t2" "c \<le> t2"
  shows "batch_for_half opt kin nout c = Some (Inr b)"
proof -
  obtain r t where r: "batch_for_half opt kin nout c = Some (Inr r)" "1 \<le> r" "pta_seconds opt r kin nout = Inr t" "c \<le> t"
    "\<forall>b'. 1 \<le> b' \<longrightarrow> b' < r \<longrightarrow> (\<exists>t'. pta_seconds opt b' kin nout = Inr t' \<and> t' < c)"
    using batch_search[of opt kin nout c] assms(1-3) by (auto simp: usual_def)
  have "\<not> b < r" using r(5)[rule_format, of b] assms by auto
  moreover have "\<not> r < b"
  proof
    assume "r < b"
    then have "time_of opt kin nout r \<le> time_of opt kin nout (b - 1)" using time_of_mono(1)[OF assms(1-3) r(2)] by simp
    then show False using r(3,4) assms(1,4-6) pta_seconds_time[of opt] r(2) by (auto simp: usual_def)
  qed
  ultimately show ?thesis using r(1) by simp
qed

lemma batches_quoted: "map (\<lambda>(a, b). batch_for_half std a b host_s) D3 = [Some (Inr 628), Some (Inr 6063)]"
proof -
  have "(case (pta_seconds std (b - 1) kin nout, pta_seconds std b kin nout) of (Inr t1, Inr t2) \<Rightarrow> t1 < host_s \<and> host_s \<le> t2 | _ \<Rightarrow> False)
      \<Longrightarrow> 0 < kin \<Longrightarrow> 0 < nout \<Longrightarrow> 2 \<le> b \<Longrightarrow> batch_for_half std kin nout host_s = Some (Inr b)" for b kin nout
    using batch_at[OF std_usual] by (auto split: sum.splits)
  moreover have "(case (pta_seconds std (628 - 1) 784 100, pta_seconds std 628 784 100) of (Inr t1, Inr t2) \<Rightarrow> t1 < host_s \<and> host_s \<le> t2 | _ \<Rightarrow> False)"
    "(case (pta_seconds std (6063 - 1) 100 10, pta_seconds std 6063 100 10) of (Inr t1, Inr t2) \<Rightarrow> t1 < host_s \<and> host_s \<le> t2 | _ \<Rightarrow> False)"
    by code_simp+
  ultimately show ?thesis by (simp add: D3_def)
qed

text \<open>The numbers behind the assertions.\<close>

lemmas dispatch_defs = checks_devices_def checks_chiplet_def checks_ratios_def checks_d3_def checks_break_even_def checks_list_def
  host_s_def near_def small_def layers_def max_of_def min_of_def ratios_def asserts_def slack_s_def pta_seconds_def pta_def std_def beats_def write_beats_def
  layer_traffic_def rates_def max_shot_rate_def MODULE_GBS_def LANES_def GT_S_def LINK_EFF_def ROUND_TRIP_NS_def A_BYTES_def W_BYTES_def ADC_BYTES_def ACC_BYTES_def
  BIG_kin_def BIG_nout_def BIG_mb_def TILE_def FS_def BANKS_def BATCH_def PER_BEAT_def per_beat_two_banks_def duty_one_bank_def D3_def D3_V1_LOSS_def D3_V1_LOSS_8X8_def WORK_def macs_def
  gpu_cycles_per_mac_def gpu_launch_s_def gpu_s_def npu_cycles_def npu_s_def npu_takes_def GPU_MEASURED_def GPU_MHZ_def GPU_LAUNCH_SPAN_def GPU_LAUNCH_PREAMBLE_def NPU_READ_A_def NPU_F0_GEMM_def NPU_HOST_def
  npu_gpu_break_even_def npu_keeps_s_def d3_chiplet_s_def d3_submitted_s_def ceil_div_def CYCLE_NS_def
  LEVELS_def MEASURED_def MEASURED_F2_def BENCH_F2_def DIGITAL_RUN_def HOP_RUN_def interchanged_def SCAN_def TD_def NT_def KT_def MEASURED_INTERCHANGED_def
  feed_part_def beats_of_def c_beats_of_def READ_BEAT_def READ_SETUP_def WRITE_BEAT_def WRITE_SETUP_def WRITE_FILL_def WORDS_PER_BEAT_def BYTES_PER_BEAT_def HANDOFF_def DONE_CYCLE_def WRITE_BEAT_WALK_def

lemma checks_devices_ok: "list_all (\<lambda>c. c = Inr True) checks_devices"
  by (simp add: dispatch_defs Let_def)

lemma checks_chiplet_ok: "list_all (\<lambda>c. c = Inr True) checks_chiplet"
  by (simp add: dispatch_defs Let_def)

lemma checks_ratios_ok: "list_all (\<lambda>c. c = Inr True) checks_ratios"
  by (simp add: dispatch_defs Let_def)

lemma checks_d3_ok: "list_all (\<lambda>c. c = Inr True) checks_d3"
  by code_simp

lemma checks_break_even_ok: "list_all (\<lambda>c. c = Inr True) checks_break_even"
  by (simp add: dispatch_defs Let_def)

lemma checks_list_ok: "list_all (\<lambda>c. c = Inr True) checks_list"
  by (simp add: dispatch_defs Let_def)

lemma dispatch_checks_pass: "dispatch_checks = Inr ()"
  using checks_devices_ok checks_chiplet_ok checks_ratios_ok checks_d3_ok checks_break_even_ok checks_list_ok
  unfolding dispatch_checks_def assert_all_ok list_all_iff by auto

end
