(* ===== verification/Write_Path.thy ===== *)
theory Write_Path
  imports Dispatch
begin

text \<open>
  The write path and what a calibration costs: \<^verbatim>\<open>docs/designs/pta_shot_rate.py\<close>'s feed and weight path, the calibration
  interval of \<^verbatim>\<open>pta_version2.py\<close>, the layer of \<^verbatim>\<open>pta_working_point.py\<close> and \<^verbatim>\<open>pta_interruption.py\<close>'s counts of beats.
  The lemmas say of all arguments what the scripts assert at a few: the width \<open>per_beat_one_bank\<close> returns is the least
  that reaches the duty, and the feed with weights re-sent is the link's.
\<close>

section \<open>The feed and the weight path\<close>

definition X2_TILE :: "int \<times> int" where "X2_TILE = (256, 64)"
definition X2_FS :: rat where "X2_FS = 10 ^ 9"
definition X2_MODULES :: int where "X2_MODULES = 5"
definition NINE_TENTHS :: rat where "NINE_TENTHS = 9 / 10"

text \<open>Bytes in and out a shot; the activations alone come in where the weights are resident.\<close>

definition bytes_per_shot :: "int \<Rightarrow> int \<Rightarrow> int \<Rightarrow> int \<Rightarrow> int \<Rightarrow> bool \<Rightarrow> py_error + rat \<times> rat" where
  "bytes_per_shot kin nout mb k n resident =
     (if k = 0 \<or> n = 0 then Inl ZeroDivisionError
      else let t = layer_traffic kin nout mb k n True; into = (if resident then t_acts t else t_into t) in
        if t_shots t = 0 then Inl ZeroDivisionError
        else Inr (of_int into / of_int (t_shots t), of_int (t_out t) / of_int (t_shots t)))"

definition feed_rate :: "int \<Rightarrow> int \<Rightarrow> int \<Rightarrow> int \<Rightarrow> int \<Rightarrow> rat \<Rightarrow> bool \<Rightarrow> py_error + rat" where
  "feed_rate kin nout mb k n mods resident =
     bindE (bytes_per_shot kin nout mb k n resident) (\<lambda>(into, out).
       if max into out = 0 then Inl ZeroDivisionError else Inr (mods * MODULE_GBS * 10 ^ 9 / max into out))"

definition weight_updates_per_s :: "int \<Rightarrow> int \<Rightarrow> int \<Rightarrow> rat \<Rightarrow> py_error + rat" where
  "weight_updates_per_s k n mb fs = (if mb = 0 then Inl ZeroDivisionError else Inr (of_int (k * n) * fs / of_int mb))"

text \<open>The most beats a set may take, then the width that fits in them; \<open>None\<close> where not even one beat may.\<close>

definition per_beat_one_bank :: "int \<Rightarrow> int \<Rightarrow> int \<Rightarrow> rat \<Rightarrow> py_error + int option" where
  "per_beat_one_bank k n mb want =
     (if want = 0 then Inl ZeroDivisionError
      else let beats = py_int (of_int mb * (1 - want) / want) in
        Inr (if beats < 1 then None else Some (ceil_div (k * n) beats)))"

section \<open>The calibration interval\<close>

definition CAL_TILE :: "int \<times> int" where "CAL_TILE = (128, 64)"
definition INTERVAL_S :: int where "INTERVAL_S = 360"
definition HOURLY_S :: int where "HOURLY_S = 3600"
definition PERIOD_BITS :: nat where "PERIOD_BITS = 32"
definition PERIOD_UNIT_LOG2 :: nat where "PERIOD_UNIT_LOG2 = 16"
definition CAL_AVERAGE :: int where "CAL_AVERAGE = 16"
definition CAL_BANKS :: int where "CAL_BANKS = 2"

definition interval_shots :: "int \<Rightarrow> rat" where
  "interval_shots seconds = of_int seconds * X2_FS"

text \<open>\<open>math.ceil(math.log2(n))\<close> of a whole number.\<close>

function ceil_log2 :: "int \<Rightarrow> nat" where
  "ceil_log2 n = (if n \<le> 1 then 0 else Suc (ceil_log2 ((n + 1) div 2)))"
  by auto

termination by (relation "measure nat") auto

declare ceil_log2.simps [simp del]

lemma ceil_log2_bounds: "n \<le> 2 ^ ceil_log2 n \<and> (1 < n \<longrightarrow> 2 ^ (ceil_log2 n - 1) < n)"
proof (induction n rule: ceil_log2.induct)
  case (1 n)
  consider "n \<le> 1" | "n = 2" | "2 < n" by linarith
  then show ?case
  proof cases
    case 3
    let ?h = "(n + 1) div 2"
    have IH: "?h \<le> 2 ^ ceil_log2 ?h" "2 ^ (ceil_log2 ?h - 1) < ?h" using 1 3 by simp_all
    have c: "ceil_log2 n = Suc (ceil_log2 ?h)" using 3 by (subst ceil_log2.simps) simp
    have "ceil_log2 ?h \<noteq> 0" using IH(1) 3 by (intro notI) simp
    then obtain e where e: "ceil_log2 ?h = Suc e" by (cases "ceil_log2 ?h") simp_all
    have "n \<le> 2 * 2 ^ ceil_log2 ?h" "2 * 2 ^ e < n" using IH unfolding e by simp_all
    then show ?thesis unfolding c e by simp
  qed (simp_all add: ceil_log2.simps)
qed

definition period_bits :: "int \<Rightarrow> nat" where
  "period_bits seconds = ceil_log2 \<lceil>interval_shots seconds\<rceil>"

definition period_units :: "int \<Rightarrow> int" where
  "period_units seconds = py_int (interval_shots seconds / 2 ^ PERIOD_UNIT_LOG2 + 1 / 2)"

definition period_reach_hours :: rat where
  "period_reach_hours = (2 ^ PERIOD_BITS - 1) * 2 ^ PERIOD_UNIT_LOG2 / X2_FS / 3600"

definition cal_shots :: int where
  "cal_shots = CAL_BANKS * fst CAL_TILE * CAL_AVERAGE"

definition duty :: "int \<Rightarrow> rat" where
  "duty seconds = of_int cal_shots / interval_shots seconds"

section \<open>The layer at the working point\<close>

definition wp_modules :: "int \<times> int \<Rightarrow> rat \<Rightarrow> bool \<Rightarrow> py_error + int" where
  "wp_modules tile fs resident =
     bindE (feed_rate BIG_kin BIG_nout BIG_mb (fst tile) (snd tile) 1 resident) (\<lambda>r. Inr \<lceil>fs / r\<rceil>)"

definition wp_layer :: "int \<times> int \<Rightarrow> rat \<Rightarrow> int \<Rightarrow> int \<Rightarrow> int \<Rightarrow> py_error + priced" where
  "wp_layer tile fs m kin nout =
     bindE (wp_modules tile fs False) (\<lambda>mods.
       pta (std\<lparr>o_tile := tile, o_fs := fs, o_mods := of_int mods, o_per_beat := per_beat_two_banks (fst tile) (snd tile) BATCH\<rparr>) m kin nout)"

definition d3_s :: "int \<times> int \<Rightarrow> rat \<Rightarrow> py_error + rat" where
  "d3_s tile fs = bindE (mapE (\<lambda>(a, b). wp_layer tile fs BATCH a b) D3) (\<lambda>ls. Inr (sum_list (map p_seconds ls)))"

section \<open>A calibration, in beats\<close>

definition CELLS :: int where "CELLS = fst CAL_TILE * snd CAL_TILE"
definition WRITE :: int where "WRITE = per_beat_two_banks (fst CAL_TILE) (snd CAL_TILE) BATCH"
definition SHORTER_S :: int where "SHORTER_S = 180"
definition PROBES :: "int list" where "PROBES = [4, CAL_AVERAGE]"
definition PASSES :: "int list" where "PASSES = [1, 3]"
definition SHARES :: "rat list" where "SHARES = [1 / 1000, 1 / 100]"
definition INTERVALS_S :: "int list" where "INTERVALS_S = [INTERVAL_S, SHORTER_S, 60, 10, 1]"
definition DAY_S :: int where "DAY_S = 86400"

definition t_w :: int where "t_w = \<lceil>(of_int CELLS / of_int WRITE) :: rat\<rceil>"
definition t_s :: int where "t_s = 1"

definition twin :: "int \<Rightarrow> int \<Rightarrow> int \<Rightarrow> int" where
  "twin passes repeats banks = banks * passes * repeats * (t_w + fst CAL_TILE * t_s)"

definition cal_probe_shots :: "int \<Rightarrow> int \<Rightarrow> int \<Rightarrow> int" where
  "cal_probe_shots passes repeats banks = banks * passes * repeats * fst CAL_TILE"

definition programmings :: "int \<Rightarrow> int \<Rightarrow> int \<Rightarrow> int" where
  "programmings passes repeats banks = banks * passes * repeats"

definition estimator :: "int \<Rightarrow> bool \<Rightarrow> int \<Rightarrow> int" where
  "estimator passes wide banks = banks * passes * \<lceil>(of_int CELLS / of_int (if wide then WRITE else 1)) :: rat\<rceil>"

definition restore :: "int \<Rightarrow> int" where
  "restore banks = banks * t_w"

definition drain :: int where
  "drain = BATCH * t_s"

definition interruption :: "int \<Rightarrow> int \<Rightarrow> bool \<Rightarrow> int" where
  "interruption passes repeats wide =
     twin passes repeats CAL_BANKS + estimator passes wide CAL_BANKS + restore CAL_BANKS + drain"

definition LEAST_BEATS :: int where "LEAST_BEATS = twin (PASSES ! 0) (PROBES ! 0) CAL_BANKS"
definition B15S :: int where "B15S = twin (PASSES ! 0) (PROBES ! 1) CAL_BANKS"
definition ENGINE :: int where "ENGINE = twin (PASSES ! 1) (PROBES ! 1) CAL_BANKS"
definition MOST_BEATS :: int where "MOST_BEATS = interruption (PASSES ! 1) (PROBES ! 1) False"
definition MOST_WIDE :: int where "MOST_WIDE = interruption (PASSES ! 1) (PROBES ! 1) True"

definition beats_s :: "int \<Rightarrow> rat" where "beats_s bts = of_int bts / X2_FS"

definition share :: "int \<Rightarrow> int \<Rightarrow> rat" where
  "share bts interval_s = beats_s bts / of_int interval_s"

definition a_day :: "int \<Rightarrow> int" where
  "a_day interval_s = DAY_S div interval_s"

definition day_s :: "int \<Rightarrow> int \<Rightarrow> rat" where
  "day_s bts interval_s = of_int (a_day interval_s) * beats_s bts"

definition to_matter_s :: "rat \<Rightarrow> int \<Rightarrow> rat" where
  "to_matter_s part interval_s = part * of_int interval_s"

definition interval_for_s :: "int \<Rightarrow> rat \<Rightarrow> rat" where
  "interval_for_s bts part = beats_s bts / part"

definition layer_s :: "py_error + rat" where
  "layer_s = bindE (wp_layer CAL_TILE X2_FS BATCH BIG_kin BIG_nout) (\<lambda>p. Inr (p_seconds p))"

section \<open>The scripts' assertions\<close>

text \<open>\<open>round(x, d)\<close>: to the nearest, ties to the even neighbour.\<close>

definition py_round :: "rat \<Rightarrow> nat \<Rightarrow> rat" where
  "py_round x d =
     (let y = x * 10 ^ d; f = \<lfloor>y\<rfloor>; r = y - of_int f
      in of_int (if r < 1 / 2 \<or> r = 1 / 2 \<and> even f then f else f + 1) / 10 ^ d)"

definition feed_asserts :: "(py_error + bool) list" where
  "feed_asserts =
     concat (map (\<lambda>(gk, gn). asserts (feed_rate BIG_kin BIG_nout BIG_mb gk gn 3 False) (\<lambda>a.
        let b = max_shot_rate BIG_kin BIG_nout BIG_mb gk gn 3 True in [Inr (\<bar>a - b\<bar> \<le> 1 / 10 ^ 6 * b)])) Chiplet_Link.GEOMETRIES)
     @ asserts (feed_rate BIG_kin BIG_nout BIG_mb (fst X2_TILE) (snd X2_TILE) 1 False) (\<lambda>re.
       asserts (feed_rate BIG_kin BIG_nout BIG_mb (fst X2_TILE) (snd X2_TILE) 1 True) (\<lambda>rs. [Inr (near (rs / re) (1625 / 100) (1 / 100))]))
     @ asserts (bytes_per_shot BIG_kin BIG_nout BIG_mb (fst X2_TILE) (snd X2_TILE) True) (\<lambda>(si, so). [Inr (si < so)])"

definition weight_asserts :: "(py_error + bool) list" where
  "weight_asserts =
     (case X2_TILE of (k, n) \<Rightarrow>
       concat (map (\<lambda>mb. asserts (weight_updates_per_s k n mb X2_FS) (\<lambda>cells.
           let t = layer_traffic BIG_kin BIG_nout mb k n True; into = fst (rates BIG_kin BIG_nout mb k n X2_FS True);
               acts_gbs = of_int (t_acts t) / (of_int (t_shots t) / X2_FS) / 10 ^ 9; upd = cells * of_int W_BYTES / 10 ^ 9
           in [Inr (\<bar>upd - (into - acts_gbs)\<bar> < 1 / 10 ^ 6 * into)])) [16, 64, 256])
       @ [Inr (duty_one_bank k n 64 1 < 5 / 1000), Inr (near (duty_one_bank k n 64 (k * n)) (64 / 65) (1 / 10 ^ 12))]
       @ concat (map (\<lambda>mb. asserts (per_beat_one_bank k n mb NINE_TENTHS) (\<lambda>p. case p of
             None \<Rightarrow> [Inl TypeError]
           | Some p \<Rightarrow> [Inr (NINE_TENTHS \<le> of_int mb / of_int (mb + ceil_div (k * n) p)),
                       Inr (of_int mb / of_int (mb + ceil_div (k * n) (p - 1)) < NINE_TENTHS)])) [16, 64, 256])
       @ asserts (per_beat_one_bank k n 16 NINE_TENTHS) (\<lambda>p. [Inr (p = Some (k * n))])
       @ [Inr (per_beat_two_banks k n 64 = k)]
       @ concat (map (\<lambda>mb. asserts (per_beat_one_bank k n mb NINE_TENTHS) (\<lambda>p. case p of
             None \<Rightarrow> [Inl TypeError]
           | Some p \<Rightarrow> [Inr (9 * per_beat_two_banks k n mb \<le> p)])) [16, 64, 256])
       @ [Inr (per_beat_two_banks k n 16 = 4 * per_beat_two_banks k n 64),
          Inr (per_beat_two_banks k n 64 = 4 * per_beat_two_banks k n 256)])"

text \<open>Left out of the lists below: assertions on printed text, on the settle time, and on other scripts' measurements.\<close>

definition interval_asserts :: "(py_error + bool) list" where
  "interval_asserts =
     [Inr (INTERVAL_S = 360 \<and> X2_FS = 10 ^ 9 \<and> interval_shots INTERVAL_S = 36 * 10 ^ 10),
      Inr (86400 div INTERVAL_S = 240 \<and> 86400 div HOURLY_S = 24),
      Inr (cal_shots = 4096 \<and> near (of_int cal_shots / X2_FS) (4096 / 10 ^ 9) (1 / 10 ^ 12)),
      Inr (near (duty INTERVAL_S) (114 / 10 ^ 10) (1 / 10 ^ 10) \<and> 87 * 10 ^ 6 < 1 / duty INTERVAL_S \<and> 1 / duty INTERVAL_S < 89 * 10 ^ 6
        \<and> near (duty INTERVAL_S / duty HOURLY_S) 10 (1 / 10 ^ 9)),
      Inr ((period_bits INTERVAL_S, period_bits HOURLY_S) = (39, 42) \<and> PERIOD_BITS < period_bits INTERVAL_S),
      Inr (interval_shots HOURLY_S = 36 * 10 ^ 11 \<and> 87 * 10 ^ 7 < 1 / duty HOURLY_S \<and> 1 / duty HOURLY_S < 89 * 10 ^ 7),
      Inr (near (2 ^ (PERIOD_BITS + 16) / X2_FS / 3600) (782 / 10) (1 / 10) \<and> near (2 ^ 16 / X2_FS) (655 / 10 ^ 7) (1 / 10 ^ 7))]"

definition unit_asserts :: "(py_error + bool) list" where
  "unit_asserts =
     [Inr (2 ^ PERIOD_BITS / X2_FS < 43 / 10),
      Inr ((period_units INTERVAL_S, period_units HOURLY_S) = (5493164, 54931641)),
      Inr (\<forall>s \<in> set [INTERVAL_S, HOURLY_S]. period_units s < 2 ^ PERIOD_BITS),
      Inr (\<forall>s \<in> set [INTERVAL_S, HOURLY_S].
        \<bar>of_int (period_units s) * 2 ^ PERIOD_UNIT_LOG2 - interval_shots s\<bar> \<le> 2 ^ (PERIOD_UNIT_LOG2 - 1)),
      Inr (78 < period_reach_hours \<and> period_reach_hours < 783 / 10 \<and> int (period_bits INTERVAL_S) - int PERIOD_UNIT_LOG2 < int PERIOD_BITS)]"

definition count_asserts :: "(py_error + bool) list" where
  "count_asserts =
     [Inr (CAL_TILE = (128, 64) \<and> CELLS = 8192 \<and> CAL_BANKS = 2 \<and> X2_FS = 10 ^ 9 \<and> BATCH = 64 \<and> INTERVAL_S = 360),
      Inr (WRITE = 128 \<and> WRITE = per_beat_two_banks (fst CAL_TILE) (snd CAL_TILE) BATCH),
      Inr (PROBES = [4, 16] \<and> CAL_AVERAGE = 16 \<and> PASSES = [1, 3]),
      Inr (t_w = 64 \<and> t_w = BATCH \<and> t_s = 1),
      Inr (concat (map (\<lambda>p. map (\<lambda>r. twin p r CAL_BANKS) PROBES) PASSES) = [1536, 6144, 4608, 18432]),
      Inr ((LEAST_BEATS, B15S, ENGINE) = (1536, 6144, 18432)),
      Inr (\<forall>p \<in> set PASSES. \<forall>r \<in> set PROBES. twin p r CAL_BANKS = CAL_BANKS * p * r * (64 + 128)),
      Inr ((cal_probe_shots 1 16 CAL_BANKS, cal_probe_shots 3 16 CAL_BANKS, programmings 3 16 CAL_BANKS, programmings 1 16 CAL_BANKS) = (4096, 12288, 96, 32)),
      Inr (cal_probe_shots 1 16 CAL_BANKS = cal_shots \<and> near (share (cal_probe_shots 1 16 CAL_BANKS) INTERVAL_S) (duty INTERVAL_S) (1 / 10 ^ 18)),
      Inr (cal_probe_shots 3 16 CAL_BANKS + programmings 3 16 CAL_BANKS * t_w = ENGINE \<and> programmings 3 16 CAL_BANKS * t_w = 6144),
      Inr ((estimator 3 False CAL_BANKS, estimator 3 True CAL_BANKS, restore CAL_BANKS, drain) = (49152, 384, 128, 64)),
      Inr (MOST_BEATS = 18432 + 49152 + 128 + 64 \<and> MOST_BEATS = 67776 \<and> MOST_WIDE = 18432 + 384 + 128 + 64 \<and> MOST_WIDE = 19008),
      Inr (py_round (of_int (estimator 3 False CAL_BANKS) / of_int MOST_BEATS) 2 = 73 / 100),
      Inr (twin 3 16 1 * 2 = ENGINE)]"

definition day_asserts :: "(py_error + bool) list" where
  "day_asserts =
     [Inr (a_day INTERVAL_S = 240 \<and> a_day SHORTER_S = 480 \<and> a_day 3600 = 24),
      Inr (py_round (day_s MOST_BEATS INTERVAL_S * 10 ^ 3) 1 = 163 / 10 \<and> py_round (day_s ENGINE INTERVAL_S * 10 ^ 3) 1 = 44 / 10),
      Inr (map (\<lambda>b. py_round (1 / share b INTERVAL_S / 10 ^ 6) 1) [cal_probe_shots 1 16 CAL_BANKS, B15S, ENGINE, MOST_BEATS]
        = [879 / 10, 586 / 10, 195 / 10, 53 / 10]),
      Inr ((of_int B15S / of_int (cal_probe_shots 1 16 CAL_BANKS) :: rat) = 3 / 2 \<and> (of_int ENGINE / of_int B15S :: rat) = 3)]"

definition matter_asserts :: "(py_error + bool) list" where
  "matter_asserts =
     [Inr (map (\<lambda>p. py_round (to_matter_s p INTERVAL_S) 2) SHARES = [36 / 100, 36 / 10]),
      Inr (map (\<lambda>p. py_round (to_matter_s p INTERVAL_S / beats_s MOST_BEATS) 0) SHARES = [5312, 53116]),
      Inr (beats_s MOST_BEATS < to_matter_s (SHARES ! 0) INTERVAL_S / 5000),
      Inr (map (\<lambda>s. py_round (1 / share MOST_BEATS s) 0) INTERVALS_S = [5311615, 2655807, 885269, 147545, 14754]),
      Inr (py_round (day_s MOST_BEATS SHORTER_S * 10 ^ 3) 1 = 325 / 10),
      Inr (map (\<lambda>p. py_round (interval_for_s MOST_BEATS p * 10 ^ 3) 1) SHARES = [678 / 10, 68 / 10]),
      Inr (\<forall>s \<in> set INTERVALS_S. share MOST_BEATS s < SHARES ! 0)]"

definition command_asserts :: "(py_error + bool) list" where
  "command_asserts = asserts layer_s (\<lambda>l. [Inr (py_round (l * 10 ^ 6) 0 = 131 \<and> py_round (beats_s MOST_BEATS / l) 2 = 52 / 100)])"

text \<open>Every one of them holds.\<close>

lemma floor_ratio: "\<lfloor>numeral a / numeral b :: rat\<rfloor> = numeral a div numeral b"
  using floor_divide_of_int_eq[where 'a = rat, of "numeral a" "numeral b"] by simp

lemmas day_defs = INTERVAL_S_def SHORTER_S_def INTERVALS_S_def SHARES_def DAY_S_def X2_FS_def a_day_def day_s_def share_def beats_s_def
  to_matter_s_def interval_for_s_def py_round_def floor_ratio

lemma interval_asserts_ok: "list_all (\<lambda>c. c = Inr True) (interval_asserts @ unit_asserts)"
  by code_simp

lemma count_asserts_ok: "list_all (\<lambda>c. c = Inr True) count_asserts"
  by code_simp

lemma feed_asserts_ok: "list_all (\<lambda>c. c = Inr True) feed_asserts"
  by code_simp

lemma weight_asserts_ok: "list_all (\<lambda>c. c = Inr True) weight_asserts"
  by code_simp

lemma beat_counts [code]: "MOST_BEATS = 67776" "ENGINE = 18432" "B15S = 6144"
  by code_simp+

lemma layer_time [code]: "layer_s = Inr (32809 / 250000000)"
  by code_simp

lemma probe_shots: "cal_probe_shots 1 16 CAL_BANKS = 4096"
  by code_simp

lemma day_asserts_ok: "list_all (\<lambda>c. c = Inr True) (day_asserts @ matter_asserts @ command_asserts)"
  by (simp add: day_asserts_def matter_asserts_def command_asserts_def asserts_def Let_def beat_counts layer_time probe_shots day_defs)

section \<open>The width of the write path\<close>

lemma ceil_of_ratio: "0 < p \<Longrightarrow> \<lceil>(of_int c / of_int p) :: rat\<rceil> \<le> b \<longleftrightarrow> c \<le> b * p"
  by (simp add: ceiling_le_iff pos_divide_le_eq flip: of_int_mult)

lemma ceil_div_le_iff: "0 < b \<Longrightarrow> ceil_div a b \<le> p \<longleftrightarrow> a \<le> p * b"
  using ceil_div_least[of b a p] ceil_div_bounds(1)[of b a] by (meson mult_le_cancel_right order_trans not_le less_imp_le mult_right_mono)

lemma le_py_int:
  assumes "0 < c"
  shows "of_int c \<le> x \<longleftrightarrow> c \<le> py_int x"
proof (cases "0 \<le> x")
  case False
  then have "\<lceil>x\<rceil> \<le> 0" "\<not> of_int c \<le> x" using assms by (simp_all add: ceiling_le_iff not_le order_less_trans[of x 0])
  moreover from this(1) have "\<not> c \<le> \<lceil>x\<rceil>" using assms by linarith
  ultimately show ?thesis using False by (simp only: py_int_def if_False)
qed (simp add: py_int_def le_floor_iff)

text \<open>A duty is reached exactly when a set takes no more beats than \<open>per_beat_one_bank\<close> allows.\<close>

lemma duty_reached:
  assumes "0 < k * n" "0 < mb" "0 < want" "0 < p"
  shows "want \<le> duty_one_bank k n mb p \<longleftrightarrow> \<lceil>(of_int (k * n) / of_int p) :: rat\<rceil> \<le> py_int (of_int mb * (1 - want) / want)"
proof -
  let ?c = "\<lceil>(of_int (k * n) / of_int p) :: rat\<rceil>" and ?x = "of_int mb * (1 - want) / want"
  have c: "0 < ?c" using assms(1,4) by (simp add: zero_less_divide_iff flip: of_int_mult)
  have "want \<le> duty_one_bank k n mb p \<longleftrightarrow> want * of_int (mb + ?c) \<le> of_int mb"
    unfolding duty_one_bank_def by (rule pos_le_divide_eq) (unfold of_int_0_less_iff, rule add_pos_pos[OF assms(2) c])
  also have "\<dots> \<longleftrightarrow> of_int ?c * want \<le> of_int mb * (1 - want)" by (simp add: algebra_simps)
  also have "\<dots> \<longleftrightarrow> of_int ?c \<le> ?x" using assms(3) by (simp add: pos_le_divide_eq)
  also have "\<dots> \<longleftrightarrow> ?c \<le> py_int ?x" by (rule le_py_int[OF c])
  finally show ?thesis .
qed

text \<open>[C36] The width \<open>per_beat_one_bank\<close> returns reaches the duty asked for and no smaller one does; it returns \<open>None\<close>
  exactly where no width reaches it.\<close>

theorem per_beat_one_bank_least:
  assumes "0 < k * n" "0 < mb" "0 < want"
  shows "case per_beat_one_bank k n mb want of
      Inr (Some p) \<Rightarrow> 0 < p \<and> want \<le> duty_one_bank k n mb p \<and> (\<forall>p'. 0 < p' \<and> p' < p \<longrightarrow> duty_one_bank k n mb p' < want)
    | Inr None \<Rightarrow> (\<forall>p > 0. duty_one_bank k n mb p < want)
    | Inl e \<Rightarrow> False"
proof (cases "py_int (of_int mb * (1 - want) / want) < 1")
  case True
  have "\<not> want \<le> duty_one_bank k n mb p" if "0 < p" for p
  proof -
    have "0 < \<lceil>(of_int (k * n) / of_int p) :: rat\<rceil>" using assms(1) that by (simp add: zero_less_divide_iff flip: of_int_mult)
    then show ?thesis unfolding duty_reached[OF assms that] using True by linarith
  qed
  then show ?thesis using True assms(3) by (simp add: per_beat_one_bank_def Let_def not_le)
next
  case False
  let ?b = "py_int (of_int mb * (1 - want) / want)"
  have b: "0 < ?b" using False by simp
  have e: "per_beat_one_bank k n mb want = Inr (Some (ceil_div (k * n) ?b))"
    using False assms(3) by (simp add: per_beat_one_bank_def Let_def)
  have iff: "want \<le> duty_one_bank k n mb p \<longleftrightarrow> ceil_div (k * n) ?b \<le> p" if "0 < p" for p
    unfolding duty_reached[OF assms that] ceil_of_ratio[OF that] ceil_div_le_iff[OF b] by (simp add: mult.commute)
  show ?thesis unfolding e using iff ceil_div_pos[OF b assms(1)] by (auto simp: not_le[symmetric])
qed

theorem per_beat_one_bank_least_witness:
  "per_beat_one_bank 256 64 16 (9 / 10) = Inr (Some 16384) \<and> duty_one_bank 256 64 16 9217 < 9 / 10"
proof -
  have "per_beat_one_bank 256 64 16 (9 / 10) = Inr (Some 16384)" by code_simp
  with per_beat_one_bank_least[of 256 64 16 "9 / 10"] show ?thesis by simp
qed

text \<open>[C38] With its weights re-sent, the feed's rate is the link's, and the weight path's cells a second are the
  link's inbound bytes less the activations, for every layer, batch and tile.\<close>

theorem feed_is_the_link:
  assumes "0 < kin" "0 < nout" "0 < mb" "0 < k" "0 < n" "0 < fs"
  shows "feed_rate kin nout mb k n mods False = Inr (max_shot_rate kin nout mb k n mods True)
    \<and> (\<exists>cells. weight_updates_per_s k n mb fs = Inr cells
        \<and> cells * of_int W_BYTES / 10 ^ 9 = fst (rates kin nout mb k n fs True)
            - of_int (t_acts (layer_traffic kin nout mb k n True)) / (of_int (t_shots (layer_traffic kin nout mb k n True)) / fs) / 10 ^ 9)"
proof -
  let ?t = "layer_traffic kin nout mb k n True"
  have g: "0 < ceil_div kin k" "0 < ceil_div nout n" using assms ceil_div_pos by simp_all
  then have sh: "0 < t_shots ?t" and into: "0 < t_into ?t" and w: "t_into ?t = t_weights ?t + t_acts ?t"
    and wt: "t_weights ?t * mb = t_shots ?t * (k * n * W_BYTES)"
    using assms by (simp_all add: layer_traffic_def Let_def W_BYTES_def A_BYTES_def add_pos_pos)
  have m: "max (of_int (t_into ?t) / of_int (t_shots ?t)) (of_int (t_out ?t) / of_int (t_shots ?t))
      = (of_int (max (t_into ?t) (t_out ?t)) / of_int (t_shots ?t) :: rat)"
    using sh by (simp add: max_def divide_le_cancel)
  have "feed_rate kin nout mb k n mods False = Inr (max_shot_rate kin nout mb k n mods True)"
    using assms sh into unfolding feed_rate_def bytes_per_shot_def max_shot_rate_def Let_def by (simp add: bindE_def m)
  moreover have "of_int (k * n) * fs / of_int mb * of_int W_BYTES = (of_int (t_weights ?t) / (of_int (t_shots ?t) / fs) :: rat)"
    using wt sh assms(3,6) by (simp add: field_simps flip: of_int_mult)
  ultimately show ?thesis using assms(3) w by (simp add: weight_updates_per_s_def rates_def Let_def add_divide_distrib distrib_right)
qed

theorem feed_is_the_link_witness:
  "feed_rate 4096 4096 64 256 64 3 False = Inr (max_shot_rate 4096 4096 64 256 64 3 True)"
  using feed_is_the_link[of 4096 4096 64 256 64 "10 ^ 9" 3] by simp

end
