(* ===== verification/Laser_Light.thy ===== *)
theory Laser_Light
  imports Write_Path
begin

text \<open>
  \<^verbatim>\<open>docs/designs/pta_laser.py\<close>: how much laser a tile's accuracy asks.  The tables are the measurements the script holds, the
  shares of light and noise are exact rationals, and the two searches for the least multiple of the budgeted laser are one
  loop, \<open>scan_down\<close>, that walks the measured multiples from the largest and stops at the first outside the budget.  The
  lemmas say what that loop finds: the least multiple from which on all are within, and, where the loss falls as
  the laser grows, the least that is within at all.  Watts and photons rest on square roots and other scripts' powers and
  are not modelled.
\<close>

section \<open>The measurements\<close>

type_synonym tile = "int \<times> int"

text \<open>A mean and its standard error.\<close>

type_synonym fig = "rat \<times> rat"

record req =
  adc_bits :: nat
  rx_noise_lsb :: rat
  photons_per_lsb :: nat

definition V1 :: req where
  "V1 = \<lparr>adc_bits = 7, rx_noise_lsb = 1 / 2, photons_per_lsb = 15\<rparr>"

definition NOISE_LSB_BITS :: nat where "NOISE_LSB_BITS = 8"
definition DIN :: nat where "DIN = 8"
definition WORKING :: tile where "WORKING = X2_TILE"
definition SMALLER :: tile where "SMALLER = (128, 64)"
definition WITHIN :: rat where "WITHIN = 10 / 100"

definition S8 :: "(tile \<times> (nat \<times> nat)) list" where
  "S8 =
    [((8, 8), (9, 7)),
     ((64, 8), (10, 8)),
     ((128, 64), (11, 9)),
     ((256, 64), (11, 9)),
     ((256, 128), (11, 9))]"

text \<open>Points lost by the laser's multiple; 0 is version 1 as budgeted.\<close>

definition LOST :: "(tile \<times> (nat \<times> fig) list) list" where
  "LOST =
    [((256, 64), [(0, (20 / 100, 5 / 100)), (1, (3919 / 100, 187 / 100)), (2, (1253 / 100, 114 / 100)), (4, (244 / 100, 24 / 100)), (8, (60 / 100, 7 / 100)), (16, (28 / 100, 6 / 100)), (32, (23 / 100, 6 / 100)), (64, (19 / 100, 6 / 100))]),
     ((128, 64), [(0, (34 / 100, 7 / 100)), (1, (1356 / 100, 114 / 100)), (2, (274 / 100, 19 / 100)), (4, (75 / 100, 7 / 100)), (8, (35 / 100, 6 / 100)), (16, (22 / 100, 4 / 100)), (32, (20 / 100, 6 / 100)), (64, (19 / 100, 5 / 100))])]"

definition LIT :: "(tile \<times> (fig \<times> fig)) list" where
  "LIT =
    [((256, 64), ((2582 / 100, 13348 / 100), (668 / 100, 1210 / 100))),
     ((128, 64), ((1475 / 100, 8296 / 100), (668 / 100, 1199 / 100)))]"

text \<open>The bits added to the hidden rescale and of gain on the weights, to the points lost by the multiple.\<close>

definition PUT :: "((int \<times> int) \<times> (nat \<times> fig) list) list" where
  "PUT =
    [((0, 0), [(2, (274 / 100, 19 / 100)), (4, (75 / 100, 7 / 100)), (8, (35 / 100, 6 / 100))]),
     ((0, 1), [(2, (290 / 100, 21 / 100)), (4, (83 / 100, 12 / 100)), (8, (50 / 100, 16 / 100))]),
     ((0, 2), [(2, (565 / 100, 31 / 100)), (4, (262 / 100, 34 / 100)), (8, (205 / 100, 33 / 100))]),
     ((-1, 0), [(2, (92 / 100, 6 / 100)), (4, (35 / 100, 6 / 100)), (8, (22 / 100, 6 / 100))]),
     ((-1, 1), [(2, (83 / 100, 12 / 100)), (4, (41 / 100, 13 / 100)), (8, (34 / 100, 10 / 100))]),
     ((-1, 2), [(2, (264 / 100, 32 / 100)), (4, (204 / 100, 29 / 100)), (8, (189 / 100, 30 / 100))]),
     ((-2, 0), [(2, (99 / 100, 11 / 100)), (4, (60 / 100, 8 / 100)), (8, (46 / 100, 6 / 100))]),
     ((-2, 1), [(2, (79 / 100, 12 / 100)), (4, (63 / 100, 12 / 100)), (8, (52 / 100, 13 / 100))]),
     ((-2, 2), [(2, (267 / 100, 46 / 100)), (4, (250 / 100, 45 / 100)), (8, (241 / 100, 47 / 100))])]"

definition PUT_CLIPS :: "((int \<times> int) \<times> (rat \<times> rat \<times> fig)) list" where
  "PUT_CLIPS =
    [((0, 0), (0, 0, (0, 1 / 100))),
     ((0, 1), (0, 38 / 100, (14 / 100, 8 / 100))),
     ((0, 2), (0, 791 / 100, (146 / 100, 33 / 100))),
     ((-1, 0), (65 / 100, 0, (2 / 100, 1 / 100))),
     ((-1, 1), (55 / 100, 38 / 100, (14 / 100, 8 / 100))),
     ((-1, 2), (30 / 100, 791 / 100, (149 / 100, 35 / 100))),
     ((-2, 0), (1345 / 100, 0, (26 / 100, 5 / 100))),
     ((-2, 1), (1224 / 100, 38 / 100, (33 / 100, 8 / 100))),
     ((-2, 2), (957 / 100, 791 / 100, (194 / 100, 42 / 100)))]"

definition PUT_S8 :: "((int \<times> int) \<times> (nat \<times> nat)) list" where
  "PUT_S8 =
    [((0, 0), (11, 9)),
     ((-1, 0), (11, 10)),
     ((-2, 0), (11, 10))]"

definition AS_SET :: "int \<times> int" where "AS_SET = (0, 0)"
definition BIT_DOWN :: "int \<times> int" where "BIT_DOWN = (-1, 0)"

section \<open>The light a column is sent\<close>

definition dict_at :: "('k \<times> 'v) list \<Rightarrow> 'k \<Rightarrow> py_error + 'v" where
  "dict_at d k = (case map_of d k of None \<Rightarrow> Inl KeyError | Some v \<Rightarrow> Inr v)"

text \<open>A layer's entry of a pair.\<close>

definition layer_of :: "'a \<times> 'a \<Rightarrow> nat \<Rightarrow> py_error + 'a" where
  "layer_of p l = (if l = 0 then Inr (fst p) else if l = 1 then Inr (snd p) else Inl IndexError)"

definition shift_at :: "tile \<Rightarrow> nat \<Rightarrow> py_error + nat" where
  "shift_at tile l = bindE (dict_at S8 tile) (\<lambda>p. layer_of p l)"

definition line_light :: "nat \<Rightarrow> int" where
  "line_light din = (2 ^ (din - 1) - 1) * 2 ^ (din - 1)"

definition fill :: "tile \<Rightarrow> nat \<Rightarrow> py_error + rat" where
  "fill tile l = bindE (shift_at tile l) (\<lambda>s. Inr (2 ^ NOISE_LSB_BITS * 2 ^ s / of_int (fst tile * line_light DIN)))"

definition b5_fraction :: "tile \<Rightarrow> req \<Rightarrow> rat" where
  "b5_fraction tile req = of_int (fst tile) * rx_noise_lsb req / 2 ^ NOISE_LSB_BITS"

definition noise_lsb :: "tile \<Rightarrow> nat \<Rightarrow> rat \<Rightarrow> req \<Rightarrow> py_error + rat" where
  "noise_lsb tile l tm req =
     (if tm = 0 then Inl ZeroDivisionError
      else bindE (shift_at tile l) (\<lambda>s. Inr (b5_fraction tile req / tm * of_int (line_light DIN) / 2 ^ s)))"

definition times_for_budget :: "tile \<Rightarrow> nat \<Rightarrow> req \<Rightarrow> py_error + rat" where
  "times_for_budget tile l req = bindE (noise_lsb tile l 1 req) (\<lambda>x. Inr (x / rx_noise_lsb req))"

section \<open>What the accuracy asks\<close>

definition loss_at :: "(nat \<times> fig) list \<Rightarrow> nat \<Rightarrow> py_error + rat" where
  "loss_at d t = bindE (dict_at d t) (\<lambda>x. Inr (fst x))"

definition over :: "tile \<Rightarrow> nat \<Rightarrow> py_error + rat" where
  "over tile t = bindE (dict_at LOST tile) (\<lambda>d. bindE (loss_at d t) (\<lambda>x. bindE (loss_at d 0) (\<lambda>b. Inr (x - b))))"

text \<open>The loop of \<open>times_within\<close> and \<open>times_put\<close>: the last multiple before the first that is not within.\<close>

fun scan_down :: "(nat \<Rightarrow> py_error + bool) \<Rightarrow> nat list \<Rightarrow> nat option \<Rightarrow> py_error + nat option" where
  "scan_down outside [] ok = Inr ok"
| "scan_down outside (t # ts) ok = bindE (outside t) (\<lambda>out. if out then Inr ok else scan_down outside ts (Some t))"

definition out_of :: "rat \<Rightarrow> py_error + rat \<Rightarrow> py_error + bool" where
  "out_of budget x = bindE x (\<lambda>v. Inr (budget - 1 / 10 ^ 9 \<le> v))"

definition times_within :: "tile \<Rightarrow> rat \<Rightarrow> py_error + nat option" where
  "times_within tile budget =
     bindE (dict_at LOST tile) (\<lambda>d. scan_down (\<lambda>t. out_of budget (over tile t)) (rev (sort (filter (\<lambda>t. t \<noteq> 0) (map fst d)))) None)"

definition times_put :: "int \<times> int \<Rightarrow> rat \<Rightarrow> py_error + nat option" where
  "times_put how budget =
     bindE (dict_at PUT how) (\<lambda>d. scan_down (\<lambda>t. out_of budget (bindE (loss_at d t) (\<lambda>x.
       bindE (dict_at LOST SMALLER) (\<lambda>l. bindE (loss_at l 0) (\<lambda>b. Inr (x - b)))))) (rev (sort (map fst d))) None)"

section \<open>What the loop finds\<close>

lemma scan_down_last:
  assumes "\<And>t. t \<in> set ts \<Longrightarrow> outside t = Inr (bad t)"
  shows "scan_down outside ts ok = Inr (let ys = takeWhile (\<lambda>t. \<not> bad t) ts in if ys = [] then ok else Some (last ys))"
  using assms by (induction ts arbitrary: ok) (auto simp: bindE_def Let_def)

text \<open>From the largest down: the least multiple from which on every one is within.\<close>

lemma scan_down_least:
  assumes "\<And>t. t \<in> set ts \<Longrightarrow> outside t = Inr (bad t)" "distinct ts"
  shows "scan_down outside (rev (sort ts)) None =
    Inr (let S = {t \<in> set ts. \<forall>u \<in> set ts. t \<le> u \<longrightarrow> \<not> bad u} in if S = {} then None else Some (Min S))"
proof -
  let ?xs = "rev (sort ts)"
  define ys zs where "ys = takeWhile (\<lambda>t. \<not> bad t) ?xs" and "zs = dropWhile (\<lambda>t. \<not> bad t) ?xs"
  have xs: "?xs = ys @ zs" and good: "\<forall>u \<in> set ys. \<not> bad u" by (auto simp: ys_def zs_def dest: set_takeWhileD)
  have all: "set ts = set ys \<union> set zs" using arg_cong[OF xs, of set] by simp
  have "sorted (rev (ys @ zs))" unfolding xs[symmetric] by simp
  then have s: "sorted (rev ys)" and gt: "\<forall>z \<in> set zs. \<forall>y \<in> set ys. z \<le> y" by (simp_all add: sorted_append)
  have d: "distinct (ys @ zs)" using assms(2) unfolding xs[symmetric] by simp
  have zs: "zs = [] \<or> (bad (hd zs) \<and> (\<forall>z \<in> set zs. z \<le> hd zs))"
  proof (cases zs)
    case (Cons z zs')
    then have "bad z" using hd_dropWhile[of "\<lambda>t. \<not> bad t" ?xs] by (simp add: zs_def)
    moreover have "\<forall>z' \<in> set zs'. z' \<le> z" using \<open>sorted (rev (ys @ zs))\<close> Cons by (simp add: sorted_append)
    ultimately show ?thesis using Cons by auto
  qed simp
  have S: "{t \<in> set ts. \<forall>u \<in> set ts. t \<le> u \<longrightarrow> \<not> bad u} = set ys"
  proof (rule set_eqI)
    fix t
    show "t \<in> {t \<in> set ts. \<forall>u \<in> set ts. t \<le> u \<longrightarrow> \<not> bad u} \<longleftrightarrow> t \<in> set ys"
    proof
      assume t: "t \<in> {t \<in> set ts. \<forall>u \<in> set ts. t \<le> u \<longrightarrow> \<not> bad u}"
      then have "t \<notin> set zs" using zs all by (cases zs) auto
      then show "t \<in> set ys" using t all by auto
    next
      assume t: "t \<in> set ys"
      have "\<not> bad u" if u: "u \<in> set ts" "t \<le> u" for u
      proof -
        have "u \<notin> set zs" using gt t u d by (metis IntI distinct_append empty_iff order_antisym)
        then show ?thesis using u all good by auto
      qed
      then show "t \<in> {t \<in> set ts. \<forall>u \<in> set ts. t \<le> u \<longrightarrow> \<not> bad u}" using t all by auto
    qed
  qed
  have m: "Min (set ys) = last ys" if "ys \<noteq> []"
  proof (rule Min_eqI)
    show "last ys \<le> y" if "y \<in> set ys" for y
      using s that \<open>ys \<noteq> []\<close> by (cases ys rule: rev_cases) (auto simp: sorted_append)
  qed (use that in simp_all)
  have "scan_down outside ?xs None = Inr (if ys = [] then None else Some (last ys))"
    using scan_down_last[of ?xs outside bad None] assms(1) by (simp add: Let_def ys_def)
  then show ?thesis unfolding S using m by (simp add: Let_def)
qed

text \<open>Where the loss falls as the laser grows, that is the least multiple within the budget.\<close>

definition falling :: "(nat \<times> fig) list \<Rightarrow> bool" where
  "falling d \<longleftrightarrow> distinct (map fst d) \<and> (\<forall>x \<in> set d. \<forall>y \<in> set d. fst x \<le> fst y \<longrightarrow> fst (snd y) \<le> fst (snd x))"

definition within_set :: "rat \<Rightarrow> rat \<Rightarrow> (nat \<times> fig) list \<Rightarrow> nat set" where
  "within_set budget base d = {t. \<exists>x. (t, x) \<in> set d \<and> fst x - base < budget - 1 / 10 ^ 9}"

lemma scan_falling:
  assumes "falling d" "\<And>t x. (t, x) \<in> set d \<Longrightarrow> outside t = Inr (budget - 1 / 10 ^ 9 \<le> fst x - base)"
  shows "scan_down outside (rev (sort (map fst d))) None
    = Inr (if within_set budget base d = {} then None else Some (Min (within_set budget base d)))"
proof -
  define bad where "bad = (\<lambda>t. \<exists>x. (t, x) \<in> set d \<and> budget - 1 / 10 ^ 9 \<le> fst x - base)"
  have d: "distinct (map fst d)" using assms(1) by (simp add: falling_def)
  have b: "bad t \<longleftrightarrow> budget - 1 / 10 ^ 9 \<le> fst x - base" if "(t, x) \<in> set d" for t x
    unfolding bad_def using that eq_key_imp_eq_value[OF d] by metis
  have out: "outside t = Inr (bad t)" if t: "t \<in> set (map fst d)" for t
  proof -
    obtain x where x: "(t, x) \<in> set d" using t by auto
    then show ?thesis using assms(2)[OF x] b[OF x] by simp
  qed
  have "{t \<in> set (map fst d). \<forall>u \<in> set (map fst d). t \<le> u \<longrightarrow> \<not> bad u} = within_set budget base d" (is "?S = _")
  proof (rule set_eqI)
    fix t
    show "t \<in> ?S \<longleftrightarrow> t \<in> within_set budget base d"
    proof
      assume t: "t \<in> ?S"
      then obtain x where x: "(t, x) \<in> set d" by auto
      have "\<not> bad t" using t by auto
      then have "fst x - base < budget - 1 / 10 ^ 9" unfolding b[OF x] not_le .
      then show "t \<in> within_set budget base d" unfolding within_set_def using x by blast
    next
      assume "t \<in> within_set budget base d"
      then obtain x where x: "(t, x) \<in> set d" "fst x - base < budget - 1 / 10 ^ 9" by (auto simp: within_set_def)
      have "\<not> bad u" if u: "(u, y) \<in> set d" "t \<le> u" for u y
      proof -
        have "fst y \<le> fst x" using assms(1) x(1) u unfolding falling_def by fastforce
        then show ?thesis using b[OF u(1)] x(2) by linarith
      qed
      then show "t \<in> ?S" using x(1) by force
    qed
  qed
  then show ?thesis using scan_down_least[OF out d] by (simp only: Let_def)
qed

text \<open>The least multiple within the budget, \<open>None\<close> where none is: what both docstrings promise.\<close>

definition least_within :: "rat \<Rightarrow> rat \<Rightarrow> (nat \<times> fig) list \<Rightarrow> nat option" where
  "least_within budget base d = (if within_set budget base d = {} then None else Some (Min (within_set budget base d)))"

lemma dict_at_some: "map_of d k = Some v \<Longrightarrow> dict_at d k = Inr v"
  by (simp add: dict_at_def)

lemma loss_at_entry: "distinct (map fst d) \<Longrightarrow> (t, x) \<in> set d \<Longrightarrow> loss_at d t = Inr (fst x)"
  by (simp add: loss_at_def dict_at_def bindE_def)

lemma tables_fall: "list_all (\<lambda>(_, d). falling (filter (\<lambda>x. fst x \<noteq> 0) d)) LOST" "list_all (\<lambda>(_, d). falling d) PUT"
    "list_all (\<lambda>(_, d). distinct (map fst d)) LOST"
  by code_simp+

lemma times_within_least:
  assumes "map_of LOST tile = Some d" "map_of d 0 = Some b"
  shows "times_within tile budget = Inr (least_within budget (fst b) (filter (\<lambda>x. fst x \<noteq> 0) d))"
proof -
  have m: "(tile, d) \<in> set LOST" using assms(1) by (rule map_of_SomeD)
  have dd: "distinct (map fst d)" using tables_fall(3) m by (auto simp: list_all_iff)
  have keys: "filter (\<lambda>t. t \<noteq> 0) (map fst d) = map fst (filter (\<lambda>x. fst x \<noteq> 0) d)" by (simp add: filter_map comp_def)
  have e: "times_within tile budget
      = scan_down (\<lambda>t. out_of budget (over tile t)) (rev (sort (map fst (filter (\<lambda>x. fst x \<noteq> 0) d)))) None"
    by (simp only: times_within_def dict_at_some[OF assms(1)] keys bindE_def sum.case)
  show ?thesis unfolding e least_within_def
  proof (rule scan_falling)
    show "falling (filter (\<lambda>x. fst x \<noteq> 0) d)" using tables_fall(1) m by (auto simp: list_all_iff)
    fix t x assume "(t, x) \<in> set (filter (\<lambda>x. fst x \<noteq> 0) d)"
    then have "loss_at d t = Inr (fst x)" using loss_at_entry[OF dd] by simp
    then show "out_of budget (over tile t) = Inr (budget - 1 / 10 ^ 9 \<le> fst x - fst b)"
      using assms by (simp add: over_def out_of_def dict_at_def loss_at_def bindE_def)
  qed
qed

lemma times_put_least:
  assumes "map_of PUT how = Some d"
  shows "times_put how budget = Inr (least_within budget (34 / 100) d)"
proof -
  have m: "(how, d) \<in> set PUT" using assms by (rule map_of_SomeD)
  then have f: "falling d" using tables_fall(2) by (auto simp: list_all_iff)
  then have dd: "distinct (map fst d)" by (simp add: falling_def)
  have base: "bindE (dict_at LOST SMALLER) (\<lambda>l. loss_at l 0) = Inr (34 / 100)" by code_simp
  then obtain l where l: "dict_at LOST SMALLER = Inr l" "loss_at l 0 = Inr (34 / 100)"
    by (cases "dict_at LOST SMALLER") (auto simp: bindE_def)
  have e: "times_put how budget = scan_down (\<lambda>t. out_of budget (bindE (loss_at d t) (\<lambda>x. Inr (x - 34 / 100)))) (rev (sort (map fst d))) None"
    unfolding times_put_def dict_at_some[OF assms] by (simp add: bindE_def l)
  show ?thesis unfolding e least_within_def
    by (rule scan_falling[OF f]) (simp add: loss_at_entry[OF dd] out_of_def bindE_def)
qed

section \<open>The script's assertions\<close>

text \<open>Those on shares of light and on the two searches; the ones in watts, photons and root sums are left out.\<close>

definition light_asserts :: "(py_error + bool) list" where
  "light_asserts =
     [Inr (line_light DIN = 16256 \<and> WORKING = (256, 64))]
     @ asserts (fill WORKING 0) (\<lambda>a. asserts (fill WORKING 1) (\<lambda>b. [Inr (near a (126 / 1000) (5 / 10000) \<and> near b (315 / 10000) (5 / 10000))]))
     @ [Inr (near (b5_fraction WORKING V1) (1 / 2) (1 / 10 ^ 12) \<and> near (b5_fraction SMALLER V1) (1 / 4) (1 / 10 ^ 12))]
     @ asserts (noise_lsb WORKING 0 1 V1) (\<lambda>a. asserts (noise_lsb WORKING 1 1 V1) (\<lambda>b.
         [Inr (near a (397 / 100) (5 / 1000) \<and> near b (15875 / 1000) (5 / 1000))]))
     @ concat (map (\<lambda>(t, _). concat (map (\<lambda>l. asserts (noise_lsb t l 1 V1) (\<lambda>x. asserts (fill t l) (\<lambda>f.
         [Inr (near (x * f) (1 / 2) (1 / 10 ^ 12))]))) [0, 1])) S8)
     @ asserts (mapE (\<lambda>l. times_for_budget WORKING l V1) [0, 1]) (\<lambda>xs. [Inr (map (\<lambda>x. py_round x 0) xs = [8, 32])])
     @ asserts (mapE (\<lambda>l. times_for_budget SMALLER l V1) [0, 1]) (\<lambda>xs. [Inr (map (\<lambda>x. py_round x 0) xs = [4, 16])])
     @ [Inr (near (b5_fraction WORKING V1 * of_int (line_light DIN) / (of_int (fst WORKING * line_light DIN) / 256)) (1 / 2) (1 / 10 ^ 12))]"

definition shift_asserts :: "(py_error + bool) list" where
  "shift_asserts =
     asserts (fill (8, 8) 0) (\<lambda>f. asserts (noise_lsb (8, 8) 0 1 V1) (\<lambda>x. [Inr (near f 1 (1 / 100) \<and> near x (1 / 2) (5 / 1000))]))
     @ concat (map (\<lambda>(t, _). asserts (fill t 0) (\<lambda>a. asserts (fill (8, 8) 0) (\<lambda>b. [Inr (a < b / (39 / 10))])))
         (filter (\<lambda>(t, _). 128 \<le> fst t) S8))
     @ map (\<lambda>(t, a, b). Inr (int a - int b = 2)) S8
     @ concat (map (\<lambda>(t, _). asserts (noise_lsb t 1 1 V1) (\<lambda>x. asserts (noise_lsb t 0 1 V1) (\<lambda>y. [Inr (near (x / y) 4 (1 / 10 ^ 12))]))) S8)"

definition budget_asserts :: "(py_error + bool) list" where
  "budget_asserts =
     asserts (bindE (dict_at LOST WORKING) (\<lambda>d. loss_at d 1)) (\<lambda>x. [Inr (py_round x 0 = 39)])
     @ asserts (times_within WORKING WITHIN) (\<lambda>t. [Inr (t = Some 16)])
     @ asserts (mapE (over WORKING) [16, 8, 4]) (\<lambda>xs. [Inr (near (xs ! 0) (8 / 100) (5 / 1000)), Inr (WITHIN < xs ! 1),
         Inr (near (xs ! 1) (40 / 100) (5 / 1000) \<and> near (xs ! 2) (224 / 100) (5 / 1000))])
     @ asserts (noise_lsb WORKING 0 8 V1) (\<lambda>a. asserts (noise_lsb WORKING 1 32 V1) (\<lambda>b. [Inr (near a (1 / 2) (5 / 1000) \<and> near b (1 / 2) (5 / 1000))]))
     @ asserts (times_within SMALLER WITHIN) (\<lambda>t. [Inr (t = Some 8)])
     @ asserts (noise_lsb SMALLER 0 4 V1) (\<lambda>a. asserts (noise_lsb WORKING 0 8 V1) (\<lambda>b. [Inr (near a b (1 / 10 ^ 12))]))
     @ [Inr (near (b5_fraction WORKING V1 / 16) (1 / 32) (1 / 10 ^ 12) \<and> near (b5_fraction SMALLER V1 / 8) (1 / 32) (1 / 10 ^ 12))]"

definition put_asserts :: "(py_error + bool) list" where
  "put_asserts =
     asserts (dict_at LOST SMALLER) (\<lambda>l. asserts (mapE (dict_at PUT) [AS_SET, BIT_DOWN, (-2, 0), (0, 1), (-1, 1)]) (\<lambda>ps.
       let loss = (\<lambda>i m. loss_at (ps ! i) m); all = (\<lambda>ms f. asserts (mapE f ms) (map Inr));
           more = (\<lambda>i j m. bindE (loss i m) (\<lambda>x. bindE (loss j m) (\<lambda>y. Inr (y < x)))) in
       all [2, 4, 8] (\<lambda>m. bindE (dict_at (ps ! 0) m) (\<lambda>x. bindE (dict_at l m) (\<lambda>y. Inr (x = y))))
       @ asserts (dict_at (ps ! 1) 4) (\<lambda>x. asserts (dict_at l 8) (\<lambda>y. [Inr (x = y)]))
       @ asserts (loss 1 8) (\<lambda>x. asserts (loss_at l 16) (\<lambda>y. [Inr (x = y)]))
       @ asserts (loss 1 2) (\<lambda>x. asserts (loss_at l 4) (\<lambda>y. [Inr (y < x)]))
       @ all [2, 4, 8] (more 2 1) @ all [2, 4, 8] (more 3 0) @ all [4, 8] (more 4 1)))
     @ asserts (mapE (\<lambda>h. times_put h WITHIN) [AS_SET, BIT_DOWN]) (\<lambda>ts. [Inr (ts = [Some 8, Some 4])])
     @ asserts (mapE (\<lambda>m. mapE (\<lambda>(k, d). bindE (loss_at d m) (\<lambda>x. Inr (k, - x))) PUT) [4, 8]) (\<lambda>xs.
         [Inr (map (\<lambda>ks. map_option fst (py_max_by snd ks)) xs = [Some BIT_DOWN, Some BIT_DOWN])])
     @ asserts (mapE (\<lambda>h. times_put h WITHIN) [(0, 1), (-1, 1), (-2, 0)]) (\<lambda>ts. [Inr (ts = [None, Some 4, None])])
     @ asserts (dict_at PUT_CLIPS BIT_DOWN) (\<lambda>(u, w, c). [Inr (u = 65 / 100 \<and> fst c = 2 / 100), Inr (near (100 / u) 154 1)])
     @ asserts (dict_at PUT_CLIPS (-2, 0)) (\<lambda>(u, w, c). [Inr (13 < u \<and> near (fst c) (26 / 100) (5 / 1000))])
     @ asserts (mapE (dict_at PUT_S8) [BIT_DOWN, AS_SET, (-2, 0)]) (\<lambda>ss.
         [Inr (int (snd (ss ! 0)) - int (snd (ss ! 1)) = 1 \<and> ss ! 2 = ss ! 0)])"

text \<open>All of these hold.\<close>

lemma light_asserts_ok: "list_all (\<lambda>c. c = Inr True) light_asserts"
  by code_simp

lemma shift_asserts_ok: "list_all (\<lambda>c. c = Inr True) shift_asserts"
  by code_simp

lemma budget_asserts_ok: "list_all (\<lambda>c. c = Inr True) budget_asserts"
  by code_simp

lemma put_asserts_ok: "list_all (\<lambda>c. c = Inr True) put_asserts"
  by code_simp

end
