(* ===== verification/Workload.thy ===== *)
theory Workload
  imports Laser_Light "HOL-Library.AList"
begin

text \<open>
  \<^verbatim>\<open>docs/designs/pta_workload.py\<close>: the budget on a second workload.  The tables are the measurements the script holds; what it
  derives from them, the least laser for a workload among it, are the definitions, over exact rationals.  The
  lemmas say that both searches return the least multiple within the budget for every workload, way of putting the network
  on the tile and budget, and that the script's assertions hold, those on standard errors (a square root), on watts and
  on another script's table aside.
\<close>

section \<open>The measurements\<close>

datatype workload = MNIST | FASHION | INVERTED

definition WORKLOADS :: "workload list" where "WORKLOADS = [MNIST, FASHION, INVERTED]"
definition NEW :: "workload list" where "NEW = [FASHION, INVERTED]"
definition TILE :: tile where "TILE = SMALLER"
definition CORE :: tile where "CORE = (8, 8)"
definition D3_IN :: int where "D3_IN = 784"

text \<open>A lookup of a key that is there.\<close>

definition here :: "('k \<times> 'v) list \<Rightarrow> 'k \<Rightarrow> 'v" where
  "here d k = the (map_of d k)"

definition MEAN_PIXEL :: "(workload \<times> rat) list" where
  "MEAN_PIXEL =
    [(MNIST, 1325 / 10000),
     (FASHION, 2868 / 10000),
     (INVERTED, 8675 / 10000)]"

definition HOST :: "(workload \<times> rat list) list" where
  "HOST =
    [(MNIST, [9744 / 100, 9781 / 100, 9717 / 100, 9743 / 100, 9741 / 100]),
     (FASHION, [8772 / 100, 8732 / 100, 8687 / 100, 8799 / 100, 8748 / 100]),
     (INVERTED, [9446 / 100, 9364 / 100, 9132 / 100, 9337 / 100, 9401 / 100])]"

definition S8 :: "(workload \<times> (nat \<times> nat) list) list" where
  "S8 =
    [(MNIST, [(11, 9), (11, 9), (11, 9), (11, 9), (11, 9)]),
     (FASHION, [(12, 9), (11, 9), (11, 9), (11, 9), (11, 8)]),
     (INVERTED, [(12, 8), (11, 8), (11, 8), (12, 7), (12, 7)])]"

definition LIT :: "(workload \<times> (fig \<times> fig)) list" where
  "LIT =
    [(MNIST, here Laser_Light.LIT TILE),
     (FASHION, ((3231 / 100, 11575 / 100), (378 / 100, 1051 / 100))),
     (INVERTED, ((9502 / 100, 12498 / 100), (350 / 100, 563 / 100)))]"

definition OUT_ERR :: "(workload \<times> fig) list" where
  "OUT_ERR =
    [(MNIST, (794 / 100, 15 / 100)),
     (FASHION, (777 / 100, 74 / 100)),
     (INVERTED, (1238 / 100, 122 / 100))]"

definition LEAD :: "(workload \<times> fig) list" where
  "LEAD =
    [(MNIST, (7792 / 1000, 177 / 1000)),
     (FASHION, (3597 / 1000, 247 / 1000)),
     (INVERTED, (5446 / 1000, 420 / 1000))]"

definition ROW_ERR :: "(string \<times> (rat \<times> rat \<times> rat)) list" where
  "ROW_ERR =
    [(''thermal1'', (812 / 100, 743 / 100, 983 / 100)),
     (''photons3'', (1079 / 100, 895 / 100, 2031 / 100)),
     (''prog4'', (711 / 100, 691 / 100, 1472 / 100)),
     (''xtalk10'', (1883 / 100, 1651 / 100, 1928 / 100)),
     (''v1'', (794 / 100, 777 / 100, 1238 / 100)),
     (''hour'', (939 / 100, 1061 / 100, 2511 / 100)),
     (''four'', (1358 / 100, 1983 / 100, 4210 / 100))]"

definition ROW_NAMES :: "(string \<times> string) list" where
  "ROW_NAMES =
    [(''quant8'', ''the quantisers, 8-bit ADC''),
     (''adc6'', ''the same, 6-bit ADC''),
     (''act5'', ''v0's rows alone: 5 activation bits''),
     (''thermal1'', ''  receiver noise 1 LSB''),
     (''photons3'', ''  3 photons an LSB''),
     (''prog4'', ''  programming error 4 LSB''),
     (''xtalk10'', ''  crosstalk 10%''),
     (''v0_8'', ''v0's rows together, 8-bit ADC''),
     (''v0'', ''v0, at its 6-bit ADC''),
     (''v1'', ''version 1''),
     (''six'', ''v1, six minutes of TFLT's drift''),
     (''hour'', ''v1, an hour of it''),
     (''four'', ''v1, four hours of it''),
     (''long46'', ''v1, 46 hours of it''),
     (''tfln'', ''v1, an hour of TFLN's''),
     (''cal'', ''v1, an hour, then calibrated'')]"

definition ROWS :: "((workload \<times> tile) \<times> (string \<times> fig) list) list" where
  "ROWS =
    [((MNIST, CORE), [(''quant8'', (3 / 100, 2 / 100)), (''adc6'', (22 / 100, 6 / 100)), (''act5'', (17 / 100, 5 / 100)), (''thermal1'', (29 / 100, 2 / 100)), (''photons3'', (49 / 100, 3 / 100)), (''prog4'', (30 / 100, 2 / 100)), (''xtalk10'', (19 / 100, 7 / 100)), (''v0_8'', (141 / 100, 9 / 100)), (''v0'', (149 / 100, 6 / 100)), (''v1'', (26 / 100, 6 / 100)), (''six'', (37 / 100, 4 / 100)), (''hour'', (81 / 100, 21 / 100)), (''four'', (518 / 100, 231 / 100)), (''long46'', (6554 / 100, 506 / 100)), (''tfln'', (2262 / 100, 479 / 100)), (''cal'', (22 / 100, 5 / 100))]),
     ((MNIST, TILE), [(''quant8'', (2 / 100, 4 / 100)), (''adc6'', (43 / 100, 18 / 100)), (''act5'', (13 / 100, 6 / 100)), (''thermal1'', (28 / 100, 6 / 100)), (''photons3'', (68 / 100, 4 / 100)), (''prog4'', (20 / 100, 10 / 100)), (''xtalk10'', (21 / 100, 5 / 100)), (''v0_8'', (183 / 100, 4 / 100)), (''v0'', (217 / 100, 12 / 100)), (''v1'', (34 / 100, 7 / 100)), (''six'', (33 / 100, 9 / 100)), (''hour'', (51 / 100, 7 / 100)), (''four'', (74 / 100, 7 / 100)), (''long46'', (936 / 100, 96 / 100)), (''tfln'', (281 / 100, 22 / 100)), (''cal'', (21 / 100, 5 / 100))]),
     ((FASHION, CORE), [(''quant8'', (13 / 100, 6 / 100)), (''adc6'', (124 / 100, 37 / 100)), (''act5'', (59 / 100, 13 / 100)), (''thermal1'', (135 / 100, 39 / 100)), (''photons3'', (115 / 100, 23 / 100)), (''prog4'', (89 / 100, 11 / 100)), (''xtalk10'', (124 / 100, 30 / 100)), (''v0_8'', (409 / 100, 61 / 100)), (''v0'', (473 / 100, 66 / 100)), (''v1'', (106 / 100, 26 / 100)), (''six'', (118 / 100, 18 / 100)), (''hour'', (439 / 100, 89 / 100)), (''four'', (1955 / 100, 307 / 100)), (''long46'', (6248 / 100, 586 / 100)), (''tfln'', (4548 / 100, 491 / 100)), (''cal'', (104 / 100, 20 / 100))]),
     ((FASHION, TILE), [(''quant8'', (6 / 100, 7 / 100)), (''adc6'', (151 / 100, 28 / 100)), (''act5'', (51 / 100, 11 / 100)), (''thermal1'', (138 / 100, 31 / 100)), (''photons3'', (216 / 100, 14 / 100)), (''prog4'', (80 / 100, 12 / 100)), (''xtalk10'', (96 / 100, 24 / 100)), (''v0_8'', (465 / 100, 50 / 100)), (''v0'', (527 / 100, 43 / 100)), (''v1'', (116 / 100, 14 / 100)), (''six'', (124 / 100, 18 / 100)), (''hour'', (184 / 100, 39 / 100)), (''four'', (350 / 100, 41 / 100)), (''long46'', (2326 / 100, 148 / 100)), (''tfln'', (837 / 100, 147 / 100)), (''cal'', (118 / 100, 9 / 100))]),
     ((INVERTED, CORE), [(''quant8'', (17 / 100, 11 / 100)), (''adc6'', (85 / 100, 30 / 100)), (''act5'', (71 / 100, 19 / 100)), (''thermal1'', (82 / 100, 20 / 100)), (''photons3'', (160 / 100, 19 / 100)), (''prog4'', (183 / 100, 24 / 100)), (''xtalk10'', (127 / 100, 44 / 100)), (''v0_8'', (659 / 100, 100 / 100)), (''v0'', (714 / 100, 118 / 100)), (''v1'', (110 / 100, 22 / 100)), (''six'', (270 / 100, 73 / 100)), (''hour'', (2352 / 100, 581 / 100)), (''four'', (6276 / 100, 508 / 100)), (''long46'', (8198 / 100, 99 / 100)), (''tfln'', (7565 / 100, 239 / 100)), (''cal'', (131 / 100, 51 / 100))]),
     ((INVERTED, TILE), [(''quant8'', (-1 / 100, 5 / 100)), (''adc6'', (108 / 100, 33 / 100)), (''act5'', (65 / 100, 12 / 100)), (''thermal1'', (65 / 100, 12 / 100)), (''photons3'', (305 / 100, 48 / 100)), (''prog4'', (157 / 100, 16 / 100)), (''xtalk10'', (132 / 100, 40 / 100)), (''v0_8'', (804 / 100, 71 / 100)), (''v0'', (857 / 100, 63 / 100)), (''v1'', (123 / 100, 13 / 100)), (''six'', (142 / 100, 35 / 100)), (''hour'', (318 / 100, 127 / 100)), (''four'', (1777 / 100, 302 / 100)), (''long46'', (6812 / 100, 292 / 100)), (''tfln'', (3858 / 100, 556 / 100)), (''cal'', (114 / 100, 18 / 100))])]"

text \<open>The budget's accuracies at the core's tile.\<close>

record accuracies =
  b_host :: rat
  b_adc8 :: rat
  b_adc6 :: rat
  b_alone :: "rat list"
  b_all8 :: rat
  b_v0 :: rat
  b_v1 :: rat
  b_v1_halved :: rat
  b_v1_dark :: rat
  b_tighten :: "rat list"
  b_relax :: "rat list"

definition BUDGET :: "(workload \<times> accuracies) list" where
  "BUDGET =
    [(FASHION, \<lparr>b_host = 8745 / 100, b_adc8 = 8734 / 100, b_adc6 = 8623 / 100, b_alone = [8688 / 100, 8613 / 100, 8632 / 100, 8659 / 100, 8624 / 100], b_all8 = 8339 / 100, b_v0 = 8274 / 100, b_v1 = 8641 / 100, b_v1_halved = 8660 / 100, b_v1_dark = 8664 / 100, b_tighten = [8308 / 100, 8310 / 100, 8335 / 100, 8362 / 100, 8351 / 100, 8354 / 100], b_relax = [8611 / 100, 8582 / 100, 8555 / 100, 8572 / 100, 8576 / 100, 8563 / 100]\<rparr>),
     (INVERTED, \<lparr>b_host = 9334 / 100, b_adc8 = 9319 / 100, b_adc6 = 9251 / 100, b_alone = [9265 / 100, 9254 / 100, 9176 / 100, 9153 / 100, 9209 / 100], b_all8 = 8677 / 100, b_v0 = 8622 / 100, b_v1 = 9226 / 100, b_v1_halved = 9248 / 100, b_v1_dark = 9254 / 100, b_tighten = [8670 / 100, 8651 / 100, 8676 / 100, 8768 / 100, 8843 / 100, 8692 / 100], b_relax = [9167 / 100, 9147 / 100, 9161 / 100, 9091 / 100, 9039 / 100, 9121 / 100]\<rparr>)]"

definition MNIST_RELAX :: "rat list" where "MNIST_RELAX = [10 / 100, 12 / 100, 19 / 100, 34 / 100, 33 / 100, 16 / 100]"
definition MNIST_TIGHTEN :: "rat list" where "MNIST_TIGHTEN = [10 / 100, 9 / 100, 18 / 100, 34 / 100, 42 / 100, 8 / 100]"
definition MNIST_ALONE :: "rat list" where "MNIST_ALONE = [14 / 100, 26 / 100, 45 / 100, 27 / 100, 16 / 100]"
definition MNIST_TOGETHER :: rat where "MNIST_TOGETHER = 138 / 100"

definition LOST :: "(workload \<times> (nat \<times> fig) list) list" where
  "LOST =
    [(MNIST, here Laser_Light.LOST TILE),
     (FASHION, [(0, (116 / 100, 14 / 100)), (1, (2390 / 100, 349 / 100)), (2, (1038 / 100, 219 / 100)), (4, (416 / 100, 89 / 100)), (8, (193 / 100, 29 / 100)), (16, (126 / 100, 14 / 100)), (32, (104 / 100, 13 / 100)), (64, (100 / 100, 14 / 100))]),
     (INVERTED, [(0, (123 / 100, 13 / 100)), (1, (4087 / 100, 446 / 100)), (2, (1747 / 100, 289 / 100)), (4, (535 / 100, 90 / 100)), (8, (199 / 100, 27 / 100)), (16, (127 / 100, 18 / 100)), (32, (115 / 100, 16 / 100)), (64, (104 / 100, 14 / 100))])]"

definition NOISE_B5 :: "(workload \<times> (rat \<times> rat)) list" where
  "NOISE_B5 =
    [(MNIST, (198 / 100, 794 / 100)),
     (FASHION, (179 / 100, 953 / 100)),
     (INVERTED, (139 / 100, 2223 / 100))]"

definition PUT :: "(workload \<times> ((int \<times> int) \<times> (nat \<times> fig) list) list) list" where
  "PUT =
    [(MNIST, Laser_Light.PUT),
     (FASHION, [
       ((0, 0), [(2, (1038 / 100, 219 / 100)), (4, (416 / 100, 89 / 100)), (8, (193 / 100, 29 / 100))]),
       ((0, 1), [(2, (1283 / 100, 242 / 100)), (4, (562 / 100, 123 / 100)), (8, (267 / 100, 43 / 100))]),
       ((0, 2), [(2, (1682 / 100, 243 / 100)), (4, (842 / 100, 144 / 100)), (8, (487 / 100, 75 / 100))]),
       ((-1, 0), [(2, (439 / 100, 91 / 100)), (4, (193 / 100, 34 / 100)), (8, (119 / 100, 13 / 100))]),
       ((-1, 1), [(2, (569 / 100, 123 / 100)), (4, (265 / 100, 46 / 100)), (8, (172 / 100, 14 / 100))]),
       ((-1, 2), [(2, (838 / 100, 144 / 100)), (4, (484 / 100, 76 / 100)), (8, (359 / 100, 69 / 100))]),
       ((-2, 0), [(2, (228 / 100, 27 / 100)), (4, (129 / 100, 14 / 100)), (8, (98 / 100, 8 / 100))]),
       ((-2, 1), [(2, (260 / 100, 41 / 100)), (4, (141 / 100, 17 / 100)), (8, (105 / 100, 13 / 100))]),
       ((-2, 2), [(2, (502 / 100, 77 / 100)), (4, (367 / 100, 62 / 100)), (8, (324 / 100, 61 / 100))])]),
     (INVERTED, [
       ((0, 0), [(2, (1747 / 100, 289 / 100)), (4, (535 / 100, 90 / 100)), (8, (199 / 100, 27 / 100))]),
       ((0, 1), [(2, (2383 / 100, 477 / 100)), (4, (1048 / 100, 233 / 100)), (8, (583 / 100, 114 / 100))]),
       ((0, 2), [(2, (4565 / 100, 501 / 100)), (4, (3419 / 100, 479 / 100)), (8, (2941 / 100, 469 / 100))]),
       ((-1, 0), [(2, (601 / 100, 87 / 100)), (4, (229 / 100, 29 / 100)), (8, (137 / 100, 16 / 100))]),
       ((-1, 1), [(2, (1141 / 100, 257 / 100)), (4, (633 / 100, 129 / 100)), (8, (499 / 100, 101 / 100))]),
       ((-1, 2), [(2, (3492 / 100, 452 / 100)), (4, (2973 / 100, 449 / 100)), (8, (2808 / 100, 454 / 100))]),
       ((-2, 0), [(2, (357 / 100, 42 / 100)), (4, (222 / 100, 37 / 100)), (8, (186 / 100, 36 / 100))]),
       ((-2, 1), [(2, (625 / 100, 134 / 100)), (4, (453 / 100, 104 / 100)), (8, (408 / 100, 93 / 100))]),
       ((-2, 2), [(2, (2989 / 100, 527 / 100)), (4, (2763 / 100, 544 / 100)), (8, (2700 / 100, 550 / 100))])])]"

definition PUT_CLIPS :: "(workload \<times> ((int \<times> int) \<times> (rat \<times> rat \<times> fig)) list) list" where
  "PUT_CLIPS =
    [(MNIST, Laser_Light.PUT_CLIPS),
     (FASHION, [
       ((0, 0), (1 / 100, 0, (3 / 100, 1 / 100))),
       ((0, 1), (0, 73 / 100, (34 / 100, 8 / 100))),
       ((0, 2), (0, 842 / 100, (233 / 100, 62 / 100))),
       ((-1, 0), (90 / 100, 0, (2 / 100, 1 / 100))),
       ((-1, 1), (75 / 100, 73 / 100, (35 / 100, 6 / 100))),
       ((-1, 2), (51 / 100, 842 / 100, (233 / 100, 63 / 100))),
       ((-2, 0), (1032 / 100, 0, (21 / 100, 8 / 100))),
       ((-2, 1), (889 / 100, 73 / 100, (39 / 100, 7 / 100))),
       ((-2, 2), (701 / 100, 842 / 100, (242 / 100, 71 / 100)))]),
     (INVERTED, [
       ((0, 0), (0, 0, (2 / 100, 2 / 100))),
       ((0, 1), (0, 15 / 100, (305 / 100, 82 / 100))),
       ((0, 2), (0, 209 / 100, (2640 / 100, 517 / 100))),
       ((-1, 0), (275 / 100, 0, (4 / 100, 4 / 100))),
       ((-1, 1), (333 / 100, 15 / 100, (299 / 100, 81 / 100))),
       ((-1, 2), (230 / 100, 209 / 100, (2634 / 100, 522 / 100))),
       ((-2, 0), (2227 / 100, 0, (61 / 100, 33 / 100))),
       ((-2, 1), (2297 / 100, 15 / 100, (270 / 100, 79 / 100))),
       ((-2, 2), (1845 / 100, 209 / 100, (2597 / 100, 594 / 100)))])]"

definition PUT16 :: "(workload \<times> ((int \<times> int) \<times> (nat \<times> fig) list) list) list" where
  "PUT16 =
    [(FASHION, [
       ((0, 0), [(16, (126 / 100, 14 / 100))]),
       ((0, 1), [(16, (168 / 100, 22 / 100))]),
       ((0, 2), [(16, (363 / 100, 72 / 100))]),
       ((-1, 0), [(16, (96 / 100, 7 / 100))]),
       ((-1, 1), [(16, (147 / 100, 10 / 100))]),
       ((-1, 2), [(16, (312 / 100, 72 / 100))]),
       ((-2, 0), [(16, (89 / 100, 7 / 100))]),
       ((-2, 1), [(16, (104 / 100, 12 / 100))]),
       ((-2, 2), [(16, (307 / 100, 64 / 100))])]),
     (INVERTED, [
       ((0, 0), [(16, (127 / 100, 18 / 100))]),
       ((0, 1), [(16, (459 / 100, 88 / 100))]),
       ((0, 2), [(16, (2771 / 100, 469 / 100))]),
       ((-1, 0), [(16, (117 / 100, 12 / 100))]),
       ((-1, 1), [(16, (456 / 100, 91 / 100))]),
       ((-1, 2), [(16, (2757 / 100, 461 / 100))]),
       ((-2, 0), [(16, (181 / 100, 37 / 100))]),
       ((-2, 1), [(16, (403 / 100, 94 / 100))]),
       ((-2, 2), [(16, (2688 / 100, 552 / 100))])])]"

definition TWO_DOWN :: "int \<times> int" where "TWO_DOWN = (-2, 0)"

section \<open>What follows from them\<close>

definition mean :: "rat list \<Rightarrow> py_error + rat" where
  "mean xs = (if xs = [] then Inl ZeroDivisionError else Inr (sum_list xs / of_nat (length xs)))"

definition shots :: int where
  "shots = ceil_div D3_IN (fst TILE)"

definition lit_expected :: "workload \<Rightarrow> rat" where
  "lit_expected w = here MEAN_PIXEL w * of_int D3_IN / of_int shots"

definition over :: "workload \<Rightarrow> nat \<Rightarrow> py_error + rat" where
  "over w t = bindE (dict_at LOST w) (\<lambda>d. bindE (loss_at d t) (\<lambda>x. bindE (loss_at d 0) (\<lambda>b. Inr (x - b))))"

definition times_within :: "workload \<Rightarrow> rat \<Rightarrow> py_error + nat option" where
  "times_within w budget =
     bindE (dict_at LOST w) (\<lambda>d. scan_down (\<lambda>t. out_of budget (over w t)) (rev (sort (filter (\<lambda>t. t \<noteq> 0) (map fst d)))) None)"

text \<open>\<open>dict.update\<close>.\<close>

definition dict_update :: "('k \<times> 'v) list \<Rightarrow> ('k \<times> 'v) list \<Rightarrow> ('k \<times> 'v) list" where
  "dict_update d e = fold (\<lambda>(k, v). AList.update k v) e d"

definition dict_get :: "('k \<times> 'v list) list \<Rightarrow> 'k \<Rightarrow> 'v list" where
  "dict_get d k = (case map_of d k of None \<Rightarrow> [] | Some v \<Rightarrow> v)"

definition put :: "workload \<Rightarrow> int \<times> int \<Rightarrow> py_error + (nat \<times> fig) list" where
  "put w how = bindE (dict_at PUT w) (\<lambda>p. bindE (dict_at p how) (\<lambda>d. Inr (dict_update d (dict_get (dict_get PUT16 w) how))))"

definition put_or_laser :: "workload \<Rightarrow> int \<times> int \<Rightarrow> py_error + (nat \<times> fig) list" where
  "put_or_laser w how =
     bindE (put w how) (\<lambda>d. if how = AS_SET then bindE (dict_at LOST w) (\<lambda>l. Inr (dict_update d (filter (\<lambda>x. 1 < fst x) l))) else Inr d)"

definition times_put :: "workload \<Rightarrow> int \<times> int \<Rightarrow> rat \<Rightarrow> py_error + nat option" where
  "times_put w how budget =
     bindE (put_or_laser w how) (\<lambda>d. scan_down (\<lambda>t. out_of budget (bindE (loss_at d t) (\<lambda>x.
       bindE (dict_at LOST w) (\<lambda>l. bindE (loss_at l 0) (\<lambda>b. Inr (x - b)))))) (rev (sort (map fst d))) None)"

definition half_lsb :: "workload \<Rightarrow> py_error + rat" where
  "half_lsb w = bindE (dict_at LOST w) (\<lambda>d. bindE (loss_at d 0) (\<lambda>a. bindE (loss_at d 64) (\<lambda>b. Inr (a - b))))"

definition relax :: "workload \<Rightarrow> py_error + rat list" where
  "relax w = (if w = MNIST then Inr MNIST_RELAX
     else bindE (dict_at BUDGET w) (\<lambda>b. Inr (map (\<lambda>a. py_round (b_v1 b - a) 2) (b_relax b))))"

definition tighten :: "workload \<Rightarrow> py_error + rat list" where
  "tighten w = (if w = MNIST then Inr MNIST_TIGHTEN
     else bindE (dict_at BUDGET w) (\<lambda>b. Inr (map (\<lambda>a. py_round (a - b_v0 b) 2) (b_tighten b))))"

definition alone :: "workload \<Rightarrow> py_error + rat list" where
  "alone w = (if w = MNIST then Inr MNIST_ALONE
     else bindE (dict_at BUDGET w) (\<lambda>b. Inr (map (\<lambda>a. py_round (b_adc8 b - a) 2) (b_alone b))))"

definition together :: "workload \<Rightarrow> py_error + rat" where
  "together w = (if w = MNIST then Inr MNIST_TOGETHER
     else bindE (dict_at BUDGET w) (\<lambda>b. Inr (py_round (b_adc8 b - b_all8 b) 2)))"

definition drift_over :: "workload \<Rightarrow> string \<Rightarrow> tile \<Rightarrow> py_error + rat" where
  "drift_over w key tile =
     bindE (dict_at ROWS (w, tile)) (\<lambda>r. bindE (dict_at r key) (\<lambda>x. bindE (dict_at r ''v1'') (\<lambda>b. Inr (fst x - fst b))))"

section \<open>The searches return the least multiple within the budget\<close>

definition ways :: "(int \<times> int) list" where
  "ways = [(0, 0), (0, 1), (0, 2), (-1, 0), (-1, 1), (-1, 2), (-2, 0), (-2, 1), (-2, 2)]"

lemma put_keys: "list_all (\<lambda>(_, p). map fst p = ways) PUT"
  by code_simp

lemma workload_tables_fall:
  "list_all (\<lambda>w. list_all (\<lambda>how. case put_or_laser w how of Inl _ \<Rightarrow> False | Inr d \<Rightarrow> falling d) ways) WORKLOADS"
  "list_all (\<lambda>(_, d). falling (filter (\<lambda>x. fst x \<noteq> 0) d) \<and> distinct (map fst d)) LOST"
  by code_simp+

lemma dict_at_Inr: "dict_at d k = Inr v \<longleftrightarrow> map_of d k = Some v"
  by (auto simp: dict_at_def split: option.splits)

lemma put_falling:
  assumes "put_or_laser w how = Inr d"
  shows "falling d"
proof -
  obtain p x where "map_of PUT w = Some p" "map_of p how = Some x"
    using assms by (auto simp: put_or_laser_def put_def bindE_def dict_at_Inr split: sum.splits)
  then have "map_of PUT w = Some p" "how \<in> set (map fst p)" by (force dest: map_of_SomeD)+
  moreover from this(1) have "map fst p = ways" using put_keys by (auto simp: list_all_iff dest!: map_of_SomeD)
  ultimately have "how \<in> set ways" by simp
  moreover have "w \<in> set WORKLOADS" by (cases w) (simp_all add: WORKLOADS_def)
  ultimately have "case put_or_laser w how of Inl _ \<Rightarrow> False | Inr d \<Rightarrow> falling d" using workload_tables_fall(1) unfolding list_all_iff by blast
  then show ?thesis by (simp add: assms)
qed

text \<open>[C37] For every workload, every way the network is put on the tile and every budget, \<open>times_put\<close> is the least multiple
  measured whose loss over the workload's own version 1 is within the budget, \<open>None\<close> where none is; and \<open>times_within\<close>
  is the same over the laser's own runs.\<close>

theorem searches_least:
  assumes "put_or_laser w how = Inr d" "dict_at LOST w = Inr l" "loss_at l 0 = Inr b"
  shows "times_put w how budget = Inr (least_within budget b d)
    \<and> times_within w budget = Inr (least_within budget b (filter (\<lambda>x. fst x \<noteq> 0) l))"
proof
  have f: "falling d" by (rule put_falling[OF assms(1)])
  then have dd: "distinct (map fst d)" by (simp add: falling_def)
  have "times_put w how budget = scan_down (\<lambda>t. out_of budget (bindE (loss_at d t) (\<lambda>x. Inr (x - b)))) (rev (sort (map fst d))) None"
    unfolding times_put_def assms(1) by (simp add: bindE_def assms)
  also have "\<dots> = Inr (least_within budget b d)" unfolding least_within_def
    by (rule scan_falling[OF f]) (simp add: loss_at_entry[OF dd] out_of_def bindE_def)
  finally show "times_put w how budget = Inr (least_within budget b d)" .
  have "(w, l) \<in> set LOST" using assms(2) by (auto simp: dict_at_Inr dest: map_of_SomeD)
  then have lf: "falling (filter (\<lambda>x. fst x \<noteq> 0) l)" and ld: "distinct (map fst l)" using workload_tables_fall(2) by (auto simp: list_all_iff)
  have keys: "filter (\<lambda>t. t \<noteq> 0) (map fst l) = map fst (filter (\<lambda>x. fst x \<noteq> 0) l)" by (simp add: filter_map comp_def)
  have "times_within w budget = scan_down (\<lambda>t. out_of budget (over w t)) (rev (sort (map fst (filter (\<lambda>x. fst x \<noteq> 0) l)))) None"
    by (simp only: times_within_def assms(2) keys bindE_def sum.case)
  also have "\<dots> = Inr (least_within budget b (filter (\<lambda>x. fst x \<noteq> 0) l))" unfolding least_within_def
  proof (rule scan_falling[OF lf])
    fix t x assume "(t, x) \<in> set (filter (\<lambda>x. fst x \<noteq> 0) l)"
    then have "loss_at l t = Inr (fst x)" using loss_at_entry[OF ld] by simp
    then show "out_of budget (over w t) = Inr (budget - 1 / 10 ^ 9 \<le> fst x - b)"
      by (simp add: over_def assms(2,3) out_of_def bindE_def)
  qed
  finally show "times_within w budget = Inr (least_within budget b (filter (\<lambda>x. fst x \<noteq> 0) l))" .
qed

theorem searches_least_witness:
  "\<exists>d. put_or_laser INVERTED BIT_DOWN = Inr d \<and> times_put INVERTED BIT_DOWN WITHIN = Inr (Some 16)
     \<and> least_within WITHIN (123 / 100) d = Some 16"
proof -
  have "isl (put_or_laser INVERTED BIT_DOWN) = False" "bindE (dict_at LOST INVERTED) (\<lambda>l. loss_at l 0) = Inr (123 / 100)"
    and s: "times_put INVERTED BIT_DOWN WITHIN = Inr (Some 16)" by code_simp+
  then obtain d l where "put_or_laser INVERTED BIT_DOWN = Inr d" "dict_at LOST INVERTED = Inr l" "loss_at l 0 = Inr (123 / 100)"
    by (cases "put_or_laser INVERTED BIT_DOWN"; cases "dict_at LOST INVERTED") (auto simp: bindE_def)
  then show ?thesis using searches_least[of INVERTED BIT_DOWN d l "123 / 100" WITHIN] s by auto
qed

section \<open>The script's assertions\<close>

abbreviation lost :: "workload \<Rightarrow> nat \<Rightarrow> fig" where "lost w t \<equiv> here (here LOST w) t"
abbreviation row :: "workload \<Rightarrow> tile \<Rightarrow> string \<Rightarrow> fig" where "row w t k \<equiv> here (here ROWS (w, t)) k"

definition table_asserts :: "(py_error + bool) list" where
  "table_asserts =
     [Inr (TILE = (128, 64) \<and> CORE = (8, 8) \<and> D3_IN = 784 \<and> shots = 7),
      Inr (list_all (\<lambda>w. lost w 0 = row w TILE ''v1'') WORKLOADS),
      Inr (list_all (\<lambda>(_, r). set (map fst r) = set (map fst ROW_NAMES)) ROWS \<and> length ROWS = 6),
      Inr (list_all (\<lambda>w. sort (map fst (here LOST w)) = [0, 1, 2, 4, 8, 16, 32, 64]) WORKLOADS)]"

definition light_asserts :: "(py_error + bool) list" where
  "light_asserts =
     [Inr (list_all (\<lambda>w. length (here HOST w) = 5 \<and> length (here S8 w) = 5) WORKLOADS)]
     @ asserts (mapE (\<lambda>w. mean (here HOST w)) WORKLOADS) (\<lambda>ms. [Inr (map (\<lambda>m. py_round m 1) ms = [975 / 10, 875 / 10, 934 / 10])])
     @ [Inr ((Min (set (here HOST FASHION)), Max (set (here HOST FASHION))) = (8687 / 100, 8799 / 100)),
        Inr ((Min (set (here HOST INVERTED)), Max (set (here HOST INVERTED))) = (9132 / 100, 9446 / 100)),
        Inr (near (here MEAN_PIXEL MNIST + here MEAN_PIXEL INVERTED) 1 (1 / 10 ^ 9)),
        Inr (list_all (\<lambda>w. near (fst (fst (here LIT w)) / lit_expected w) 1 (3 / 100)) WORKLOADS),
        Inr (map (\<lambda>w. py_round (fst (fst (here LIT w)) / of_int (fst TILE)) 2) WORKLOADS = [12 / 100, 25 / 100, 74 / 100]),
        Inr (list_all (\<lambda>w. fst (snd (here LIT w)) < 6 / 10 * fst (snd (here LIT MNIST))) NEW),
        Inr (length (filter (\<lambda>s. fst s = 12) (concat (map (here S8) NEW))) = 4 \<and> list_all (\<lambda>s. fst s \<in> {11, 12}) (concat (map (here S8) NEW))),
        Inr (list_all (\<lambda>s. snd s < 9) (here S8 INVERTED) \<and> length (filter (\<lambda>s. snd s = 7) (here S8 INVERTED)) = 2),
        Inr (length (filter (\<lambda>s. snd s < 9) (here S8 FASHION)) = 1)]
     @ concat (map (\<lambda>w. concat (map (\<lambda>(sel, noise).
         asserts (mean (map (\<lambda>s. of_int (fst TILE) / 512 * of_int (line_light DIN) / 2 ^ sel s) (here S8 w))) (\<lambda>lsb. [Inr (near lsb noise (11 / 1000))]))
         [(fst, fst (here NOISE_B5 w)), (snd, snd (here NOISE_B5 w))])) WORKLOADS)"

definition version_asserts :: "(py_error + bool) list" where
  "version_asserts =
     (let v1t = map (\<lambda>w. fst (row w TILE ''v1'')) WORKLOADS; v1c = map (\<lambda>w. fst (row w CORE ''v1'')) WORKLOADS in
      [Inr (v1t = [34 / 100, 116 / 100, 123 / 100] \<and> v1c = [26 / 100, 106 / 100, 110 / 100]),
       Inr (near (v1t ! 1 / v1t ! 0) (34 / 10) (5 / 100) \<and> near (v1t ! 2 / v1t ! 0) (36 / 10) (5 / 100)),
       Inr (list_all (\<lambda>w. \<bar>b_host (here BUDGET w) - b_v1 (here BUDGET w) - fst (row w CORE ''v1'')\<bar> < 3 / 100) NEW),
       Inr (list_all (\<lambda>w. \<bar>b_host (here BUDGET w) - b_v0 (here BUDGET w) - fst (row w CORE ''v0'')\<bar> < 3 / 100) NEW)])"

definition two_to_seven :: "rat list \<Rightarrow> bool" where
  "two_to_seven xs \<longleftrightarrow> (case (Min (set xs), Max (set xs)) of (lo, hi) \<Rightarrow>
     195 / 100 < lo \<and> lo < 205 / 100 \<and> 65 / 10 < hi \<and> hi < 67 / 10)"

text \<open>\<open>xs.index(max(xs))\<close>.\<close>

definition index_max :: "rat list \<Rightarrow> nat" where
  "index_max xs = length (takeWhile (\<lambda>x. x \<noteq> Max (set xs)) xs)"

definition relax_asserts :: "rat list \<Rightarrow> rat list \<Rightarrow> rat list \<Rightarrow> (py_error + bool) list" where
  "relax_asserts rm rf ri =
      [Inr (rf = [30 / 100, 59 / 100, 86 / 100, 69 / 100, 65 / 100, 78 / 100] \<and> ri = [59 / 100, 79 / 100, 65 / 100, 135 / 100, 187 / 100, 105 / 100]),
       Inr (Max (set rm) = 34 / 100 \<and> list_all2 (<) rm rf \<and> list_all2 (<) rm ri),
       Inr (index_max rf = 2 \<and> sort rf ! 4 = rf ! 5), Inr (index_max ri = 4 \<and> sort ri ! 4 = ri ! 3), Inr (index_max rm = 3 \<and> sort rm ! 4 = rm ! 4),
       Inr (map (\<lambda>r. py_round (sum_list r) 2) [rm, rf, ri] = [124 / 100, 387 / 100, 630 / 100]),
       Inr (two_to_seven (map2 (/) rf rm @ map2 (/) ri rm)),
       Inr (take 2 (sort rm) = [rm ! 0, rm ! 1] \<and> rm ! 1 < 2 / 10 \<and> rm ! 2 < 2 / 10),
       Inr (5 / 10 < min (rf ! 1) (ri ! 1) \<and> 6 / 10 < min (rf ! 2) (ri ! 2))]"

definition rows_asserts :: "(py_error + bool) list" where
  "rows_asserts =
     asserts (mapE relax WORKLOADS) (\<lambda>rs. relax_asserts (rs ! 0) (rs ! 1) (rs ! 2))
     @ asserts (mapE tighten WORKLOADS) (\<lambda>ts.
      [Inr (map (\<lambda>r. py_round (sum_list r) 2) ts = [121 / 100, 376 / 100, 568 / 100]),
       Inr (list_all (\<lambda>(w, t). \<bar>b_v1 (here BUDGET w) - b_v0 (here BUDGET w) - sum_list t\<bar> < 4 / 10) (zip NEW (tl ts)))])
     @ [Inr (map (\<lambda>w. py_round (b_v1_dark (here BUDGET w) - b_v1 (here BUDGET w)) 2) NEW = [23 / 100, 28 / 100]),
        Inr (map (\<lambda>w. py_round (b_v1_halved (here BUDGET w) - b_v1 (here BUDGET w)) 2) NEW = [19 / 100, 22 / 100])]"

definition adding_asserts :: "(py_error + bool) list" where
  "adding_asserts =
     asserts (mapE alone WORKLOADS) (\<lambda>as. asserts (mapE together WORKLOADS) (\<lambda>ts.
      [Inr (map (\<lambda>a. py_round (sum_list a) 2) as = [128 / 100, 454 / 100, 538 / 100]),
       Inr (ts = [138 / 100, 395 / 100, 642 / 100]),
       Inr (map2 (\<lambda>t a. py_round (t / sum_list a) 2) ts as = [108 / 100, 87 / 100, 119 / 100])]))
     @ [Inr (map (\<lambda>w. fst (row w TILE ''v0'')) WORKLOADS = [217 / 100, 527 / 100, 857 / 100]),
        Inr (list_all (\<lambda>w. list_all (\<lambda>k. fst (row w TILE k) < fst (row w TILE ''photons3'')) [''act5'', ''thermal1'', ''prog4'', ''xtalk10'']) WORKLOADS)]"

definition drift_asserts :: "(py_error + bool) list" where
  "drift_asserts =
     asserts (mapE (\<lambda>k. mapE (\<lambda>w. drift_over w k TILE) WORKLOADS) [''hour'', ''four'', ''six'', ''cal'']) (\<lambda>ds. let hours = ds ! 0; round2 = map (\<lambda>x. py_round x 2) in
      [Inr (round2 hours = [17 / 100, 68 / 100, 195 / 100]), Inr (round2 (ds ! 1) = [40 / 100, 234 / 100, 1654 / 100]),
       Inr (round2 (ds ! 2) = [-1 / 100, 8 / 100, 19 / 100]), Inr (round2 (ds ! 3) = [-13 / 100, 2 / 100, -9 / 100]),
       Inr (near (hours ! 1 / hours ! 0) 4 (5 / 100) \<and> 11 < hours ! 2 / hours ! 0 \<and> hours ! 2 / hours ! 0 < 12),
       Inr (near (hours ! 2 / ds ! 1 ! 0) (49 / 10) (5 / 100)),
       Inr (list_all (\<lambda>w. fst (row w TILE ''cal'') - fst (row w TILE ''v1'') < 3 / 100) WORKLOADS)])
     @ [Inr (list_all (\<lambda>k. case here ROW_ERR k of (m, f, i) \<Rightarrow> near (f / m) 1 (18 / 100)) [''thermal1'', ''photons3'', ''prog4'', ''xtalk10'', ''v1'', ''hour'']),
        Inr (list_all (\<lambda>k. case here ROW_ERR k of (m, f, i) \<Rightarrow> 185 / 100 < i / m \<and> i / m < 27 / 10) [''photons3'', ''prog4'', ''hour'']),
        Inr (case here ROW_ERR ''xtalk10'' of (m, f, i) \<Rightarrow> near (i / m) 1 (5 / 100)),
        Inr (case here ROW_ERR ''v1'' of (m, f, i) \<Rightarrow> [m, f, i] = map (\<lambda>w. fst (here OUT_ERR w)) WORKLOADS)]
     @ asserts (mapE (\<lambda>w. drift_over w ''hour'' CORE) WORKLOADS) (\<lambda>cs. asserts (mapE (\<lambda>w. drift_over w ''hour'' TILE) WORKLOADS) (\<lambda>ts.
      [Inr (list_all2 (\<lambda>c t. 3 * t < c) cs ts)]))"

definition laser_asserts :: "(py_error + bool) list" where
  "laser_asserts =
     asserts (mapE (\<lambda>w. times_within w WITHIN) WORKLOADS) (\<lambda>ts. [Inr (ts = [Some 8, Some 32, Some 16])])
     @ asserts (mapE (\<lambda>w. times_put w AS_SET WITHIN) WORKLOADS) (\<lambda>ts. [Inr (ts = [Some 8, Some 32, Some 16])])
     @ asserts (mapE (\<lambda>w. times_put w BIT_DOWN WITHIN) WORKLOADS) (\<lambda>ts. [Inr (ts = [Some 4, Some 8, Some 16]),
         Inr (map (\<lambda>t. py_round (1 / (b5_fraction TILE V1 / of_nat (the t))) 0) ts = [16, 32, 64])])
     @ asserts (mapE (\<lambda>w. times_put w TWO_DOWN WITHIN) WORKLOADS) (\<lambda>ts. [Inr (ts = [None, Some 8, None])])
     @ asserts (times_within MNIST WITHIN) (\<lambda>a. asserts (Laser_Light.times_within TILE WITHIN) (\<lambda>b. [Inr (a = b)]))
     @ asserts (mapE (\<lambda>(w, t). over w t) [(FASHION, 16), (INVERTED, 16), (FASHION, 32), (INVERTED, 32), (FASHION, 8), (INVERTED, 8), (MNIST, 8)]) (\<lambda>xs.
      [Inr (near (xs ! 0) (10 / 100) (5 / 1000) \<and> xs ! 0 < snd (lost FASHION 16)),
       Inr (near (xs ! 1) (4 / 100) (5 / 1000) \<and> xs ! 2 < 0 \<and> xs ! 3 < 0),
       Inr (7 / 10 < xs ! 4 \<and> 7 / 10 < xs ! 5 \<and> near (xs ! 6) (1 / 100) (5 / 1000))])
     @ asserts (mapE half_lsb WORKLOADS) (\<lambda>xs. [Inr (map (\<lambda>x. py_round x 2) xs = [15 / 100, 16 / 100, 19 / 100])])
     @ [Inr (near (snd (here NOISE_B5 MNIST) / 8) (99 / 100) (5 / 1000) \<and> near (snd (here NOISE_B5 FASHION) / 8) (119 / 100) (5 / 1000)),
        Inr (near (snd (here NOISE_B5 INVERTED) / 8) (278 / 100) (5 / 1000))]"

definition put_asserts :: "(py_error + bool) list" where
  "put_asserts =
     asserts (mapE (\<lambda>w. mapE (\<lambda>h. put w h) ways) WORKLOADS) (\<lambda>ps.
      let tab = (\<lambda>w h. here (zip ways (ps ! (case w of MNIST \<Rightarrow> 0 | FASHION \<Rightarrow> 1 | INVERTED \<Rightarrow> 2))) h); p = (\<lambda>w h m. fst (here (tab w h) m)) in
      [Inr (list_all (\<lambda>w. list_all (\<lambda>(m, x). x = lost w m) (tab w AS_SET)) WORKLOADS),
       Inr (p FASHION BIT_DOWN 4 = fst (lost FASHION 8) \<and> p FASHION BIT_DOWN 4 = 193 / 100),
       Inr (p INVERTED BIT_DOWN 4 = 229 / 100 \<and> fst (lost INVERTED 8) = 199 / 100),
       Inr (list_all (\<lambda>w. list_all (\<lambda>m. p w BIT_DOWN m < 1 / 2 * p w AS_SET m) [2, 4]) NEW),
       Inr (list_all (\<lambda>m. p MNIST BIT_DOWN m < p MNIST TWO_DOWN m) [2, 4, 8]),
       Inr (list_all (\<lambda>m. p FASHION TWO_DOWN m < p FASHION BIT_DOWN m) [2, 4, 8]),
       Inr (p FASHION TWO_DOWN 4 = 129 / 100), Inr (p INVERTED TWO_DOWN 2 < p INVERTED BIT_DOWN 2), Inr (p INVERTED BIT_DOWN 8 < p INVERTED TWO_DOWN 8),
       Inr (list_all (\<lambda>w. list_all (\<lambda>h. set (map fst (tab w h)) = {2, 4, 8, 16}) ways) NEW),
       Inr (p FASHION TWO_DOWN 16 < p FASHION BIT_DOWN 16 \<and> p FASHION BIT_DOWN 16 < fst (lost FASHION 0)),
       Inr (list_all (\<lambda>w. list_all (\<lambda>(m, x). fst x < p w (0, 1) m) (tab w AS_SET)) WORKLOADS),
       Inr (near (p INVERTED BIT_DOWN 8 - fst (lost INVERTED 0)) (14 / 100) (5 / 1000)), Inr (p INVERTED BIT_DOWN 16 < fst (lost INVERTED 0)),
       Inr (near (p FASHION BIT_DOWN 8 - fst (lost FASHION 0)) (3 / 100) (5 / 1000))])"

definition clip_asserts :: "(py_error + bool) list" where
  "clip_asserts =
     (let clips = (\<lambda>w h. here (here PUT_CLIPS w) h) in
      [Inr (fst (clips FASHION BIT_DOWN) = 90 / 100 \<and> fst (clips INVERTED BIT_DOWN) = 275 / 100),
       Inr (list_all (\<lambda>w. fst (snd (snd (clips w BIT_DOWN))) < 5 / 100) WORKLOADS),
       Inr (map (\<lambda>w. fst (clips w TWO_DOWN)) WORKLOADS = [1345 / 100, 1032 / 100, 2227 / 100]),
       Inr (map (\<lambda>w. fst (snd (snd (clips w TWO_DOWN)))) WORKLOADS = [26 / 100, 21 / 100, 61 / 100]),
       Inr (fst (snd (clips INVERTED (0, 1))) = 15 / 100 \<and> fst (snd (snd (clips INVERTED (0, 1)))) = 305 / 100),
       Inr (25 < fst (snd (snd (clips INVERTED (0, 2)))) \<and> fst (snd (snd (clips MNIST (0, 1)))) = 14 / 100)])"

text \<open>All of these hold.\<close>

lemma table_asserts_ok: "list_all (\<lambda>c. c = Inr True) table_asserts"
  by code_simp

lemma workload_light_asserts_ok: "list_all (\<lambda>c. c = Inr True) light_asserts"
  by code_simp

lemma version_asserts_ok: "list_all (\<lambda>c. c = Inr True) version_asserts"
  by code_simp

lemma rows_asserts_ok: "list_all (\<lambda>c. c = Inr True) rows_asserts"
  by code_simp

lemma adding_asserts_ok: "list_all (\<lambda>c. c = Inr True) adding_asserts"
  by code_simp

lemma drift_asserts_ok: "list_all (\<lambda>c. c = Inr True) drift_asserts"
  by code_simp

lemma laser_asserts_ok: "list_all (\<lambda>c. c = Inr True) laser_asserts"
  by code_simp

lemma workload_put_asserts_ok: "list_all (\<lambda>c. c = Inr True) put_asserts"
  by code_simp

lemma clip_asserts_ok: "list_all (\<lambda>c. c = Inr True) clip_asserts"
  by code_simp

end
