(* ===== verification/Spec2Isabelle.thy ===== *)
theory Spec2Isabelle
  imports Tw_Sweep Bank_Policy Kernel_Loops Compat_Table Check_Docs Check_Abi Check_Perf Sweep_Block Photonic Gpu_Sched
    Transport_Cases Transport_Host Canary_Package Workload
begin

text \<open>
  A verification library for the Python of GRXCP, the compute platform of the GRX-G100 GPU and the GRX930 host.

  \<^bold>\<open>The program.\<close>  The repository's Python has three parts.  The gates under \<^verbatim>\<open>ci/\<close> decide whether a change may
  land: each reads what a build produced (an object listing, headers, measured cycles, documents), compares it with a
  stored baseline or a table and ends in an exit code.  The models under \<^verbatim>\<open>docs/designs/\<close> price and check the design of
  the photonic tensor accelerator (PTA): the host's queue to the module, the weight banks, the loop orders, the feed, the
  die-to-die link, which device a GEMM goes to, the write path and a calibration's cost, the laser a workload asks for, and
  the first board's golden tensors; each model asserts its own claims.
  The skeleton under \<^verbatim>\<open>photonic/\<close> checks a layer map, a rule table and the coupons' geometry.  The models import each
  other: the feed model takes its shapes and core counts from the loop-order model, the link model from both, the dispatch
  model from all three, the write path from the dispatch model, the workloads from the laser model; GPU scheduling uses the bank model's least-recently-used policy.

  \<^bold>\<open>How code is translated.\<close>  Each definition names its file, and the definitions stand in the order of the code.  Python
  integers are \<open>int\<close>, or \<open>nat\<close> where the code uses them as counts, addresses or register values; the transport's
  bytes and its GEMM seed are words.  Floats are exact rationals, so an assertion with a tolerance is the assertion over
  the rationals.  A raise is \<open>Inl\<close> of a \<open>py_error\<close>, an \<open>assert\<close> an entry of \<open>assert_all\<close>.  A dict is an
  association list or a map, a set whose order Python leaves open is a set with the order as an argument.  A file, a folder,
  a process to run, a digest and a random draw are arguments.  A loop is a recursion, and where it may not end a
  \<open>partial_function\<close> with a proof that it does.

  \<^bold>\<open>The theories.\<close>
  \<^item> \<open>Prelude\<close>: exceptions, ranges, rounding-up division, loops that may raise, and lemmas on them.
  \<^item> \<open>Py_Text\<close>: \<open>str\<close> methods and the backtracking matcher of \<open>re\<close> as the gates use it.
  \<^item> \<open>Transport_Slot\<close>: \<^verbatim>\<open>docs/designs/pta_board_transport.py\<close> sections 1 to 5, the descriptor's layout and codec (the
    locale \<open>codec\<close>, interpreted for both signed formats), registers, link figures, the GEMM and its seed.
  \<^item> \<open>Transport_Sim\<close>: section 6, \<open>Sim\<close>, \<open>Module\<close> and \<open>Host\<close>.  The state of the three classes is one record \<open>sim\<close>;
    an entry of the event heap is an \<open>event\<close> in place of a closure, a suspended generator of the host a list of \<open>frame\<close>s;
    all twelve checks and fourteen planted faults are there.
  \<^item> \<open>Transport_Run\<close>: \<open>Sim.run\<close> and the measure by which every run returns.  The limit of 60000 ticks is the code's; the
    inner loops end because every call posts only later ones and every resumption shortens the host's program.  The
    locale \<open>module_kept\<close> states what a handler of the module may do, and every handler keeps what it keeps; it is
    interpreted for the clock (\<open>later\<close>) and for the host's share of the state (\<open>leaves\<close>).
  \<^item> \<open>Transport_Host\<close>: the ring as the host keeps it, a bounded queue, over whole runs.
  \<^item> \<open>Transport_Publish\<close>: a command from the host to the module and back: what \<open>publish\<close> stores, what \<open>got_descriptor\<close>
    decodes, what \<open>shots\<close> computes and what \<open>complete\<close> compares with it.
  \<^item> \<open>Transport_Module\<close>: the module as a step relation (\<open>mstep\<close>, \<open>reached\<close>) under every order of delivery, and its
    invariant \<open>minv\<close> by phases.  The environment accesses registers, stores where the module does not own
    the line and lets time pass; \<open>polite\<close> asks that it does not enable a queue that still drains, and it does not reset.
  \<^item> \<open>Transport_Claims\<close>, \<open>Transport_Cases\<close>: the promises to the host over the reached states, concrete runs as their
    witnesses, and three things outside that environment (enabling a queue that drains, a doorbell beyond 32 bits, a reset
    under a GEMM) after which the module does not keep its own rules.
  \<^item> \<open>Tw_Sweep\<close>, \<open>Feed_Model\<close>, \<open>Chiplet_Link\<close>, \<open>Dispatch\<close>: \<^verbatim>\<open>pta_tw_sweep.py\<close>, \<^verbatim>\<open>pta_feed_model.py\<close>,
    \<^verbatim>\<open>pta_chiplet_link.py\<close>, \<^verbatim>\<open>pta_dispatch.py\<close>.  The locale \<open>rising\<close> states what the batch search asks of a device's time.
  \<^item> \<open>Write_Path\<close>: the feed and the weight path of \<^verbatim>\<open>pta_shot_rate.py\<close>, the calibration interval of \<^verbatim>\<open>pta_version2.py\<close>,
    the layers of \<^verbatim>\<open>pta_working_point.py\<close> and the beats of \<^verbatim>\<open>pta_interruption.py\<close>.
  \<^item> \<open>Laser_Light\<close>, \<open>Workload\<close>: the tables of \<^verbatim>\<open>pta_laser.py\<close> and \<^verbatim>\<open>pta_workload.py\<close>, what they derive from them, and the
    search for the least laser, a loop down the multiples measured that stops at the first one over the budget.
  \<^item> \<open>Demand_Paging\<close>, \<open>Bank_Policy\<close>, \<open>Gpu_Sched\<close>: the least misses any schedule has, the locale of a demand policy, and
    \<^verbatim>\<open>pta_bank_policy.py\<close> and \<^verbatim>\<open>pta_gpu_sched.py\<close> on it; LRU and FIFO are interpretations.
  \<^item> \<open>Canary_Tensors\<close>, \<open>Canary_Package\<close>: \<^verbatim>\<open>pta_board_canary_golden.py\<close>, its arithmetic and integer tensors, its package
    digests and freeze gate.
  \<^item> \<open>Kernel_Loops\<close>, \<open>Compat_Table\<close>, \<open>Check_Docs\<close>, \<open>Check_Abi\<close>, \<open>Check_Perf\<close>, \<open>Sweep_Block\<close>: the six gates of \<^verbatim>\<open>ci/\<close>.
  \<^item> \<open>Photonic\<close>: the skeleton under \<^verbatim>\<open>photonic/\<close>.

  \<^bold>\<open>What is shown.\<close>  Of the transport, for a host that rings 32-bit doorbells, enables only a drained queue and does not
  reset: a slot's head moves only past a record in memory, a record only follows its results, a queue that reads stopped
  has nothing in flight, a doorbell never owes more than the ring.  Every run returns; what is published is what the module
  decodes and what it computes is what the host compares; the host never reuses a slot that has not ended nor leaves one
  pending unless that fault is planted.  Of the gates: an exit code of 0 means what the script's header promises of what its
  patterns find (equal layouts, equal censuses, every reference resolved, every metric within its band, every name
  defined as a whole word), nothing found is dropped without a count, and regenerating is a round trip.  Of
  the cost models: optimality of MIN, thrashing below a period, the break-even of the loop orders, the feed's margin against
  its race, what the split and the second bank save, the least batch of the search, the least write width that reaches a
  duty, the least laser within a budget, and that the feed's rate is the link's; beside them, that every modelled assertion
  holds.  Of the canary: the shifts are rounding half up, 32-bit sums do not overflow under the run's own assertion, every
  tensor encodes, a package that passes fixes its files, and when a freeze is ready.

  \<^bold>\<open>Not modelled.\<close>  The C++, C and CUDA sources and their tests; printing, argument parsing and the messages of failures;
  the double-precision pass of the canary and its network file; the Mersenne twister behind the transport's draws, so the
  counts \<open>protocol\<close> asserts for one seed are not evaluated; the gdsfactory and klayout calls of the skeleton; the analogue
  models under \<^verbatim>\<open>docs/designs/\<close> (noise, a laser's watts and photons, rings, calibration references, board budgets, the
  literature and ADC tables, standard errors, which take square roots), which
  are floating-point formulas over tabulated measurements with printed readings; the reference scripts under \<^verbatim>\<open>tests/\<close>,
  which compute floating-point tensors with a library.
\<close>

end
